(* ===== verification/Prelude.thy ===== *)
theory Prelude
  imports Main "HOL-Library.Word" "HOL-Library.Sublist"
begin

text \<open>
  What every theory of the development shares: the parts of Rust's standard library the
  program uses on integers (\<open>u64\<close> with its saturating operations, \<open>from_str_radix\<close>, the
  decimal rendering of \<open>format!\<close>), on ASCII bytes and on strings (split, trim, prefix and
  suffix stripping), the collections of facts the component proofs draw on, and two small
  interfaces: a \<open>codec\<close> (an encoder and the decoder that undoes it), an \<open>invariant_system\<close> (a step
  relation with an invariant) and its extension \<open>refinement\<close> (an abstraction of its steps), all
  interpreted by the components.

  A string is a list of bytes (\<open>char list\<close>), so lengths are byte lengths as in Rust.
\<close>

named_theorems std_defs \<open>definitions of the standard library's operations\<close>

type_synonym bytes = string

section \<open>Unsigned 64-bit integers\<close>

type_synonym u64 = "64 word"

definition saturating_add :: "u64 \<Rightarrow> u64 \<Rightarrow> u64" where
  "saturating_add a b = (if unat a + unat b < 2 ^ 64 then a + b else - 1)"

definition saturating_mul :: "u64 \<Rightarrow> u64 \<Rightarrow> u64" where
  "saturating_mul a b = (if unat a * unat b < 2 ^ 64 then a * b else - 1)"

definition saturating_sub :: "u64 \<Rightarrow> u64 \<Rightarrow> u64" where
  "saturating_sub a b = (if a < b then 0 else a - b)"

lemma unat_max_u64: "unat (- 1 :: u64) = 2 ^ 64 - 1"
  by transfer (simp add: take_bit_minus_one_eq_mask mask_eq_exp_minus_1)

lemma unat_saturating_add: "unat (saturating_add a b) = min (unat a + unat b) (2 ^ 64 - 1)"
  by (auto simp: saturating_add_def unat_max_u64 unat_word_ariths min_def)

lemma unat_saturating_mul: "unat (saturating_mul a b) = min (unat a * unat b) (2 ^ 64 - 1)"
  by (auto simp: saturating_mul_def unat_max_u64 unat_word_ariths min_def)

lemma unat_saturating_sub: "unat (saturating_sub a b) = unat a - unat b"
  by (auto simp: saturating_sub_def unat_sub_if' word_less_nat_alt)

lemmas saturating = unat_saturating_add unat_saturating_mul unat_saturating_sub

section \<open>ASCII bytes\<close>

abbreviation code :: "char \<Rightarrow> nat" where
  "code c \<equiv> of_char c"

definition is_ascii_digit :: "char \<Rightarrow> bool" where
  "is_ascii_digit c \<longleftrightarrow> 48 \<le> code c \<and> code c \<le> 57"

definition is_ascii_lower :: "char \<Rightarrow> bool" where
  "is_ascii_lower c \<longleftrightarrow> 97 \<le> code c \<and> code c \<le> 122"

definition is_ascii_upper :: "char \<Rightarrow> bool" where
  "is_ascii_upper c \<longleftrightarrow> 65 \<le> code c \<and> code c \<le> 90"

definition is_ascii_alphanumeric :: "char \<Rightarrow> bool" where
  "is_ascii_alphanumeric c \<longleftrightarrow> is_ascii_digit c \<or> is_ascii_lower c \<or> is_ascii_upper c"

definition is_ascii_hexdigit :: "char \<Rightarrow> bool" where
  "is_ascii_hexdigit c \<longleftrightarrow> is_ascii_digit c \<or> (97 \<le> code c \<and> code c \<le> 102)
     \<or> (65 \<le> code c \<and> code c \<le> 70)"

text \<open>\<open>u8::is_ascii_whitespace\<close>: space, tab, line feed, form feed, carriage return.\<close>

definition is_ascii_whitespace :: "char \<Rightarrow> bool" where
  "is_ascii_whitespace c \<longleftrightarrow> code c \<in> {32, 9, 10, 12, 13}"

definition to_ascii_lowercase :: "char \<Rightarrow> char" where
  "to_ascii_lowercase c = (if is_ascii_upper c then char_of (code c + 32) else c)"

definition eq_ignore_ascii_case :: "string \<Rightarrow> string \<Rightarrow> bool" where
  "eq_ignore_ascii_case a b \<longleftrightarrow> map to_ascii_lowercase a = map to_ascii_lowercase b"

lemmas ascii_defs [std_defs] =
  is_ascii_digit_def is_ascii_lower_def is_ascii_upper_def is_ascii_alphanumeric_def
  is_ascii_hexdigit_def is_ascii_whitespace_def to_ascii_lowercase_def eq_ignore_ascii_case_def

lemma code_less: "code c < 256"
  by (cases c) (auto simp: of_char_Char split: if_splits)

lemma char_of_code [simp]: "char_of (code c) = c"
  by simp

section \<open>Strings\<close>

text \<open>\<open>str::split(c)\<close>: always at least one piece; \<open>n\<close> separators give \<open>n + 1\<close> pieces.\<close>

fun split :: "char \<Rightarrow> string \<Rightarrow> string list" where
  "split sep [] = [[]]"
| "split sep (c # cs) =
     (if c = sep then [] # split sep cs
      else (case split sep cs of [] \<Rightarrow> [[c]] | p # ps \<Rightarrow> (c # p) # ps))"

definition trim_start_by :: "(char \<Rightarrow> bool) \<Rightarrow> string \<Rightarrow> string" where
  "trim_start_by p s = dropWhile p s"

definition trim_end_by :: "(char \<Rightarrow> bool) \<Rightarrow> string \<Rightarrow> string" where
  "trim_end_by p s = rev (dropWhile p (rev s))"

definition trim_by :: "(char \<Rightarrow> bool) \<Rightarrow> string \<Rightarrow> string" where
  "trim_by p s = trim_end_by p (trim_start_by p s)"

definition trim_ascii :: "string \<Rightarrow> string" where
  "trim_ascii s = trim_by is_ascii_whitespace s"

definition strip_prefix :: "string \<Rightarrow> string \<Rightarrow> string option" where
  "strip_prefix p s = (if prefix p s then Some (drop (length p) s) else None)"

definition strip_suffix :: "string \<Rightarrow> string \<Rightarrow> string option" where
  "strip_suffix p s = (if suffix p s then Some (take (length s - length p) s) else None)"

text \<open>\<open>str::contains\<close> for a string pattern.\<close>

definition contains_str :: "string \<Rightarrow> string \<Rightarrow> bool" where
  "contains_str s p \<longleftrightarrow> sublist p s"

fun join :: "string \<Rightarrow> string list \<Rightarrow> string" where
  "join sep [] = []"
| "join sep [x] = x"
| "join sep (x # y # ys) = x @ sep @ join sep (y # ys)"

lemmas string_defs [std_defs] =
  trim_start_by_def trim_end_by_def trim_by_def trim_ascii_def
  strip_prefix_def strip_suffix_def contains_str_def

lemma split_not_Nil [simp]: "split sep s \<noteq> []"
  by (induction s) (auto split: list.splits)

lemma split_no_sep: "sep \<notin> set t \<Longrightarrow> split sep t = [t]"
  by (induction t) auto

lemma split_sep: "sep \<notin> set t \<Longrightarrow> split sep (t @ sep # r) = t # split sep r"
  by (induction t) auto

lemma join_Cons: "xs \<noteq> [] \<Longrightarrow> join sep (x # xs) = x @ sep @ join sep xs"
  by (cases xs) auto

lemma join_snoc: "xs \<noteq> [] \<Longrightarrow> join sep (xs @ [x]) = join sep xs @ sep @ x"
  by (induction sep xs rule: join.induct) (auto simp: join_Cons)

lemma join_split: "join [sep] (split sep s) = s"
proof (induction s)
  case Nil
  show ?case by simp
next
  case (Cons c cs)
  obtain p ps where ps: "split sep cs = p # ps"
    using split_not_Nil by (cases "split sep cs") blast+
  with Cons.IH show ?case
    by (cases ps) auto
qed

lemma trim_end_by_append: "\<not> p c \<Longrightarrow> trim_end_by p (s @ [c]) = s @ [c]"
  by (simp add: trim_end_by_def)

lemma strip_prefix_Some: "strip_prefix p s = Some r \<longleftrightarrow> s = p @ r"
  by (auto simp: strip_prefix_def prefix_def)

lemma strip_prefix_simps [simp]:
  "strip_prefix [] s = Some s"
  "strip_prefix (c # p) [] = None"
  "strip_prefix (c # p) (d # s) = (if c = d then strip_prefix p s else None)"
  by (auto simp: strip_prefix_def)

lemma strip_prefix_append [simp]: "strip_prefix p (p @ r) = Some r"
  by (simp add: strip_prefix_Some)

section \<open>Numerals in base 2 to 16\<close>

text \<open>\<open>char::to_digit(radix)\<close> and its inverse, the digit \<open>format!\<close> prints (lower case).\<close>

definition to_digit :: "nat \<Rightarrow> char \<Rightarrow> nat option" where
  "to_digit b c =
     (let d = (if is_ascii_digit c then code c - 48
               else if is_ascii_lower c then code c - 87
               else if is_ascii_upper c then code c - 55
               else b)
      in if d < b then Some d else None)"

definition digit_char :: "nat \<Rightarrow> char" where
  "digit_char d = char_of (if d < 10 then 48 + d else 87 + d)"

fun show_base :: "nat \<Rightarrow> nat \<Rightarrow> string" where
  "show_base b n =
     (if n < b \<or> b < 2 then [digit_char n] else show_base b (n div b) @ [digit_char (n mod b)])"

declare show_base.simps [simp del]

text \<open>The digit loop of \<open>u64::from_str_radix\<close>, with its overflow check at every digit.\<close>

fun digits_acc :: "nat \<Rightarrow> nat \<Rightarrow> string \<Rightarrow> nat option" where
  "digits_acc b a [] = Some a"
| "digits_acc b a (c # cs) =
     (case to_digit b c of
        None \<Rightarrow> None
      | Some d \<Rightarrow> if a * b + d < 2 ^ 64 then digits_acc b (a * b + d) cs else None)"

text \<open>
  \<open>u64::from_str_radix(s, b)\<close> (and \<open>s.parse::<u64>()\<close> for base 10): an empty string and a
  lone sign are errors, one leading \<open>+\<close> is accepted, a minus sign is an invalid digit.
\<close>

definition from_str_radix :: "nat \<Rightarrow> string \<Rightarrow> u64 option" where
  "from_str_radix b s =
     (if s = [] \<or> s = ''+'' \<or> s = ''-'' then None
      else map_option of_nat (digits_acc b 0 (case s of c # cs \<Rightarrow> if c = CHR ''+'' then cs else s)))"

definition parse_u64 :: "string \<Rightarrow> u64 option" where
  "parse_u64 s = from_str_radix 10 s"

definition show_u64 :: "u64 \<Rightarrow> string" where
  "show_u64 n = show_base 10 (unat n)"

lemma to_digit_less: "to_digit b c = Some d \<Longrightarrow> d < b"
  by (auto simp: to_digit_def Let_def split: if_splits)

lemma code_digit_char: "d < 16 \<Longrightarrow> code (digit_char d) = (if d < 10 then 48 + d else 87 + d)"
  by (auto simp: digit_char_def)

lemma to_digit_char: "d < b \<Longrightarrow> b \<le> 16 \<Longrightarrow> to_digit b (digit_char d) = Some d"
  by (auto simp: to_digit_def Let_def ascii_defs code_digit_char)

lemma digits_acc_append:
  "digits_acc b a (xs @ ys) = (case digits_acc b a xs of None \<Rightarrow> None | Some a' \<Rightarrow> digits_acc b a' ys)"
  by (induction xs arbitrary: a) (auto split: option.splits)

lemma digits_acc_bound: "digits_acc b a s = Some n \<Longrightarrow> a < 2 ^ 64 \<Longrightarrow> n < 2 ^ 64"
  by (induction s arbitrary: a) (auto split: option.splits if_splits)

lemma digits_acc_show_base:
  "\<lbrakk>2 \<le> b; b \<le> 16; n < 2 ^ 64\<rbrakk> \<Longrightarrow> digits_acc b 0 (show_base b n) = Some n"
proof (induction b n rule: show_base.induct)
  case (1 b n)
  show ?case
  proof (cases "n < b")
    case True
    with 1 show ?thesis
      by (subst show_base.simps) (simp add: to_digit_char)
  next
    case False
    with 1 have "n div b < 2 ^ 64"
      by (meson div_le_dividend le_less_trans)
    with 1 False have "digits_acc b 0 (show_base b (n div b)) = Some (n div b)"
      by simp
    with 1 False show ?thesis
      by (subst show_base.simps) (simp add: digits_acc_append to_digit_char)
  qed
qed

lemma show_base_not_Nil [simp]: "show_base b n \<noteq> []"
  by (subst show_base.simps) simp

lemma char_cases_code: obtains k :: nat where "k < 256" "c = char_of k"
  by (metis char_of_code code_less)

lemma char_of_48: "char_of (48 :: nat) = CHR ''0''"
  using char_of_code [of "CHR ''0''"] by simp

lemma digit_char_to_digit:
  "to_digit b c = Some d \<Longrightarrow> b \<le> 16 \<Longrightarrow> digit_char d = to_ascii_lowercase c"
  by (cases c rule: char_cases_code)
    (auto simp: to_digit_def Let_def ascii_defs digit_char_def split: if_splits)

lemma lowercase_zero: "to_ascii_lowercase c = digit_char 0 \<longleftrightarrow> c = CHR ''0''"
proof -
  have "digit_char 0 = CHR ''0''" by (simp add: digit_char_def char_of_48)
  moreover have "to_ascii_lowercase c = CHR ''0'' \<longleftrightarrow> c = CHR ''0''"
    by (cases c rule: char_cases_code)
      (auto simp: ascii_defs simp flip: char_of_48 split: if_splits)
  ultimately show ?thesis by simp
qed

lemma show_base_step: "2 \<le> b \<Longrightarrow> d < b \<Longrightarrow> 0 < m \<Longrightarrow>
    show_base b (m * b + d) = show_base b m @ [digit_char d]"
proof -
  assume "2 \<le> b" "d < b" "0 < m"
  then have "\<not> m * b + d < b" "(m * b + d) div b = m" "(m * b + d) mod b = d"
    by (auto simp: not_less trans_le_add1)
  with \<open>2 \<le> b\<close> show ?thesis by (subst show_base.simps) simp
qed

text \<open>A canonical digit string (no leading zero) is the rendering of its value, up to case.\<close>

lemma digits_acc_canonical:
  assumes "2 \<le> b" "b \<le> 16"
  shows "\<lbrakk>digits_acc b 0 ds = Some n; ds \<noteq> []; length ds > 1 \<longrightarrow> hd ds \<noteq> CHR ''0''\<rbrakk>
    \<Longrightarrow> map to_ascii_lowercase ds = show_base b n \<and> (ds \<noteq> ''0'' \<longrightarrow> hd ds \<noteq> CHR ''0'' \<longrightarrow> 0 < n)"
proof (induction ds arbitrary: n rule: rev_induct)
  case Nil
  then show ?case by simp
next
  case (snoc c ds)
  then obtain m d where m: "digits_acc b 0 ds = Some m" and d: "to_digit b c = Some d"
    and n: "n = m * b + d"
    by (auto simp: digits_acc_append split: option.splits if_splits)
  from d have db: "d < b" by (rule to_digit_less)
  from d assms have dc: "to_ascii_lowercase c = digit_char d"
    by (simp add: digit_char_to_digit)
  show ?case
  proof (cases "ds = []")
    case True
    with m n have nd: "n = d" by simp
    from dc have "0 < d" if "c \<noteq> CHR ''0''"
      using that lowercase_zero [of c] by (cases "d = 0") auto
    with True nd dc db show ?thesis by (subst show_base.simps) auto
  next
    case False
    with snoc.prems(3) have h: "hd ds \<noteq> CHR ''0''" by (cases ds) auto
    with False have "ds \<noteq> ''0''" by auto
    with snoc.IH [OF m False] h False
    have IH: "map to_ascii_lowercase ds = show_base b m" "0 < m" by auto
    with n db dc assms show ?thesis
      by (simp add: show_base_step)
  qed
qed

lemma show_base_digits: "2 \<le> b \<Longrightarrow> c \<in> set (show_base b n) \<Longrightarrow> \<exists>d < b. c = digit_char d"
proof (induction b n rule: show_base.induct)
  case (1 b n)
  have "n mod b < b" using "1.prems"(1) by simp
  moreover from "1.prems" have
    "c = digit_char n \<and> n < b \<or> c = digit_char (n mod b)
      \<or> \<not> n < b \<and> c \<in> set (show_base b (n div b))"
    by (auto simp: show_base.simps [of b n] split: if_splits)
  ultimately show ?case
    using "1.IH" "1.prems"(1) by (metis not_less)
qed

section \<open>Results\<close>

text \<open>\<open>Result<T, E>\<close> is a sum, the error on the left; \<open>and_then\<close> is also the \<open>?\<close> operator.\<close>

fun and_then :: "'e + 'a \<Rightarrow> ('a \<Rightarrow> 'e + 'b) \<Rightarrow> 'e + 'b" where
  "and_then (Inl e) f = Inl e"
| "and_then (Inr x) f = f x"

fun map_err :: "('e \<Rightarrow> 'f) \<Rightarrow> 'e + 'a \<Rightarrow> 'f + 'a" where
  "map_err f (Inl e) = Inl (f e)"
| "map_err f (Inr x) = Inr x"

fun unwrap_or_else :: "('e \<Rightarrow> 'a) \<Rightarrow> 'e + 'a \<Rightarrow> 'a" where
  "unwrap_or_else f (Inl e) = f e"
| "unwrap_or_else f (Inr x) = x"

lemma and_then_Inr_iff: "and_then r f = Inr y \<longleftrightarrow> (\<exists>x. r = Inr x \<and> f x = Inr y)"
  by (cases r) auto

section \<open>Interfaces\<close>

text \<open>
  An encoder whose output its decoder reads back. A canonical codec also accepts nothing but
  encodings, up to a normalisation of the input.
\<close>

locale codec =
  fixes enc :: "'a \<Rightarrow> 'b" and dec :: "'b \<Rightarrow> 'a option"
  assumes dec_enc: "dec (enc x) = Some x"
begin

lemma enc_inject: "enc x = enc y \<longleftrightarrow> x = y"
  by (metis dec_enc option.inject)

lemma dec_onto: "\<exists>s. dec s = Some x"
  using dec_enc by blast

end

locale canonical_codec = codec +
  fixes norm :: "'b \<Rightarrow> 'b"
  assumes dec_norm: "dec s = Some x \<Longrightarrow> norm s = enc x"
begin

lemma dec_eq_norm_eq: "dec s = Some x \<Longrightarrow> dec t = Some x \<Longrightarrow> norm s = norm t"
  by (simp add: dec_norm)

lemma dec_norm_unique: "dec s = Some x \<Longrightarrow> dec t = Some y \<Longrightarrow> norm s = norm t \<Longrightarrow> x = y"
  by (simp add: dec_norm enc_inject)

end

text \<open>A state machine given by its initial states and steps, with an invariant.\<close>

locale invariant_system =
  fixes initial :: "'s \<Rightarrow> bool" and step :: "'s \<Rightarrow> 's \<Rightarrow> bool" and inv :: "'s \<Rightarrow> bool"
  assumes inv_initial: "initial s \<Longrightarrow> inv s"
    and inv_step: "step s t \<Longrightarrow> inv s \<Longrightarrow> inv t"
begin

lemma inv_steps: "step\<^sup>*\<^sup>* s t \<Longrightarrow> inv s \<Longrightarrow> inv t"
  by (induction rule: rtranclp_induct) (auto intro: inv_step)

lemma inv_reachable: "initial s \<Longrightarrow> step\<^sup>*\<^sup>* s t \<Longrightarrow> inv t"
  by (blast intro: inv_initial inv_steps)

end

text \<open>
  A step relation that refines another through an abstraction function: under the concrete
  invariant every step is an abstract step or invisible.
\<close>

locale refinement = invariant_system initial step inv
  for initial :: "'s \<Rightarrow> bool" and step :: "'s \<Rightarrow> 's \<Rightarrow> bool" and inv :: "'s \<Rightarrow> bool" +
  fixes abs :: "'s \<Rightarrow> 'a" and abs_initial :: "'a \<Rightarrow> bool" and abs_step :: "'a \<Rightarrow> 'a \<Rightarrow> bool"
  assumes abs_initial: "initial s \<Longrightarrow> abs_initial (abs s)"
    and abs_step: "step s t \<Longrightarrow> inv s \<Longrightarrow> abs t = abs s \<or> abs_step (abs s) (abs t)"
begin

lemma refines_steps: "step\<^sup>*\<^sup>* s t \<Longrightarrow> inv s \<Longrightarrow> abs_step\<^sup>*\<^sup>* (abs s) (abs t)"
proof (induction rule: rtranclp_induct)
  case (step t u)
  then have "inv t" using inv_steps by blast
  with step abs_step [of t u] show ?case by (auto intro: rtranclp.rtrancl_into_rtrancl)
qed simp

lemma refines: "initial s \<Longrightarrow> step\<^sup>*\<^sup>* s t \<Longrightarrow> abs_initial (abs s) \<and> abs_step\<^sup>*\<^sup>* (abs s) (abs t)"
  using abs_initial inv_initial refines_steps by blast

end

interpretation decimal: codec show_u64 parse_u64
proof
  fix x :: u64
  let ?s = "show_base 10 (unat x)"
  have d: "c \<noteq> CHR ''+'' \<and> c \<noteq> CHR ''-''" if c: "c \<in> set ?s" for c
  proof -
    from show_base_digits [OF _ c] obtain d where "d < 10" "c = digit_char d" by auto
    then have "code c = 48 + d" by (simp add: code_digit_char)
    with \<open>d < 10\<close> show ?thesis by auto
  qed
  have "digits_acc 10 0 ?s = Some (unat x)"
    using unsigned_less [of x] by (intro digits_acc_show_base) auto
  with d show "parse_u64 (show_u64 x) = Some x"
    by (cases ?s) (auto simp: parse_u64_def show_u64_def from_str_radix_def)
qed

end
