(* ===== verification/Evaluation.thy ===== *)
theory Evaluation
  imports Prelude
begin

text \<open>
  Code equations with which the kernel evaluates \<open>Prelude\<close> fast: a byte is looked at as a binary
  integer, where a natural number would be counted in unary. They define nothing that the model uses.
\<close>

section \<open>Bytes\<close>

definition bit_value :: "bool \<Rightarrow> int \<Rightarrow> int" where
  "bit_value b n = (if b then n else 0)"

fun icode :: "char \<Rightarrow> int" where
  "icode (Char b0 b1 b2 b3 b4 b5 b6 b7) =
     bit_value b0 1 + bit_value b1 2 + bit_value b2 4 + bit_value b3 8
     + bit_value b4 16 + bit_value b5 32 + bit_value b6 64 + bit_value b7 128"

lemma icode: "icode c = int (code c)"
  by (cases c) (simp add: of_char_Char bit_value_def of_bool_def)

definition within :: "int \<Rightarrow> int \<Rightarrow> int \<Rightarrow> bool" where
  "within a b i \<longleftrightarrow> a \<le> i \<and> i \<le> b"

lemma byte_class_eval [code]:
  "is_ascii_digit c = within 48 57 (icode c)"
  "is_ascii_lower c = within 97 122 (icode c)"
  "is_ascii_upper c = within 65 90 (icode c)"
  by (simp_all add: ascii_defs within_def icode)

lemma is_ascii_hexdigit_eval [code]:
  "is_ascii_hexdigit c \<longleftrightarrow> is_ascii_digit c \<or> within 97 102 (icode c) \<or> within 65 70 (icode c)"
  by (simp add: ascii_defs within_def icode)

lemma is_ascii_whitespace_eval [code]:
  "is_ascii_whitespace c \<longleftrightarrow> c \<in> set [CHR '' '', CHR 0x09, CHR 0x0A, CHR 0x0C, CHR 0x0D]"
proof -
  have "c = d \<longleftrightarrow> code c = code d" for d by simp
  from this [of "CHR '' ''"] this [of "CHR 0x09"] this [of "CHR 0x0A"] this [of "CHR 0x0C"] this [of "CHR 0x0D"]
  show ?thesis by (auto simp: is_ascii_whitespace_def)
qed

fun set_bit5 :: "char \<Rightarrow> char" where
  "set_bit5 (Char b0 b1 b2 b3 b4 b5 b6 b7) = Char b0 b1 b2 b3 b4 True b6 b7"

lemma to_ascii_lowercase_eval [code]:
  "to_ascii_lowercase c = (if is_ascii_upper c then set_bit5 c else c)"
proof -
  have "code (set_bit5 c) = code c + 32" if "is_ascii_upper c"
    using that by (cases c) (auto simp: ascii_defs of_char_Char of_bool_def split: if_splits)
  then have "is_ascii_upper c \<Longrightarrow> char_of (code c + 32) = set_bit5 c" by (metis char_of_code)
  then show ?thesis by (simp add: to_ascii_lowercase_def)
qed

section \<open>Numerals\<close>

definition to_digit_int :: "int \<Rightarrow> char \<Rightarrow> int option" where
  "to_digit_int b c =
     (if is_ascii_digit c then (if icode c - 48 < b then Some (icode c - 48) else None)
      else if is_ascii_lower c then (if icode c - 87 < b then Some (icode c - 87) else None)
      else if is_ascii_upper c then (if icode c - 55 < b then Some (icode c - 55) else None)
      else None)"

lemma to_digit_int: "to_digit_int (int b) c = map_option int (to_digit b c)"
  by (auto simp: to_digit_int_def to_digit_def Let_def ascii_defs icode)

fun digits_int :: "int \<Rightarrow> int \<Rightarrow> string \<Rightarrow> int option" where
  "digits_int b a [] = Some a"
| "digits_int b a (c # cs) =
     (case to_digit_int b c of
        None \<Rightarrow> None
      | Some d \<Rightarrow> if a * b + d < 2 ^ 64 then digits_int b (a * b + d) cs else None)"

lemma digits_int: "digits_int (int b) (int a) s = map_option int (digits_acc b a s)"
proof (induction s arbitrary: a)
  case (Cons c s)
  have "int a * int b + int d < 2 ^ 64 \<longleftrightarrow> a * b + d < 2 ^ 64" for d
    by (metis of_nat_add of_nat_less_iff of_nat_mult of_nat_numeral of_nat_power)
  then show ?case using Cons [of "a * b + _"] by (auto simp: to_digit_int split: option.splits)
qed simp

lemma from_str_radix_eval [code]:
  "from_str_radix b s =
     (if s = [] \<or> s = ''+'' \<or> s = ''-'' then None
      else map_option word_of_int (digits_int (int b) 0 (case s of c # cs \<Rightarrow> if c = CHR ''+'' then cs else s)))"
proof -
  have "map_option word_of_int (digits_int (int b) 0 cs) = map_option (of_nat :: nat \<Rightarrow> u64) (digits_acc b 0 cs)" for cs
    using digits_int [of b 0 cs] by (simp add: option.map_comp comp_def)
  then show ?thesis by (simp only: from_str_radix_def)
qed

end
