(* ===== verification/Http_Types.thy ===== *)
theory Http_Types
  imports Evaluation
begin

text \<open>
  The data of the \<open>http\<close> crate the program handles: methods, status codes, versions, header
  maps, URIs, requests and responses. A header map is a multimap from lower-case names to the
  list of values in insertion order, written as a function; a URI is its parts.

  The crate's parsers and validators are not part of the repository. They are the fields of
  \<open>http_api\<close>, an argument of every definition that calls them; what a property needs of them
  is a named hypothesis of that property.
\<close>

type_synonym Method = string
type_synonym StatusCode = nat
type_synonym HeaderName = string
type_synonym HeaderValue = bytes
type_synonym HeaderMap = "HeaderName \<Rightarrow> HeaderValue list"

datatype Version = HTTP_10 | HTTP_11 | HTTP_2

abbreviation (input) "GET \<equiv> ''GET''"
abbreviation (input) "HEAD \<equiv> ''HEAD''"
abbreviation (input) "POST \<equiv> ''POST''"
abbreviation (input) "CONNECT \<equiv> ''CONNECT''"

abbreviation (input) "OK_200 \<equiv> (200 :: nat)"
abbreviation (input) "SWITCHING_PROTOCOLS \<equiv> (101 :: nat)"
abbreviation (input) "NO_CONTENT \<equiv> (204 :: nat)"
abbreviation (input) "PARTIAL_CONTENT \<equiv> (206 :: nat)"
abbreviation (input) "BAD_REQUEST \<equiv> (400 :: nat)"
abbreviation (input) "REQUEST_TIMEOUT \<equiv> (408 :: nat)"
abbreviation (input) "PAYLOAD_TOO_LARGE \<equiv> (413 :: nat)"
abbreviation (input) "BAD_GATEWAY \<equiv> (502 :: nat)"
abbreviation (input) "SERVICE_UNAVAILABLE \<equiv> (503 :: nat)"

text \<open>\<open>StatusCode::is_success\<close>.\<close>

definition is_success :: "StatusCode \<Rightarrow> bool" where
  "is_success s \<longleftrightarrow> 200 \<le> s \<and> s < 300"

section \<open>Header maps\<close>

definition empty_headers :: HeaderMap where
  "empty_headers = (\<lambda>_. [])"

definition get_all :: "HeaderMap \<Rightarrow> HeaderName \<Rightarrow> HeaderValue list" where
  "get_all h n = h n"

definition get_header :: "HeaderMap \<Rightarrow> HeaderName \<Rightarrow> HeaderValue option" where
  "get_header h n = (case h n of [] \<Rightarrow> None | v # _ \<Rightarrow> Some v)"

definition contains_key :: "HeaderMap \<Rightarrow> HeaderName \<Rightarrow> bool" where
  "contains_key h n \<longleftrightarrow> h n \<noteq> []"

definition remove_header :: "HeaderMap \<Rightarrow> HeaderName \<Rightarrow> HeaderMap" where
  "remove_header h n = h(n := [])"

definition insert_header :: "HeaderMap \<Rightarrow> HeaderName \<Rightarrow> HeaderValue \<Rightarrow> HeaderMap" where
  "insert_header h n v = h(n := [v])"

lemmas header_defs [std_defs] =
  empty_headers_def get_all_def get_header_def contains_key_def remove_header_def insert_header_def

text \<open>Removing a list of names, the loop both places of the code write.\<close>

definition remove_headers :: "HeaderName list \<Rightarrow> HeaderMap \<Rightarrow> HeaderMap" where
  "remove_headers ns h = fold (\<lambda>n h. remove_header h n) ns h"

lemma remove_headers_apply: "remove_headers ns h n = (if n \<in> set ns then [] else h n)"
  by (induction ns arbitrary: h) (auto simp: remove_headers_def remove_header_def)

section \<open>URIs\<close>

record PathAndQuery =
  pq_path :: string
  pq_query :: "string option"

record Uri =
  scheme_str :: "string option"
  authority :: "string option"
  path_and_query :: "PathAndQuery option"

text \<open>\<open>Uri::path\<close> (empty for a URI in authority form) and \<open>Uri::query\<close>.\<close>

definition uri_path :: "Uri \<Rightarrow> string" where
  "uri_path u = (case path_and_query u of None \<Rightarrow> [] | Some pq \<Rightarrow> pq_path pq)"

definition uri_query :: "Uri \<Rightarrow> string option" where
  "uri_query u = Option.bind (path_and_query u) pq_query"

section \<open>Requests and responses\<close>

text \<open>
  A body is bytes the program built itself (\<open>Full\<close>) or a stream of hyper's, named by a number,
  that the program passes on without looking into it (\<open>Incoming\<close>).
\<close>

datatype ResBody = Full bytes | Incoming nat

text \<open>\<open>protocol_ext\<close> is the \<open>hyper::ext::Protocol\<close> extension, the only one the program reads.\<close>

record Request =
  req_method :: Method
  req_uri :: Uri
  req_version :: Version
  req_headers :: HeaderMap
  protocol_ext :: "string option"
  req_body :: ResBody

record Response =
  res_status :: StatusCode
  res_headers :: HeaderMap
  res_body :: ResBody

section \<open>The crate's parsers and validators\<close>

text \<open>
  An \<open>Inl\<close> carries the text of the error. \<open>header_name\<close> is \<open>HeaderName::from_bytes\<close>,
  \<open>header_value\<close> is \<open>HeaderValue::from_str\<close> and \<open>try_from\<close>, \<open>to_str\<close> is
  \<open>HeaderValue::to_str\<close>, \<open>parse_pq\<close> is \<open>PathAndQuery::from_str\<close>, \<open>from_parts\<close> is
  \<open>Uri::from_parts\<close>, \<open>show_status\<close> is the \<open>Display\<close> of \<open>StatusCode\<close>.
\<close>

record http_api =
  header_name :: "bytes \<Rightarrow> HeaderName option"
  header_value :: "string \<Rightarrow> string + HeaderValue"
  to_str :: "HeaderValue \<Rightarrow> string + string"
  parse_pq :: "string \<Rightarrow> string + PathAndQuery"
  from_parts :: "Uri \<Rightarrow> string + Uri"
  parse_uri :: "string \<Rightarrow> string + Uri"
  show_status :: "StatusCode \<Rightarrow> string"

text \<open>Documented behaviour of these functions, as the hypotheses that properties name.\<close>

text \<open>\<open>to_str\<close> succeeds on visible ASCII and tab only, and gives back the same bytes.\<close>

definition visible_ascii :: "char \<Rightarrow> bool" where
  "visible_ascii c \<longleftrightarrow> (32 \<le> code c \<and> code c < 127) \<or> code c = 9"

lemma visible_ascii_eval [code]: "visible_ascii c \<longleftrightarrow> within 32 126 (icode c) \<or> icode c = 9"
  by (auto simp: visible_ascii_def within_def icode)

definition to_str_law :: "http_api \<Rightarrow> bool" where
  "to_str_law A \<longleftrightarrow> (\<forall>v. if list_all visible_ascii v then to_str A v = Inr v
                        else \<exists>e. to_str A v = Inl e)"

text \<open>\<open>HeaderValue::from_str\<close> accepts visible ASCII and tab and keeps the bytes.\<close>

definition header_value_law :: "http_api \<Rightarrow> bool" where
  "header_value_law A \<longleftrightarrow> (\<forall>s. list_all visible_ascii s \<longrightarrow> header_value A s = Inr s)"

text \<open>
  \<open>PathAndQuery::from_str\<close> accepts a path of RFC 3986 path characters that starts with a
  slash, alone or followed by \<open>?\<close> and a query of RFC 3986 query characters, up to the
  crate's length limit, and splits it at the first \<open>?\<close>.
\<close>

definition path_char :: "char \<Rightarrow> bool" where
  "path_char c \<longleftrightarrow> is_ascii_alphanumeric c \<or> c \<in> set ''-._~!$&()*+,;=:@%/''"

definition query_char :: "char \<Rightarrow> bool" where
  "query_char c \<longleftrightarrow> path_char c \<or> c = CHR ''?''"

definition legal_path :: "string \<Rightarrow> bool" where
  "legal_path p \<longleftrightarrow> prefix ''/'' p \<and> list_all path_char p"

definition legal_query :: "string option \<Rightarrow> bool" where
  "legal_query q \<longleftrightarrow> (case q of None \<Rightarrow> True | Some s \<Rightarrow> list_all query_char s)"

definition show_pq :: "string \<Rightarrow> string option \<Rightarrow> string" where
  "show_pq p q = (case q of None \<Rightarrow> p | Some s \<Rightarrow> p @ ''?'' @ s)"

definition max_uri_len :: nat where
  "max_uri_len = 65534"

definition parse_pq_law :: "http_api \<Rightarrow> bool" where
  "parse_pq_law A \<longleftrightarrow>
     (\<forall>p q. legal_path p \<longrightarrow> legal_query q \<longrightarrow> length (show_pq p q) \<le> max_uri_len \<longrightarrow>
        parse_pq A (show_pq p q) = Inr \<lparr>pq_path = p, pq_query = q\<rparr>)"

text \<open>\<open>Uri::from_parts\<close> accepts a scheme, an authority and a path together.\<close>

definition from_parts_law :: "http_api \<Rightarrow> bool" where
  "from_parts_law A \<longleftrightarrow>
     (\<forall>p. scheme_str p \<noteq> None \<longrightarrow> authority p \<noteq> None \<longrightarrow> path_and_query p \<noteq> None \<longrightarrow>
        from_parts A p = Inr p)"

section \<open>An instance\<close>

text \<open>
  A concrete \<open>http_api\<close> on which every hypothesis above holds, used by the witnesses: names
  are RFC 9110 tokens in lower case, values are visible ASCII, a path ends at the first \<open>?\<close>.
\<close>

definition token_char :: "char \<Rightarrow> bool" where
  "token_char c \<longleftrightarrow> is_ascii_alphanumeric c \<or> c \<in> set ''!#$%&*+-.^_`|~'' \<or> code c = 39"

lemma token_char_eval [code]:
  "token_char c \<longleftrightarrow> is_ascii_alphanumeric c \<or> c \<in> set ''!#$%&*+-.^_`|~'' \<or> icode c = 39"
  by (auto simp: token_char_def icode)

definition rfc_header_name :: "bytes \<Rightarrow> HeaderName option" where
  "rfc_header_name b =
     (if b \<noteq> [] \<and> list_all token_char b then Some (map to_ascii_lowercase b) else None)"

definition rfc_value :: "string \<Rightarrow> string + HeaderValue" where
  "rfc_value s = (if list_all visible_ascii s then Inr s else Inl ''failed to parse header value'')"

definition rfc_parse_pq :: "string \<Rightarrow> string + PathAndQuery" where
  "rfc_parse_pq s =
     (if prefix ''/'' s \<and> list_all query_char s \<and> length s \<le> max_uri_len
      then (let p = takeWhile (\<lambda>c. c \<noteq> CHR ''?'') s; r = drop (length p) s
            in Inr \<lparr>pq_path = p, pq_query = (if r = [] then None else Some (tl r))\<rparr>)
      else Inl ''invalid uri character'')"

definition rfc_from_parts :: "Uri \<Rightarrow> string + Uri" where
  "rfc_from_parts p =
     (if scheme_str p \<noteq> None \<and> (authority p = None \<or> path_and_query p = None)
      then Inl ''invalid format'' else Inr p)"

definition rfc_parse_uri :: "string \<Rightarrow> string + Uri" where
  "rfc_parse_uri s =
     (case rfc_parse_pq s of
        Inl e \<Rightarrow> Inl e
      | Inr pq \<Rightarrow> Inr \<lparr>scheme_str = None, authority = None, path_and_query = Some pq\<rparr>)"

definition rfc_api :: http_api where
  "rfc_api = \<lparr>header_name = rfc_header_name, header_value = rfc_value, to_str = rfc_value,
     parse_pq = rfc_parse_pq, from_parts = rfc_from_parts, parse_uri = rfc_parse_uri,
     show_status = (\<lambda>s. show_base 10 s)\<rparr>"

lemma query_char_no_question: "path_char c \<Longrightarrow> c \<noteq> CHR ''?''"
  by (auto simp: path_char_def ascii_defs)

lemma rfc_to_str_law: "to_str_law rfc_api"
  by (simp add: to_str_law_def rfc_api_def rfc_value_def)

lemma rfc_header_value_law: "header_value_law rfc_api"
  by (simp add: header_value_law_def rfc_api_def rfc_value_def)

lemma rfc_from_parts_law: "from_parts_law rfc_api"
  by (auto simp: from_parts_law_def rfc_api_def rfc_from_parts_def)

lemma takeWhile_path: "list_all path_char p \<Longrightarrow> takeWhile (\<lambda>c. c \<noteq> CHR ''?'') (p @ r) =
    p @ takeWhile (\<lambda>c. c \<noteq> CHR ''?'') r"
  by (induction p) (auto dest: query_char_no_question)

lemma takeWhile_path_all: "list_all path_char p \<Longrightarrow> takeWhile (\<lambda>c. c \<noteq> CHR ''?'') p = p"
  using takeWhile_path [of p "[]"] by simp

lemma rfc_parse_pq_law: "parse_pq_law rfc_api"
proof -
  have "list_all query_char p" if "list_all path_char p" for p
    using that by (auto simp: list_all_iff query_char_def)
  then show ?thesis
    by (auto simp: parse_pq_law_def rfc_api_def rfc_parse_pq_def legal_path_def legal_query_def
        show_pq_def takeWhile_path_all takeWhile_path Let_def
        query_char_def prefix_append split: option.splits)
qed

lemmas rfc_laws = rfc_to_str_law rfc_header_value_law rfc_from_parts_law rfc_parse_pq_law

end
