(* ===== verification/Headers.thy ===== *)
theory Headers
  imports Http_Types
begin

text \<open>
  \<open>src/headers.rs\<close>: removing the headers that must not cross a hop, with the contract
  (\<open>hop_filter\<close>) that the HTTP forwarding path and the WebSocket handshake rely on.
\<close>

definition HOP_BY_HOP :: "HeaderName list" where
  "HOP_BY_HOP =
     [''connection'', ''keep-alive'', ''proxy-connection'', ''proxy-authenticate'',
      ''proxy-authorization'', ''te'', ''trailer'', ''trailers'', ''transfer-encoding'',
      ''upgrade'', ''host'', ''content-length'']"

text \<open>
  The options of every \<open>Connection\<close> field that are header names, not in the fixed list, and
  present. Names are read before anything is removed.
\<close>

definition connection_options :: "http_api \<Rightarrow> HeaderMap \<Rightarrow> HeaderName list" where
  "connection_options A h =
     List.map_filter (\<lambda>name. header_name A (trim_ascii name))
       (concat (map (split CHR '','') (get_all h ''connection'')))"

definition nominated :: "http_api \<Rightarrow> HeaderMap \<Rightarrow> HeaderName list" where
  "nominated A h =
     filter (\<lambda>name. name \<notin> set HOP_BY_HOP \<and> contains_key h name) (connection_options A h)"

definition strip_hop_by_hop :: "http_api \<Rightarrow> HeaderMap \<Rightarrow> HeaderMap" where
  "strip_hop_by_hop A h = remove_headers HOP_BY_HOP (remove_headers (nominated A h) h)"

lemma strip_hop_by_hop_apply:
  "strip_hop_by_hop A h n =
     (if n \<in> set HOP_BY_HOP \<or> n \<in> set (connection_options A h) then [] else h n)"
  by (auto simp: strip_hop_by_hop_def remove_headers_apply nominated_def contains_key_def)

lemma connection_options_none [simp]:
  "get_all h ''connection'' = [] \<Longrightarrow> connection_options A h = []"
  by (simp add: connection_options_def map_filter_simps)

lemma hop_members [simp]:
  "''connection'' \<in> set HOP_BY_HOP" "''upgrade'' \<in> set HOP_BY_HOP" "''host'' \<in> set HOP_BY_HOP"
  "''transfer-encoding'' \<in> set HOP_BY_HOP" "''content-length'' \<in> set HOP_BY_HOP"
  by (simp_all add: HOP_BY_HOP_def)

section \<open>The contract of a hop filter\<close>

text \<open>
  A hop filter drops a fixed set of names and the names a map nominates, and keeps every other
  header with all its values; a map without \<open>Connection\<close> nominates nothing.
\<close>

locale hop_filter =
  fixes strip :: "HeaderMap \<Rightarrow> HeaderMap"
    and hop :: "HeaderName set"
    and nominates :: "HeaderMap \<Rightarrow> HeaderName set"
  assumes strip_hop: "n \<in> hop \<Longrightarrow> strip h n = []"
    and strip_nominated: "n \<in> nominates h \<Longrightarrow> strip h n = []"
    and strip_keeps: "n \<notin> hop \<Longrightarrow> n \<notin> nominates h \<Longrightarrow> strip h n = h n"
    and connection_hop: "''connection'' \<in> hop"
    and nominates_none: "h ''connection'' = [] \<Longrightarrow> nominates h = {}"
begin

lemma strip_nominates_nothing: "nominates (strip h) = {}"
  by (rule nominates_none) (rule strip_hop [OF connection_hop])

lemma strip_idem: "strip (strip h) = strip h"
proof
  fix n
  show "strip (strip h) n = strip h n"
    using strip_hop strip_keeps [of n "strip h"] strip_nominates_nothing by (cases "n \<in> hop") auto
qed

end

interpretation hop: hop_filter "strip_hop_by_hop A" "set HOP_BY_HOP" "\<lambda>h. set (connection_options A h)"
  by unfold_locales (auto simp: strip_hop_by_hop_apply get_all_def)

section \<open>Properties\<close>

text \<open>C27: \<open>strip_hop_by_hop\<close> removes exactly the twelve fixed hop-by-hop names and the names
  that some \<open>Connection\<close> field lists (trimmed, comma-separated, valid header names), and
  leaves every other header with all its values in order.\<close>

theorem strip_exact:
  "strip_hop_by_hop A h n =
     (if n \<in> set HOP_BY_HOP
         \<or> (\<exists>v \<in> set (get_all h ''connection''). \<exists>t \<in> set (split CHR '','' v).
              header_name A (trim_ascii t) = Some n)
      then [] else h n)"
  by (auto simp: strip_hop_by_hop_apply connection_options_def map_filter_def image_iff)

text \<open>Stripping is idempotent, and a stripped map nominates nothing further: a second hop
  that strips the forwarded headers again changes nothing.\<close>

lemma strip_idempotent:
  "strip_hop_by_hop A (strip_hop_by_hop A h) = strip_hop_by_hop A h
     \<and> connection_options A (strip_hop_by_hop A h) = []"
  using hop.strip_idem hop.strip_nominates_nothing by auto

end
