(* ===== verification/Config.thy ===== *)
theory Config
  imports Evaluation
begin

text \<open>
  \<open>src/config.rs\<close>: the beacon networks with their presets, the configuration record with the
  defaults of its command-line flags, and the resolution of genesis time and slot length.
  Durations are whole seconds, as \<open>parse_secs\<close> builds them.
\<close>

datatype Network = Mainnet | Hoodi | Sepolia | Holesky | Custom

instantiation Network :: enum
begin

definition "enum_Network = [Mainnet, Hoodi, Sepolia, Holesky, Custom]"

definition "enum_all_Network P \<longleftrightarrow> P Mainnet \<and> P Hoodi \<and> P Sepolia \<and> P Holesky \<and> P Custom"

definition "enum_ex_Network P \<longleftrightarrow> P Mainnet \<or> P Hoodi \<or> P Sepolia \<or> P Holesky \<or> P Custom"

instance
proof
  show "(UNIV :: Network set) = set enum_class.enum"
    by (auto simp: enum_Network_def intro: Network.exhaust)
  show "distinct (enum_class.enum :: Network list)"
    by (simp add: enum_Network_def)
  show "enum_class.enum_all P \<longleftrightarrow> Ball UNIV P" for P :: "Network \<Rightarrow> bool"
    by (auto simp: enum_all_Network_def) (metis Network.exhaust)
  show "enum_class.enum_ex P \<longleftrightarrow> Bex UNIV P" for P :: "Network \<Rightarrow> bool"
    by (auto simp: enum_ex_Network_def) (metis Network.exhaust)
qed

end

fun preset_genesis_time :: "Network \<Rightarrow> u64 option" where
  "preset_genesis_time Mainnet = Some 1606824023"
| "preset_genesis_time Hoodi = Some 1742213400"
| "preset_genesis_time Sepolia = Some 1655733600"
| "preset_genesis_time Holesky = Some 1695902400"
| "preset_genesis_time Custom = None"

fun preset_seconds_per_slot :: "Network \<Rightarrow> u64 option" where
  "preset_seconds_per_slot Custom = None"
| "preset_seconds_per_slot _ = Some 12"

record Config =
  listen :: "string list"
  el_http_url :: string
  el_ws_url :: string
  cl_beacon_url :: string
  cl_mev_relay_url :: "string option"
  network :: Network
  el_max_block_age_secs :: u64
  cl_max_slot_age_secs :: u64
  readyz_strict :: bool
  cfg_cl_genesis_time :: "u64 option"
  cfg_cl_seconds_per_slot :: "u64 option"
  health_timeout :: u64
  health_poll_interval :: u64
  log_level :: string
  access_log :: bool
  trust_upstream :: bool
  mock_eth_syncing :: bool
  mock_cl_subscriptions :: bool
  mock_cl_node_health :: bool
  proxy_timeout :: u64
  shutdown_grace :: u64
  otel_endpoint :: "string option"

text \<open>What the flags' \<open>default_value\<close> attributes give when no flag and no variable is set.\<close>

definition default_config :: Config where
  "default_config = \<lparr>
     listen = [''0.0.0.0:8547''],
     el_http_url = ''http://127.0.0.1:8545'',
     el_ws_url = ''ws://127.0.0.1:8546'',
     cl_beacon_url = ''http://127.0.0.1:5052'',
     cl_mev_relay_url = None,
     network = Mainnet,
     el_max_block_age_secs = 60,
     cl_max_slot_age_secs = 60,
     readyz_strict = False,
     cfg_cl_genesis_time = None,
     cfg_cl_seconds_per_slot = None,
     health_timeout = 2,
     health_poll_interval = 1,
     log_level = ''info'',
     access_log = False,
     trust_upstream = False,
     mock_eth_syncing = False,
     mock_cl_subscriptions = False,
     mock_cl_node_health = False,
     proxy_timeout = 60,
     shutdown_grace = 10,
     otel_endpoint = None\<rparr>"

definition resolve_cl_genesis_time :: "Config \<Rightarrow> string + u64" where
  "resolve_cl_genesis_time cfg =
     (case cfg_cl_genesis_time cfg of
        Some v \<Rightarrow> Inr v
      | None \<Rightarrow>
          (case preset_genesis_time (network cfg) of
             Some v \<Rightarrow> Inr v
           | None \<Rightarrow> Inl ''--network custom requires --cl-genesis-time (use 0 to disable slot-age check)''))"

definition resolve_cl_seconds_per_slot :: "Config \<Rightarrow> string + u64" where
  "resolve_cl_seconds_per_slot cfg =
     (case cfg_cl_seconds_per_slot cfg of
        Some v \<Rightarrow> Inr v
      | None \<Rightarrow>
          (case preset_seconds_per_slot (network cfg) of
             Some v \<Rightarrow> Inr v
           | None \<Rightarrow> Inl ''--network custom requires --cl-seconds-per-slot''))"

text \<open>
  \<open>parse_secs\<close>; the text of the standard library's \<open>ParseIntError\<close> is the argument
  \<open>int_err\<close>.
\<close>

definition parse_secs :: "(string \<Rightarrow> string) \<Rightarrow> string \<Rightarrow> string + u64" where
  "parse_secs int_err s =
     (case parse_u64 s of
        Some v \<Rightarrow> Inr v
      | None \<Rightarrow> Inl (''invalid seconds value: '' @ int_err s))"

lemma preset_None_iff [simp]:
  "preset_genesis_time n = None \<longleftrightarrow> n = Custom"
  "preset_seconds_per_slot n = None \<longleftrightarrow> n = Custom"
  by (cases n; simp)+

section \<open>Properties\<close>

text \<open>An explicit value always wins over the network preset; without one, both resolutions
  succeed exactly on the preset networks, so a custom network without explicit values is
  refused and nothing else is.\<close>

lemma resolve_precedence:
  "(\<forall>v. cfg_cl_genesis_time cfg = Some v \<longrightarrow> resolve_cl_genesis_time cfg = Inr v)
   \<and> (\<forall>v. cfg_cl_seconds_per_slot cfg = Some v \<longrightarrow> resolve_cl_seconds_per_slot cfg = Inr v)
   \<and> (isl (resolve_cl_genesis_time cfg) \<longleftrightarrow> network cfg = Custom \<and> cfg_cl_genesis_time cfg = None)
   \<and> (isl (resolve_cl_seconds_per_slot cfg) \<longleftrightarrow>
        network cfg = Custom \<and> cfg_cl_seconds_per_slot cfg = None)"
  by (cases "network cfg")
    (auto simp: resolve_cl_genesis_time_def resolve_cl_seconds_per_slot_def split: option.splits)

text \<open>\<open>parse_secs\<close> reads back what the decimal rendering of any 64-bit number of seconds
  prints, and a rejected text is rejected with its message.\<close>

lemma parse_secs_roundtrip:
  "parse_secs int_err (show_u64 n) = Inr n
     \<and> (parse_u64 s = None \<longleftrightarrow> parse_secs int_err s = Inl (''invalid seconds value: '' @ int_err s))"
  using decimal.dec_enc by (auto simp: parse_secs_def split: option.splits)

end
