(* ===== verification/Cli.thy ===== *)
theory Cli
  imports Config
begin

text \<open>
  The command line of \<open>src/config.rs\<close>: the \<open>arg\<close> attributes of \<open>Config\<close> as a table, field by field, and
  the construction of the record from the values found for each flag. Finding them is clap's work, not
  the repository's, so it is the parameter \<open>clap\<close>; \<open>clap_law\<close> states what its documentation promises of
  flags written \<open>--name=value\<close>: the value given on the command line, else the environment variable,
  else the default. A function that keeps this promise closes the theory and serves the witness.
\<close>

section \<open>Value parsers\<close>

text \<open>A refused value ends the program with clap's message, which nothing inspects: \<open>None\<close>.\<close>

definition read_bool :: "string \<Rightarrow> bool option" where
  "read_bool v = (if v = ''true'' then Some True else if v = ''false'' then Some False else None)"

definition network_name :: "Network \<Rightarrow> string" where
  "network_name n = (case n of Mainnet \<Rightarrow> ''mainnet'' | Hoodi \<Rightarrow> ''hoodi'' | Sepolia \<Rightarrow> ''sepolia''
     | Holesky \<Rightarrow> ''holesky'' | Custom \<Rightarrow> ''custom'')"

definition read_network :: "string \<Rightarrow> Network option" where
  "read_network v = find (\<lambda>n. network_name n = v) Enum.enum"

definition log_levels :: "string list" where
  "log_levels = [''trace'', ''debug'', ''info'', ''warn'', ''error'']"

definition read_level :: "string \<Rightarrow> string option" where
  "read_level v = (if v \<in> set log_levels then Some v else None)"

definition read_secs :: "string \<Rightarrow> u64 option" where
  "read_secs v = (case parse_secs id v of Inl _ \<Rightarrow> None | Inr n \<Rightarrow> Some n)"

section \<open>Arguments\<close>

text \<open>\<open>arg_missing\<close> is \<open>default_missing_value\<close>; \<open>arg_many\<close> a list with the comma as \<open>value_delimiter\<close>.\<close>

record Arg =
  arg_long :: string
  arg_env :: string
  arg_default :: "string option"
  arg_missing :: "string option"
  arg_many :: bool
  arg_store :: "string list \<Rightarrow> Config \<Rightarrow> Config option"

definition read_one :: "(string \<Rightarrow> 'a option) \<Rightarrow> ('a \<Rightarrow> Config \<Rightarrow> Config) \<Rightarrow> string list \<Rightarrow> Config \<Rightarrow> Config option" where
  "read_one rd assign vs c =
     (case vs of [v] \<Rightarrow> map_option (\<lambda>x. assign x c) (rd v) | _ \<Rightarrow> None)"

definition read_optional :: "(string \<Rightarrow> 'a option) \<Rightarrow> ('a option \<Rightarrow> Config \<Rightarrow> Config) \<Rightarrow> string list \<Rightarrow> Config \<Rightarrow> Config option"
where
  "read_optional rd assign vs c =
     (case vs of [] \<Rightarrow> Some (assign None c) | _ \<Rightarrow> read_one rd (\<lambda>x. assign (Some x)) vs c)"

definition value_arg :: "string \<Rightarrow> string \<Rightarrow> string option \<Rightarrow> (string list \<Rightarrow> Config \<Rightarrow> Config option) \<Rightarrow> Arg" where
  "value_arg long var dflt store = \<lparr>arg_long = long, arg_env = var, arg_default = dflt, arg_missing = None,
     arg_many = False, arg_store = store\<rparr>"

definition bool_arg :: "string \<Rightarrow> string \<Rightarrow> (bool \<Rightarrow> Config \<Rightarrow> Config) \<Rightarrow> Arg" where
  "bool_arg long var assign = \<lparr>arg_long = long, arg_env = var, arg_default = Some ''false'',
     arg_missing = Some ''true'', arg_many = False, arg_store = read_one read_bool assign\<rparr>"

definition config_args :: "Arg list" where
  "config_args =
    [\<lparr>arg_long = ''listen'', arg_env = ''ETHRYX_LISTEN'', arg_default = Some ''0.0.0.0:8547'',
      arg_missing = None, arg_many = True, arg_store = (\<lambda>vs c. Some (c\<lparr>listen := vs\<rparr>))\<rparr>,
     value_arg ''el-http-url'' ''ETHRYX_EL_HTTP_URL'' (Some ''http://127.0.0.1:8545'')
       (read_one Some (\<lambda>v c. c\<lparr>el_http_url := v\<rparr>)),
     value_arg ''el-ws-url'' ''ETHRYX_EL_WS_URL'' (Some ''ws://127.0.0.1:8546'')
       (read_one Some (\<lambda>v c. c\<lparr>el_ws_url := v\<rparr>)),
     value_arg ''cl-beacon-url'' ''ETHRYX_CL_BEACON_URL'' (Some ''http://127.0.0.1:5052'')
       (read_one Some (\<lambda>v c. c\<lparr>cl_beacon_url := v\<rparr>)),
     value_arg ''cl-mev-relay-url'' ''ETHRYX_CL_MEV_RELAY_URL'' None
       (read_optional Some (\<lambda>v c. c\<lparr>cl_mev_relay_url := v\<rparr>)),
     value_arg ''network'' ''ETHRYX_NETWORK'' (Some ''mainnet'') (read_one read_network (\<lambda>v c. c\<lparr>network := v\<rparr>)),
     value_arg ''el-max-block-age-secs'' ''ETHRYX_EL_MAX_BLOCK_AGE_SECS'' (Some ''60'')
       (read_one parse_u64 (\<lambda>v c. c\<lparr>el_max_block_age_secs := v\<rparr>)),
     value_arg ''cl-max-slot-age-secs'' ''ETHRYX_CL_MAX_SLOT_AGE_SECS'' (Some ''60'')
       (read_one parse_u64 (\<lambda>v c. c\<lparr>cl_max_slot_age_secs := v\<rparr>)),
     bool_arg ''readyz-strict'' ''ETHRYX_READYZ_STRICT'' (\<lambda>v c. c\<lparr>readyz_strict := v\<rparr>),
     value_arg ''cl-genesis-time'' ''ETHRYX_CL_GENESIS_TIME'' None
       (read_optional parse_u64 (\<lambda>v c. c\<lparr>cfg_cl_genesis_time := v\<rparr>)),
     value_arg ''cl-seconds-per-slot'' ''ETHRYX_CL_SECONDS_PER_SLOT'' None
       (read_optional parse_u64 (\<lambda>v c. c\<lparr>cfg_cl_seconds_per_slot := v\<rparr>)),
     value_arg ''health-timeout'' ''ETHRYX_HEALTH_TIMEOUT'' (Some ''2'')
       (read_one read_secs (\<lambda>v c. c\<lparr>health_timeout := v\<rparr>)),
     value_arg ''health-poll-interval'' ''ETHRYX_HEALTH_POLL_INTERVAL'' (Some ''1'')
       (read_one read_secs (\<lambda>v c. c\<lparr>health_poll_interval := v\<rparr>)),
     value_arg ''log-level'' ''ETHRYX_LOG_LEVEL'' (Some ''info'') (read_one read_level (\<lambda>v c. c\<lparr>log_level := v\<rparr>)),
     bool_arg ''access-log'' ''ETHRYX_ACCESS_LOG'' (\<lambda>v c. c\<lparr>access_log := v\<rparr>),
     bool_arg ''trust-upstream'' ''ETHRYX_TRUST_UPSTREAM'' (\<lambda>v c. c\<lparr>trust_upstream := v\<rparr>),
     bool_arg ''mock-eth-syncing'' ''ETHRYX_MOCK_ETH_SYNCING'' (\<lambda>v c. c\<lparr>mock_eth_syncing := v\<rparr>),
     bool_arg ''mock-cl-subscriptions'' ''ETHRYX_MOCK_CL_SUBSCRIPTIONS'' (\<lambda>v c. c\<lparr>mock_cl_subscriptions := v\<rparr>),
     bool_arg ''mock-cl-node-health'' ''ETHRYX_MOCK_CL_NODE_HEALTH'' (\<lambda>v c. c\<lparr>mock_cl_node_health := v\<rparr>),
     value_arg ''proxy-timeout'' ''ETHRYX_PROXY_TIMEOUT'' (Some ''60'')
       (read_one read_secs (\<lambda>v c. c\<lparr>proxy_timeout := v\<rparr>)),
     value_arg ''shutdown-grace'' ''ETHRYX_SHUTDOWN_GRACE'' (Some ''10'')
       (read_one read_secs (\<lambda>v c. c\<lparr>shutdown_grace := v\<rparr>)),
     value_arg ''otel-endpoint'' ''ETHRYX_OTEL_ENDPOINT'' None
       (read_optional Some (\<lambda>v c. c\<lparr>otel_endpoint := v\<rparr>))]"

section \<open>Parsing\<close>

text \<open>The flags with their values, in the order they are written.\<close>

type_synonym flags = "(string \<times> string) list"

type_synonym clap = "Arg list \<Rightarrow> (string \<rightharpoonup> string) \<Rightarrow> string list \<Rightarrow> (string \<Rightarrow> string list) option"

definition delimit :: "Arg \<Rightarrow> string \<Rightarrow> string list" where
  "delimit a v = (if arg_many a then split CHR '','' v else [v])"

definition written_flags :: "flags \<Rightarrow> string list" where
  "written_flags fs = map (\<lambda>(n, v). ''--'' @ n @ ''='' @ v) fs"

definition values_of :: "(string \<rightharpoonup> string) \<Rightarrow> (string \<rightharpoonup> string) \<Rightarrow> Arg \<Rightarrow> string list" where
  "values_of env given a =
     (case given (arg_long a) of
        Some v \<Rightarrow> delimit a v
      | None \<Rightarrow>
          (case env (arg_env a) of
             Some v \<Rightarrow> delimit a v
           | None \<Rightarrow> (case arg_default a of Some d \<Rightarrow> delimit a d | None \<Rightarrow> [])))"

definition clap_law :: "clap \<Rightarrow> bool" where
  "clap_law clap \<longleftrightarrow>
     (\<forall>args env fs. distinct (map arg_long args) \<and> (\<forall>a \<in> set args. CHR ''='' \<notin> set (arg_long a))
        \<and> distinct (map fst fs) \<and> fst ` set fs \<subseteq> arg_long ` set args \<longrightarrow>
      (\<exists>found. clap args env (written_flags fs) = Some found
         \<and> (\<forall>a \<in> set args. found (arg_long a) = values_of env (map_of fs) a)))"

fun store_all :: "(string \<Rightarrow> string list) \<Rightarrow> Arg list \<Rightarrow> Config \<Rightarrow> Config option" where
  "store_all found [] c = Some c"
| "store_all found (a # as) c = Option.bind (arg_store a (found (arg_long a)) c) (store_all found as)"

text \<open>The fields are all assigned; \<open>blank_config\<close> is what they are assigned to.\<close>

definition blank_config :: Config where
  "blank_config = \<lparr>listen = [], el_http_url = [], el_ws_url = [], cl_beacon_url = [], cl_mev_relay_url = None,
     network = Custom, el_max_block_age_secs = 0, cl_max_slot_age_secs = 0, readyz_strict = False,
     cfg_cl_genesis_time = None, cfg_cl_seconds_per_slot = None, health_timeout = 0, health_poll_interval = 0,
     log_level = [], access_log = False, trust_upstream = False, mock_eth_syncing = False,
     mock_cl_subscriptions = False, mock_cl_node_health = False, proxy_timeout = 0, shutdown_grace = 0,
     otel_endpoint = None\<rparr>"

definition parse_config :: "clap \<Rightarrow> (string \<rightharpoonup> string) \<Rightarrow> string list \<Rightarrow> Config option" where
  "parse_config clap env argv =
     Option.bind (clap config_args env argv) (\<lambda>found. store_all found config_args blank_config)"



section \<open>Defaults\<close>

lemma default_numbers:
  "parse_u64 ''60'' = Some 60" "parse_u64 ''2'' = Some 2" "parse_u64 ''1'' = Some 1" "parse_u64 ''10'' = Some 10"
  by (simp_all add: parse_u64_def from_str_radix_def to_digit_def ascii_defs Let_def)

lemma default_texts:
  "read_network ''mainnet'' = Some Mainnet" "read_bool ''false'' = Some False" "read_level ''info'' = Some ''info''"
  "split CHR '','' ''0.0.0.0:8547'' = [''0.0.0.0:8547'']"
  by code_simp+

lemmas arg_defs = read_one_def read_optional_def value_arg_def bool_arg_def read_secs_def parse_secs_def delimit_def

lemma config_args_names:
  "distinct (map arg_long config_args)" "\<forall>a \<in> set config_args. CHR ''='' \<notin> set (arg_long a)"
  by (simp_all add: config_args_def value_arg_def bool_arg_def)

lemma clap_config:
  assumes "clap_law clap" and "distinct (map fst fs)" and "fst ` set fs \<subseteq> arg_long ` set config_args"
  obtains found where "clap config_args env (written_flags fs) = Some found"
    and "\<forall>a \<in> set config_args. found (arg_long a) = values_of env (map_of fs) a"
  using assms config_args_names unfolding clap_law_def by blast

text \<open>\<open>default_config\<close> is what the attributes give with no flag and no variable.\<close>

lemma defaults_parsed: "clap_law clap \<Longrightarrow> parse_config clap Map.empty [] = Some default_config"
proof -
  assume "clap_law clap"
  then obtain found where found: "clap config_args Map.empty (written_flags []) = Some found"
    and "\<forall>a \<in> set config_args. found (arg_long a) = values_of Map.empty (map_of []) a"
    using clap_config [of clap "[]" Map.empty] by auto
  from this(2) have "store_all found config_args blank_config = Some default_config"
    by (simp add: config_args_def arg_defs values_of_def default_numbers default_texts
        blank_config_def default_config_def)
  with found show ?thesis by (simp add: parse_config_def written_flags_def)
qed

section \<open>Writing a command line\<close>

definition show_bool :: "bool \<Rightarrow> string" where
  "show_bool b = (if b then ''true'' else ''false'')"

definition shown_fields :: "Config \<Rightarrow> (string \<times> string option) list" where
  "shown_fields c =
    [(''listen'', Some (join '','' (listen c))), (''el-http-url'', Some (el_http_url c)),
     (''el-ws-url'', Some (el_ws_url c)), (''cl-beacon-url'', Some (cl_beacon_url c)),
     (''cl-mev-relay-url'', cl_mev_relay_url c), (''network'', Some (network_name (network c))),
     (''el-max-block-age-secs'', Some (show_u64 (el_max_block_age_secs c))),
     (''cl-max-slot-age-secs'', Some (show_u64 (cl_max_slot_age_secs c))),
     (''readyz-strict'', Some (show_bool (readyz_strict c))),
     (''cl-genesis-time'', map_option show_u64 (cfg_cl_genesis_time c)),
     (''cl-seconds-per-slot'', map_option show_u64 (cfg_cl_seconds_per_slot c)),
     (''health-timeout'', Some (show_u64 (health_timeout c))),
     (''health-poll-interval'', Some (show_u64 (health_poll_interval c))),
     (''log-level'', Some (log_level c)), (''access-log'', Some (show_bool (access_log c))),
     (''trust-upstream'', Some (show_bool (trust_upstream c))),
     (''mock-eth-syncing'', Some (show_bool (mock_eth_syncing c))),
     (''mock-cl-subscriptions'', Some (show_bool (mock_cl_subscriptions c))),
     (''mock-cl-node-health'', Some (show_bool (mock_cl_node_health c))),
     (''proxy-timeout'', Some (show_u64 (proxy_timeout c))),
     (''shutdown-grace'', Some (show_u64 (shutdown_grace c))), (''otel-endpoint'', otel_endpoint c)]"

fun present_flags :: "(string \<times> string option) list \<Rightarrow> flags" where
  "present_flags [] = []"
| "present_flags ((n, None) # fs) = present_flags fs"
| "present_flags ((n, Some v) # fs) = (n, v) # present_flags fs"

definition flags_of :: "Config \<Rightarrow> flags" where
  "flags_of c = present_flags (shown_fields c)"

lemma present_names: "fst ` set (present_flags fs) \<subseteq> fst ` set fs"
  by (induction fs rule: present_flags.induct) auto

lemma present_distinct: "distinct (map fst fs) \<Longrightarrow> distinct (map fst (present_flags fs))"
  using present_names by (induction fs rule: present_flags.induct) force+

lemma map_of_present: "distinct (map fst fs) \<Longrightarrow>
    map_of (present_flags fs) n = (case map_of fs n of Some ov \<Rightarrow> ov | None \<Rightarrow> None)"
  by (induction fs rule: present_flags.induct) (auto simp: map_of_eq_None_iff split: option.split dest!: map_of_SomeD, force)

lemma shown_names: "map fst (shown_fields c) = map arg_long config_args"
  by (simp add: shown_fields_def config_args_def value_arg_def bool_arg_def)

lemma flags_of_names:
  "distinct (map fst (flags_of c))" "fst ` set (flags_of c) \<subseteq> arg_long ` set config_args"
  using present_distinct [of "shown_fields c"] present_names [of "shown_fields c"] shown_names [of c]
    config_args_names(1) unfolding flags_of_def by (simp, metis list.set_map)

lemma map_of_flags: "map_of (flags_of c) n = (case map_of (shown_fields c) n of Some ov \<Rightarrow> ov | None \<Rightarrow> None)"
  unfolding flags_of_def by (rule map_of_present) (simp add: shown_names config_args_names)

lemma split_join: "ls \<noteq> [] \<Longrightarrow> \<forall>l \<in> set ls. sep \<notin> set l \<Longrightarrow> split sep (join [sep] ls) = ls"
  by (induction "[sep]" ls rule: join.induct) (auto simp: split_no_sep split_sep)

text \<open>What the value parsers make of a written field.\<close>

lemma read_shown:
  "parse_u64 (show_u64 n) = Some n" "read_bool (show_bool b) = Some b" "read_network (network_name w) = Some w"
  "read_secs (show_u64 n) = Some n"
  using decimal.dec_enc
  by (simp_all add: read_bool_def show_bool_def read_network_def network_name_def enum_Network_def
      read_secs_def parse_secs_def split: Network.split)

lemma one_shown: "rd (shw x) = Some x \<Longrightarrow> read_one rd assign [shw x] c = Some (assign x c)"
  by (simp add: read_one_def)

lemma optional_shown: "(\<And>x. rd (shw x) = Some x) \<Longrightarrow>
    read_optional rd assign (case ox of None \<Rightarrow> [] | Some v \<Rightarrow> [shw v]) c = Some (assign ox c)"
  by (cases ox) (simp_all add: read_optional_def read_one_def)

lemma optional_text:
  "read_optional Some assign (case ox of None \<Rightarrow> [] | Some v \<Rightarrow> [v]) c = Some (assign ox c)"
  by (cases ox) (simp_all add: read_optional_def read_one_def)

lemmas stores_shown = optional_text optional_shown [where shw = show_u64] one_shown [where rd = Some and shw = id, simplified]
  one_shown [where shw = show_u64] one_shown [where shw = show_bool] one_shown [where shw = network_name]

text \<open>C34: the command line carries the configurations. A configuration with at least one address to
  listen on, no comma in any of them (it separates them) and a log level of the list, written as
  flags, one \<open>--name=value\<close> per field that has a value, is parsed back as it was, whatever the
  environment says about fields with a default; the variables of fields without a default have to
  be unset, because they would be read.\<close>

theorem command_line_roundtrip:
  assumes "clap_law clap" and "listen c \<noteq> []" and "\<forall>l \<in> set (listen c). CHR '','' \<notin> set l"
    and "log_level c \<in> set log_levels" and "\<forall>a \<in> set config_args. arg_default a = None \<longrightarrow> env (arg_env a) = None"
  shows "parse_config clap env (written_flags (flags_of c)) = Some c"
proof -
  obtain found where found: "clap config_args env (written_flags (flags_of c)) = Some found"
    and v: "\<forall>a \<in> set config_args. found (arg_long a) = values_of env (map_of (flags_of c)) a"
    using clap_config [OF assms(1) flags_of_names] by blast
  have l: "split CHR '','' (join '','' (listen c)) = listen c" using assms(2,3) by (rule split_join)
  have "read_one read_level assign [log_level c] c' = Some (assign (log_level c) c')" for assign c'
    using assms(4) by (simp add: read_one_def read_level_def)
  with v assms(5) have "store_all found config_args blank_config = Some c"
    by (simp add: config_args_def value_arg_def bool_arg_def delimit_def values_of_def map_of_flags
        shown_fields_def stores_shown read_shown l blank_config_def cong: option.case_cong)
  with found show ?thesis by (simp add: parse_config_def)
qed


section \<open>A clap\<close>

text \<open>A function that keeps the law, with the other spellings clap takes: the value of a flag is attached
  with \<open>=\<close> or follows it, a flag with a \<open>default_missing_value\<close> may stand bare, a list may be given
  several times and any other flag once.\<close>

type_synonym found = "string \<rightharpoonup> string list"

definition add_value :: "Arg \<Rightarrow> string \<Rightarrow> found \<Rightarrow> found option" where
  "add_value a v m =
     (case m (arg_long a) of
        None \<Rightarrow> Some (m(arg_long a \<mapsto> delimit a v))
      | Some vs \<Rightarrow> if arg_many a then Some (m(arg_long a \<mapsto> vs @ delimit a v)) else None)"

text \<open>The name of a flag and the value attached to it with \<open>=\<close>.\<close>

definition flag_parts :: "string \<Rightarrow> (string \<times> string option) option" where
  "flag_parts t =
     (case strip_prefix ''--'' t of
        None \<Rightarrow> None
      | Some body \<Rightarrow>
          (let name = takeWhile (\<lambda>c. c \<noteq> CHR ''='') body
           in Some (name, if name = body then None else Some (drop (Suc (length name)) body))))"

fun scan :: "Arg list \<Rightarrow> string list \<Rightarrow> found \<Rightarrow> found option" where
  "scan args [] m = Some m"
| "scan args (t # ts) m =
     (case flag_parts t of
        None \<Rightarrow> None
      | Some (name, attached) \<Rightarrow>
          (case find (\<lambda>a. arg_long a = name) args of
             None \<Rightarrow> None
           | Some a \<Rightarrow>
               (case attached of
                  Some v \<Rightarrow> Option.bind (add_value a v m) (scan args ts)
                | None \<Rightarrow>
                    (case ts of
                       v # ts' \<Rightarrow>
                         if prefix ''-'' v
                         then (case arg_missing a of
                                 None \<Rightarrow> None
                               | Some d \<Rightarrow> Option.bind (add_value a d m) (scan args ts))
                         else Option.bind (add_value a v m) (scan args ts')
                     | [] \<Rightarrow> Option.bind (arg_missing a) (\<lambda>d. add_value a d m)))))"

definition reference_clap :: clap where
  "reference_clap args env argv =
     map_option (\<lambda>m n. case m n of
         Some vs \<Rightarrow> vs
       | None \<Rightarrow> (case find (\<lambda>a. arg_long a = n) args of None \<Rightarrow> [] | Some a \<Rightarrow> values_of env Map.empty a))
       (scan args argv Map.empty)"

lemma flag_parts_written: "CHR ''='' \<notin> set n \<Longrightarrow> flag_parts (''--'' @ n @ ''='' @ v) = Some (n, Some v)"
proof -
  assume "CHR ''='' \<notin> set n"
  then have "takeWhile (\<lambda>c. c \<noteq> CHR ''='') (n @ CHR ''='' # v) = n" by (induction n) auto
  then show ?thesis by (simp add: flag_parts_def)
qed

lemma find_distinct: "distinct (map f xs) \<Longrightarrow> x \<in> set xs \<Longrightarrow> find (\<lambda>y. f y = f x) xs = Some x"
  by (induction xs) (auto simp: image_iff)

lemma scan_written:
  fixes args :: "Arg list"
  assumes "distinct (map arg_long args)" "\<forall>a \<in> set args. CHR ''='' \<notin> set (arg_long a)"
  shows "\<lbrakk>distinct (map fst fs); fst ` set fs \<subseteq> arg_long ` set args; \<forall>n \<in> fst ` set fs. m n = None\<rbrakk> \<Longrightarrow>
    \<exists>m'. scan args (written_flags fs) m = Some m'
      \<and> (\<forall>a \<in> set args. m' (arg_long a) =
           (case map_of fs (arg_long a) of Some v \<Rightarrow> Some (delimit a v) | None \<Rightarrow> m (arg_long a)))"
proof (induction fs arbitrary: m)
  case Nil
  then show ?case by (simp add: written_flags_def)
next
  case (Cons f fs)
  obtain n v where f: "f = (n, v)" by fastforce
  with Cons.prems(2) obtain a where a: "a \<in> set args" "arg_long a = n" by auto
  define m1 where "m1 = m(n \<mapsto> delimit a v)"
  have "flag_parts (''--'' @ n @ ''='' @ v) = Some (n, Some v)"
    using assms(2) a by (intro flag_parts_written) auto
  then have s: "scan args (written_flags (f # fs)) m = scan args (written_flags fs) m1"
    using find_distinct [OF assms(1) a(1)] a(2) Cons.prems(3) f
    by (simp add: written_flags_def add_value_def m1_def)
  have n: "n \<notin> fst ` set fs" "map_of fs n = None" using Cons.prems(1) f by (auto simp: map_of_eq_None_iff)
  then have "\<forall>k \<in> fst ` set fs. m1 k = None" using Cons.prems(3) f by (auto simp: m1_def)
  moreover have "distinct (map fst fs)" "fst ` set fs \<subseteq> arg_long ` set args" using Cons.prems(1,2) by simp_all
  ultimately obtain m' where m': "scan args (written_flags fs) m1 = Some m'"
    "\<forall>b \<in> set args. m' (arg_long b) =
      (case map_of fs (arg_long b) of Some v \<Rightarrow> Some (delimit b v) | None \<Rightarrow> m1 (arg_long b))"
    using Cons.IH [of m1] by blast
  have "m' (arg_long b) = (case map_of (f # fs) (arg_long b) of Some v \<Rightarrow> Some (delimit b v) | None \<Rightarrow> m (arg_long b))"
    if b: "b \<in> set args" for b
  proof (cases "arg_long b = n")
    case True
    then have "b = a" using b a assms(1) by (metis (mono_tags) distinct_map inj_onD)
    moreover have "m' n = m1 n" using bspec [OF m'(2) b] n(2) True by simp
    ultimately show ?thesis using f True by (simp add: m1_def)
  next
    case False
    then show ?thesis using bspec [OF m'(2) b] f by (simp add: m1_def cong: option.case_cong)
  qed
  with s m'(1) show ?case by simp
qed

lemma reference_clap_law: "clap_law reference_clap"
  unfolding clap_law_def
proof (intro allI impI)
  fix args :: "Arg list" and env and fs :: flags
  assume l: "distinct (map arg_long args) \<and> (\<forall>a \<in> set args. CHR ''='' \<notin> set (arg_long a))
    \<and> distinct (map fst fs) \<and> fst ` set fs \<subseteq> arg_long ` set args"
  then obtain m' where m': "scan args (written_flags fs) Map.empty = Some m'"
    "\<forall>a \<in> set args. m' (arg_long a) = (case map_of fs (arg_long a) of Some v \<Rightarrow> Some (delimit a v) | None \<Rightarrow> None)"
    using scan_written [of args fs Map.empty] by auto
  with l show "\<exists>found. reference_clap args env (written_flags fs) = Some found
      \<and> (\<forall>a \<in> set args. found (arg_long a) = values_of env (map_of fs) a)"
    by (auto simp: reference_clap_def find_distinct values_of_def split: option.split)
qed

theorem command_line_roundtrip_witness:
  "parse_config reference_clap Map.empty (written_flags (flags_of default_config)) = Some default_config"
  by (rule command_line_roundtrip) (simp_all add: reference_clap_law default_config_def log_levels_def)

end
