(* ===== verification/Upstream.thy ===== *)
theory Upstream
  imports Http_Types
begin

text \<open>
  The URI part of \<open>src/proxy.rs\<close>: which paths belong to the consensus layer (\<open>is_cl_path\<close>)
  and how the URI of an upstream request is composed (\<open>upstream_uri\<close>), each with the reference
  definition it is proved equal to.
\<close>

section \<open>Consensus-layer paths\<close>

text \<open>
  The code looks at the first byte, takes the bytes up to the next slash and compares them with
  one literal chosen by their number.
\<close>

definition is_cl_path :: "string \<Rightarrow> bool" where
  "is_cl_path path =
     (case path of
        [] \<Rightarrow> False
      | b # remainder \<Rightarrow>
          if b \<noteq> CHR ''/'' then False
          else (let len = length (takeWhile (\<lambda>c. c \<noteq> CHR ''/'') remainder);
                    segment = take len remainder
                in if length segment = 3 then segment = ''eth''
                   else if length segment = 4 then segment = ''teku''
                   else if length segment = 5 then segment = ''prysm''
                   else if length segment = 6 then segment = ''nimbus''
                   else if length segment = 8 then segment = ''lodestar''
                   else if length segment = 10 then segment = ''lighthouse''
                   else False))"

text \<open>The reference: the first segment of the path is one of six names.\<close>

definition cl_segments :: "string list" where
  "cl_segments = [''eth'', ''teku'', ''prysm'', ''nimbus'', ''lodestar'', ''lighthouse'']"

lemma takeWhile_segment:
  "CHR ''/'' \<notin> set s \<Longrightarrow>
     takeWhile (\<lambda>c. c \<noteq> CHR ''/'') r = s \<longleftrightarrow> r = s \<or> prefix (s @ ''/'') r"
proof (induction s arbitrary: r)
  case Nil
  then show ?case by (cases r) auto
next
  case (Cons c s)
  then show ?case by (cases r) auto
qed

lemma segment_dispatch:
  "(if length segment = 3 then segment = ''eth''
    else if length segment = 4 then segment = ''teku''
    else if length segment = 5 then segment = ''prysm''
    else if length segment = 6 then segment = ''nimbus''
    else if length segment = 8 then segment = ''lodestar''
    else if length segment = 10 then segment = ''lighthouse''
    else False) \<longleftrightarrow> segment \<in> set cl_segments"
  by (auto simp: cl_segments_def)

lemma is_cl_path_segment:
  "is_cl_path (c # r) \<longleftrightarrow> c = CHR ''/'' \<and> takeWhile (\<lambda>c. c \<noteq> CHR ''/'') r \<in> set cl_segments"
proof -
  have "take (length (takeWhile P r)) r = takeWhile P r" for P
    by (rule takeWhile_eq_take [symmetric])
  then show ?thesis
    unfolding is_cl_path_def Let_def segment_dispatch by simp
qed

section \<open>Composing the upstream URI\<close>

definition upstream_uri :: "http_api \<Rightarrow> Uri \<Rightarrow> Uri \<Rightarrow> string option \<Rightarrow> string + Uri" where
  "upstream_uri A base inbound override_path =
     (let inbound_path = (case override_path of None \<Rightarrow> uri_path inbound | Some p \<Rightarrow> p);
          inbound_query = uri_query inbound
      in if override_path = None \<and> inbound_path = ''/'' \<and> inbound_query = None then Inr base
      else
        (let base_path = uri_path base;
             base_query = uri_query base
         in if override_path = None \<and> base_path = ''/'' \<and> base_query = None
              \<and> prefix ''/'' inbound_path
            then from_parts A (base\<lparr>path_and_query := path_and_query inbound\<rparr>)
            else
              (let path = (if override_path = None \<and> inbound_path = ''/'' then base_path
                           else if base_path = ''/'' then inbound_path
                           else trim_end_by (\<lambda>c. c = CHR ''/'') base_path @ inbound_path);
                   text = (case (base_query, inbound_query) of
                             (Some bq, Some iq) \<Rightarrow>
                               if bq \<noteq> [] \<and> iq \<noteq> [] then path @ ''?'' @ bq @ ''&'' @ iq
                               else path @ ''?'' @ bq @ iq
                           | (Some bq, None) \<Rightarrow> path @ ''?'' @ bq
                           | (None, Some iq) \<Rightarrow> path @ ''?'' @ iq
                           | (None, None) \<Rightarrow> path)
               in case parse_pq A text of
                    Inl e \<Rightarrow> Inl e
                  | Inr pq \<Rightarrow> from_parts A (base\<lparr>path_and_query := Some pq\<rparr>))))"

text \<open>
  The reference. A base path without its trailing slashes is put in front of the inbound path;
  the inbound root adds nothing; the base query comes first, joined with \<open>&\<close> when both are
  non-empty.
\<close>

definition joined_path :: "string \<Rightarrow> string \<Rightarrow> string option \<Rightarrow> string" where
  "joined_path base_path inbound_path override_path =
     (case override_path of
        Some p \<Rightarrow> if base_path = ''/'' then p else trim_end_by (\<lambda>c. c = CHR ''/'') base_path @ p
      | None \<Rightarrow> if inbound_path = ''/'' then base_path
                else if base_path = ''/'' then inbound_path
                else trim_end_by (\<lambda>c. c = CHR ''/'') base_path @ inbound_path)"

definition merged_query :: "string option \<Rightarrow> string option \<Rightarrow> string option" where
  "merged_query bq iq =
     (case bq of
        None \<Rightarrow> iq
      | Some b \<Rightarrow>
          (case iq of
             None \<Rightarrow> Some b
           | Some i \<Rightarrow> Some (if b = [] \<or> i = [] then b @ i else b @ ''&'' @ i)))"

lemma trim_end_prefix: "prefix (trim_end_by p s) s"
  using suffix_dropWhile [of p "rev s"] by (simp add: trim_end_by_def suffix_to_prefix)

lemma legal_joined:
  assumes "legal_path bp" "legal_path ip" "case ov of None \<Rightarrow> True | Some p \<Rightarrow> legal_path p"
  shows "legal_path (joined_path bp ip ov)"
proof -
  let ?t = "trim_end_by (\<lambda>c. c = CHR ''/'') bp"
  have sub: "set ?t \<subseteq> set bp"
    by (auto simp: trim_end_by_def dest: set_dropWhileD)
  have t: "legal_path (?t @ p)" if "legal_path p" for p
  proof (cases "?t = []")
    case True
    with that show ?thesis by simp
  next
    case False
    then have "prefix ?t bp" by (simp add: trim_end_prefix)
    with False assms(1) have "prefix ''/'' ?t"
      by (cases ?t) (auto simp: legal_path_def prefix_def)
    with that assms(1) sub show ?thesis
      by (auto simp: legal_path_def list_all_iff prefix_def)
  qed
  show ?thesis
    using assms t by (auto simp: joined_path_def split: option.splits)
qed

lemma legal_merged: "legal_query bq \<Longrightarrow> legal_query iq \<Longrightarrow> legal_query (merged_query bq iq)"
  by (auto simp: legal_query_def merged_query_def query_char_def path_char_def
      split: option.splits)

lemma path_is_joined:
  "(if ov = None \<and> (case ov of None \<Rightarrow> ip | Some p \<Rightarrow> p) = ''/'' then bp
    else if bp = ''/'' then (case ov of None \<Rightarrow> ip | Some p \<Rightarrow> p)
    else trim_end_by (\<lambda>c. c = CHR ''/'') bp @ (case ov of None \<Rightarrow> ip | Some p \<Rightarrow> p)) =
   joined_path bp ip ov"
  by (simp add: joined_path_def split: option.splits)

lemma text_is_shown:
  "(case (bq, iq) of
      (Some bq, Some iq) \<Rightarrow>
        if bq \<noteq> [] \<and> iq \<noteq> [] then path @ ''?'' @ bq @ ''&'' @ iq else path @ ''?'' @ bq @ iq
    | (Some bq, None) \<Rightarrow> path @ ''?'' @ bq
    | (None, Some iq) \<Rightarrow> path @ ''?'' @ iq
    | (None, None) \<Rightarrow> path) =
   show_pq path (merged_query bq iq)"
  by (auto simp: show_pq_def merged_query_def split: option.splits)

section \<open>Properties\<close>

text \<open>C26: \<open>is_cl_path\<close>, which dispatches on the length of the first path segment, accepts
  exactly the paths that are \<open>/name\<close> or start with \<open>/name/\<close> for one of the six
  consensus-layer names.\<close>

theorem is_cl_path_reference:
  "is_cl_path path \<longleftrightarrow>
     (\<exists>seg \<in> set cl_segments. path = ''/'' @ seg \<or> prefix (''/'' @ seg @ ''/'') path)"
proof -
  have no_slash: "CHR ''/'' \<notin> set seg" if "seg \<in> set cl_segments" for seg
    using that by (auto simp: cl_segments_def)
  have first: "takeWhile (\<lambda>c. c \<noteq> CHR ''/'') r \<in> set cl_segments \<longleftrightarrow>
      (\<exists>seg \<in> set cl_segments. r = seg \<or> prefix (seg @ ''/'') r)" for r
  proof -
    have "(\<exists>seg \<in> set cl_segments. r = seg \<or> prefix (seg @ ''/'') r) \<longleftrightarrow>
        (\<exists>seg \<in> set cl_segments. takeWhile (\<lambda>c. c \<noteq> CHR ''/'') r = seg)"
      by (rule bex_cong [OF refl]) (simp only: takeWhile_segment [OF no_slash])
    then show ?thesis by (simp only: bex_simps) blast
  qed
  show ?thesis
  proof (cases path)
    case Nil
    then show ?thesis by (simp add: is_cl_path_def)
  next
    case (Cons c r)
    show ?thesis
      unfolding Cons is_cl_path_segment first by auto
  qed
qed

text \<open>C25: for a base with scheme, authority and a legal path and query, and a legal inbound path
  and query, the upstream URI exists, keeps the scheme and authority of the base, has the
  joined path, and carries the base query first and the inbound query after it: a query
  configured on the base (an API key) is never dropped or corrupted.\<close>

theorem upstream_uri_composes:
  assumes laws: "parse_pq_law A" "from_parts_law A"
    and base: "scheme_str base = Some s" "authority base = Some a"
      "path_and_query base = Some \<lparr>pq_path = bp, pq_query = bq\<rparr>"
    and inbound: "path_and_query inbound = Some \<lparr>pq_path = ip, pq_query = iq\<rparr>"
    and legal: "legal_path bp" "legal_query bq" "legal_path ip" "legal_query iq"
      "case ov of None \<Rightarrow> True | Some p \<Rightarrow> legal_path p"
    and len: "length (show_pq (joined_path bp ip ov) (merged_query bq iq)) \<le> max_uri_len"
  shows "upstream_uri A base inbound ov =
     Inr (base\<lparr>path_and_query :=
       Some \<lparr>pq_path = joined_path bp ip ov, pq_query = merged_query bq iq\<rparr>\<rparr>)"
proof -
  let ?pq = "\<lparr>pq_path = joined_path bp ip ov, pq_query = merged_query bq iq\<rparr>"
  have parse: "parse_pq A (show_pq (joined_path bp ip ov) (merged_query bq iq)) = Inr ?pq"
    using laws(1) legal_joined [OF legal(1,3,5)] legal_merged [OF legal(2,4)] len
    by (simp add: parse_pq_law_def)
  have parts: "from_parts A (base\<lparr>path_and_query := Some pq\<rparr>) = Inr (base\<lparr>path_and_query := Some pq\<rparr>)"
    for pq
    using laws(2) base by (simp add: from_parts_law_def)
  have same: "base\<lparr>path_and_query := Some \<lparr>pq_path = bp, pq_query = bq\<rparr>\<rparr> = base"
    by (cases base) (use base(3) in simp)
  have paths: "uri_path base = bp" "uri_query base = bq" "uri_path inbound = ip" "uri_query inbound = iq"
    using base(3) inbound by (simp_all add: uri_path_def uri_query_def)
  have slash: "prefix ''/'' ip" using legal(3) by (simp add: legal_path_def)
  show ?thesis
  proof (cases "ov = None \<and> ip = ''/'' \<and> iq = None \<or> ov = None \<and> bp = ''/'' \<and> bq = None")
    case True
    with paths parts inbound same slash show ?thesis
      by (cases bq) (auto simp: upstream_uri_def Let_def joined_path_def merged_query_def)
  next
    case False
    then show ?thesis
      unfolding upstream_uri_def Let_def paths path_is_joined text_is_shown parse
      by (auto simp: parts)
  qed
qed

definition sample_base :: Uri where
  "sample_base = \<lparr>scheme_str = Some ''http'', authority = Some ''127.0.0.1:8545'',
     path_and_query = Some \<lparr>pq_path = ''/rpc/'', pq_query = Some ''api_key=secret''\<rparr>\<rparr>"

definition sample_inbound :: Uri where
  "sample_inbound = \<lparr>scheme_str = None, authority = None,
     path_and_query = Some \<lparr>pq_path = ''/extra'', pq_query = Some ''tag=1''\<rparr>\<rparr>"

theorem upstream_uri_composes_witness:
  "upstream_uri rfc_api sample_base sample_inbound None =
     Inr (sample_base\<lparr>path_and_query :=
       Some \<lparr>pq_path = ''/rpc/extra'', pq_query = Some ''api_key=secret&tag=1''\<rparr>\<rparr>)"
proof -
  have "joined_path ''/rpc/'' ''/extra'' None = ''/rpc/extra''" by code_simp
  moreover have "merged_query (Some ''api_key=secret'') (Some ''tag=1'') = Some ''api_key=secret&tag=1''"
    by code_simp
  moreover have "legal_path ''/rpc/''" "legal_path ''/extra''" "legal_query (Some ''api_key=secret'')"
    "legal_query (Some ''tag=1'')"
    by code_simp+
  ultimately show ?thesis
    using upstream_uri_composes [OF rfc_parse_pq_law rfc_from_parts_law,
        of sample_base "''http''" "''127.0.0.1:8545''" "''/rpc/''" "Some ''api_key=secret''"
           sample_inbound "''/extra''" "Some ''tag=1''" None]
    by (simp add: sample_base_def sample_inbound_def show_pq_def max_uri_len_def)
qed

end
