(* ===== verification/Json.thy ===== *)
theory Json
  imports Evaluation
begin

text \<open>
  What the program uses of serde and serde_json. The parser itself is not part of the
  repository: it is the field \<open>from_slice\<close> of \<open>json_api\<close>, an argument of every definition that
  parses. Its result is the tree of the document, in which every node also has the text it was
  read from (serde's \<open>RawValue\<close>).

  The struct declarations of the program are translated with the documented meaning of their
  derive attributes: an object's keys are read as strings, a known field must not occur twice,
  unknown fields are skipped.
\<close>

text \<open>
  A string node holds the decoded string, \<open>None\<close> when the bytes decode to no string (a lone
  surrogate, invalid UTF-8), which serde_json only reports when the string is read. A number
  holds its value when serde_json reads it as an integer, \<open>None\<close> for a float. The raw text of a
  node is \<open>None\<close> when it is not UTF-8.
\<close>

datatype json =
    JNull
  | JBool bool
  | JNum "int option"
  | JStr "string option"
  | JArr "node list"
  | JObj "(string option \<times> node) list"
and node = Node (raw: "string option") (val: json)

text \<open>
  \<open>from_slice\<close> parses a whole document; \<open>None\<close> when the text is not one JSON value surrounded
  by whitespace. \<open>de_error t b\<close> is the message with which serde_json refuses the text \<open>b\<close> for
  the target type \<open>t\<close>. \<open>to_vec\<close>'s output is not inspected by the program.
\<close>

record json_api =
  from_slice :: "bytes \<Rightarrow> node option"
  de_error :: "string \<Rightarrow> bytes \<Rightarrow> string"

section \<open>Deriving a struct from an object\<close>

fun take_fields :: "string list \<Rightarrow> (string option \<times> node) list \<Rightarrow> (string \<rightharpoonup> node) \<Rightarrow> (string \<rightharpoonup> node) option"
where
  "take_fields known [] m = Some m"
| "take_fields known ((k, v) # rest) m =
     (case k of
        None \<Rightarrow> None
      | Some key \<Rightarrow>
          if key \<notin> set known then take_fields known rest m
          else if m key \<noteq> None then None
          else take_fields known rest (m(key \<mapsto> v)))"

definition fields_of :: "string list \<Rightarrow> (string option \<times> node) list \<Rightarrow> (string \<rightharpoonup> node) option" where
  "fields_of known kvs = take_fields known kvs Map.empty"

text \<open>The declarative reading: all keys decode, no known key occurs twice, and a known field
  is the value at its key.\<close>

definition known_keys :: "string list \<Rightarrow> (string option \<times> node) list \<Rightarrow> string list" where
  "known_keys known kvs = filter (\<lambda>k. k \<in> set known) (map (the \<circ> fst) kvs)"

definition fields_ok :: "string list \<Rightarrow> (string option \<times> node) list \<Rightarrow> bool" where
  "fields_ok known kvs \<longleftrightarrow> (\<forall>kv \<in> set kvs. fst kv \<noteq> None) \<and> distinct (known_keys known kvs)"

definition field_at :: "string list \<Rightarrow> (string option \<times> node) list \<Rightarrow> string \<rightharpoonup> node" where
  "field_at known kvs k = (if k \<in> set known then map_of kvs (Some k) else None)"

lemma take_fields_Some_iff:
  "take_fields known kvs m = Some m' \<longleftrightarrow>
     fields_ok known kvs \<and> (\<forall>k \<in> set (known_keys known kvs). m k = None)
     \<and> m' = m ++ field_at known kvs"
proof (induction kvs arbitrary: m)
  case Nil
  show ?case
    by (auto simp: fields_ok_def known_keys_def field_at_def map_add_def split: option.splits)
next
  case (Cons kv kvs)
  obtain ok v where kv: "kv = (ok, v)" by (cases kv)
  show ?case
  proof (cases ok)
    case None
    with kv show ?thesis by (simp add: fields_ok_def)
  next
    case (Some k)
    show ?thesis
    proof (cases "k \<in> set known")
      case False
      then have "field_at known ((Some k, v) # kvs) = field_at known kvs"
        by (auto simp: field_at_def)
      with False kv Some Cons.IH show ?thesis
        by (auto simp: fields_ok_def known_keys_def)
    next
      case True
      have "m ++ field_at known ((Some k, v) # kvs) = m(k \<mapsto> v) ++ field_at known kvs"
        if "k \<notin> set (known_keys known kvs)" "\<forall>kv \<in> set kvs. fst kv \<noteq> None"
      proof -
        from that True have "map_of kvs (Some k) = None"
          by (force simp: known_keys_def map_of_eq_None_iff)
        with True show ?thesis
          by (auto simp: fun_eq_iff map_add_def field_at_def split: option.splits)
      qed
      with True kv Some Cons.IH show ?thesis
        by (auto simp: fields_ok_def known_keys_def split: if_splits)
    qed
  qed
qed

lemma fields_of_iff:
  "fields_of known kvs = Some m \<longleftrightarrow> fields_ok known kvs \<and> m = field_at known kvs"
  by (auto simp: fields_of_def take_fields_Some_iff)

lemma fields_of_None_iff: "fields_of known kvs = None \<longleftrightarrow> \<not> fields_ok known kvs"
  using fields_of_iff by (metis not_None_eq)

section \<open>Documented behaviour of the parser\<close>

text \<open>The decoded strings among the values of a document, keys left aside.\<close>

primrec json_strings :: "json \<Rightarrow> string set" and node_strings :: "node \<Rightarrow> string set" where
  "json_strings JNull = {}"
| "json_strings (JBool b) = {}"
| "json_strings (JNum i) = {}"
| "json_strings (JStr s) = set_option s"
| "json_strings (JArr ns) = \<Union> (set (map node_strings ns))"
| "json_strings (JObj kvs) = \<Union> (set (map snd (map (map_prod id node_strings) kvs)))"
| "node_strings (Node r v) = json_strings v"

text \<open>
  A JSON string without an escape stands for itself: a decoded string value occurs literally in
  the document, unless the document contains a backslash.
\<close>

definition literal_law :: "json_api \<Rightarrow> bool" where
  "literal_law J \<longleftrightarrow>
     (\<forall>b n s. from_slice J b = Some n \<longrightarrow> s \<in> node_strings n \<longrightarrow>
        contains_str b s \<or> CHR 0x5C \<in> set b)"

lemma node_strings_val: "node_strings n = json_strings (val n)"
  by (cases n) simp

lemma json_strings_field:
  "(k, v) \<in> set kvs \<Longrightarrow> s \<in> node_strings v \<Longrightarrow> s \<in> json_strings (JObj kvs)"
  by (auto intro!: bexI [of _ "(k, v)"])

lemma json_strings_elem: "n \<in> set ns \<Longrightarrow> s \<in> node_strings n \<Longrightarrow> s \<in> json_strings (JArr ns)"
  by auto

section \<open>UTF-8\<close>

text \<open>\<open>std::str::from_utf8\<close>: well-formed byte sequences (Unicode, table 3-7).\<close>

definition cont :: "nat \<Rightarrow> bool" where
  "cont b \<longleftrightarrow> 128 \<le> b \<and> b \<le> 191"

fun utf8_ok :: "nat list \<Rightarrow> bool" where
  "utf8_ok [] = True"
| "utf8_ok (a # bs) =
     (if a < 128 then utf8_ok bs
      else if 194 \<le> a \<and> a \<le> 223 then
        (case bs of b # r \<Rightarrow> cont b \<and> utf8_ok r | _ \<Rightarrow> False)
      else if 224 \<le> a \<and> a \<le> 239 then
        (case bs of b # c # r \<Rightarrow>
             cont b \<and> (a = 224 \<longrightarrow> 160 \<le> b) \<and> (a = 237 \<longrightarrow> b \<le> 159) \<and> cont c \<and> utf8_ok r
         | _ \<Rightarrow> False)
      else if 240 \<le> a \<and> a \<le> 244 then
        (case bs of b # c # d # r \<Rightarrow>
             cont b \<and> (a = 240 \<longrightarrow> 144 \<le> b) \<and> (a = 244 \<longrightarrow> b \<le> 143) \<and> cont c \<and> cont d \<and> utf8_ok r
         | _ \<Rightarrow> False)
      else False)"

definition is_utf8 :: "bytes \<Rightarrow> bool" where
  "is_utf8 b = utf8_ok (map code b)"

end
