(* ===== verification/Rpc.thy ===== *)
theory Rpc
  imports Json
begin

text \<open>
  \<open>src/rpc.rs\<close>: the inspection of JSON-RPC bodies shared by the HTTP and WebSocket mocks. A
  body is answered locally (\<open>Reply\<close>), swallowed (\<open>Silent\<close>, notifications only) or forwarded.
  The interface \<open>local_responder\<close> is what the WebSocket relay and the HTTP proxy rely on.
\<close>

datatype MockResult = Forward | Silent | Reply string

section \<open>One request\<close>

definition version_2 :: "node \<Rightarrow> bool" where
  "version_2 n = (case val n of JStr (Some value) \<Rightarrow> value = ''2.0'' | _ \<Rightarrow> False)"

definition eth_syncing_method :: "node \<Rightarrow> bool" where
  "eth_syncing_method n = (case val n of JStr (Some value) \<Rightarrow> value = ''eth_syncing'' | _ \<Rightarrow> False)"

definition empty_params :: "node \<Rightarrow> bool" where
  "empty_params n =
     (case raw n of
        None \<Rightarrow> False
      | Some r \<Rightarrow>
          (case Option.bind (strip_prefix ''['' (trim_ascii r)) (strip_suffix '']'') of
             None \<Rightarrow> False
           | Some inner \<Rightarrow> trim_ascii inner = []))"

text \<open>The raw text of an acceptable id: a string, a number or \<open>null\<close>.\<close>

definition id_start :: "char \<Rightarrow> bool" where
  "id_start c \<longleftrightarrow> c = CHR 0x22 \<or> c = CHR ''-'' \<or> is_ascii_digit c"

definition present_id :: "node \<Rightarrow> string option" where
  "present_id n =
     (case raw n of
        None \<Rightarrow> None
      | Some r \<Rightarrow>
          if (r \<noteq> [] \<and> id_start (hd r)) \<or> r = ''null'' then Some r else None)"

definition request_fields :: "string list" where
  "request_fields = [''jsonrpc'', ''method'', ''params'', ''id'']"

text \<open>
  \<open>Request::deserialize\<close>: \<open>None\<close> is a refusal; \<open>Some None\<close> a notification; \<open>Some (Some r)\<close> a
  call with the raw id \<open>r\<close>. Version and method are required, parameters and id have defaults.
\<close>

definition request_of :: "node \<Rightarrow> string option option" where
  "request_of n =
     (case val n of
        JObj kvs \<Rightarrow>
          (case fields_of request_fields kvs of
             None \<Rightarrow> None
           | Some m \<Rightarrow>
               (case (m ''jsonrpc'', m ''method'') of
                  (Some version, Some meth) \<Rightarrow>
                    if version_2 version \<and> eth_syncing_method meth
                       \<and> (case m ''params'' of None \<Rightarrow> True | Some p \<Rightarrow> empty_params p)
                    then (case m ''id'' of
                            None \<Rightarrow> Some None
                          | Some i \<Rightarrow> map_option Some (present_id i))
                    else None
                | _ \<Rightarrow> None))
      | _ \<Rightarrow> None)"

section \<open>Replies\<close>

definition REPLY_PREFIX :: string where
  \<open>REPLY_PREFIX = ''{"jsonrpc":"2.0","id":''\<close>

definition REPLY_SUFFIX :: string where
  \<open>REPLY_SUFFIX = '',"result":false}''\<close>

definition reply_len :: "string \<Rightarrow> nat" where
  "reply_len i = length REPLY_PREFIX + length i + length REPLY_SUFFIX"

definition append_reply :: "string \<Rightarrow> string \<Rightarrow> string" where
  "append_reply out i = out @ REPLY_PREFIX @ i @ REPLY_SUFFIX"

section \<open>Batches\<close>

text \<open>The loop of \<open>visit_seq\<close>: it stops at the first element that is not a local request.\<close>

fun batch_loop :: "node list \<Rightarrow> bool \<Rightarrow> string \<Rightarrow> MockResult option" where
  "batch_loop [] seen reply =
     Some (if \<not> seen then Forward else if reply = [] then Silent else Reply (reply @ '']''))"
| "batch_loop (n # ns) seen reply =
     (case request_of n of
        None \<Rightarrow> None
      | Some None \<Rightarrow> batch_loop ns True reply
      | Some (Some i) \<Rightarrow>
          batch_loop ns True
            (append_reply (reply @ (if reply = [] then ''['' else '','')) i))"

definition batch_of :: "node \<Rightarrow> MockResult option" where
  "batch_of n = (case val n of JArr ns \<Rightarrow> batch_loop ns False [] | _ \<Rightarrow> None)"

definition parse_mock_syncing :: "json_api \<Rightarrow> bytes \<Rightarrow> MockResult" where
  "parse_mock_syncing J b =
     (let first = find (\<lambda>c. \<not> is_ascii_whitespace c) b
      in if first = Some CHR ''['' then
           (case Option.bind (from_slice J b) batch_of of None \<Rightarrow> Forward | Some r \<Rightarrow> r)
         else
           (case Option.bind (from_slice J b) request_of of
              None \<Rightarrow> Forward
            | Some None \<Rightarrow> Silent
            | Some (Some i) \<Rightarrow> Reply (append_reply [] i)))"

definition mock_syncing :: "json_api \<Rightarrow> bytes \<Rightarrow> MockResult" where
  "mock_syncing J b =
     (if length b \<le> 256 \<and> is_utf8 b \<and> \<not> contains_str b ''eth_syncing'' \<and> CHR 0x5C \<notin> set b
      then Forward
      else parse_mock_syncing J b)"

section \<open>What a local request is\<close>

text \<open>The declarative reading of \<open>request_of\<close>.\<close>

definition local_call :: "node \<Rightarrow> string option \<Rightarrow> bool" where
  "local_call n i \<longleftrightarrow>
     (\<exists>kvs version meth. val n = JObj kvs \<and> fields_ok request_fields kvs
        \<and> map_of kvs (Some ''jsonrpc'') = Some version \<and> val version = JStr (Some ''2.0'')
        \<and> map_of kvs (Some ''method'') = Some meth \<and> val meth = JStr (Some ''eth_syncing'')
        \<and> (\<forall>p. map_of kvs (Some ''params'') = Some p \<longrightarrow> empty_params p)
        \<and> (case map_of kvs (Some ''id'') of
             None \<Rightarrow> i = None
           | Some v \<Rightarrow> present_id v \<noteq> None \<and> i = present_id v))"

lemma val_is_str [simp]:
  "version_2 n \<longleftrightarrow> val n = JStr (Some ''2.0'')"
  "eth_syncing_method n \<longleftrightarrow> val n = JStr (Some ''eth_syncing'')"
  by (auto simp: version_2_def eth_syncing_method_def split: json.splits option.splits)

lemma request_of_iff: "request_of n = Some i \<longleftrightarrow> local_call n i"
proof (cases "val n")
  case (JObj kvs)
  show ?thesis
  proof (cases "fields_ok request_fields kvs")
    case True
    then have f: "fields_of request_fields kvs = Some (field_at request_fields kvs)"
      by (simp add: fields_of_iff)
    have at: "field_at request_fields kvs ''jsonrpc'' = map_of kvs (Some ''jsonrpc'')"
      "field_at request_fields kvs ''method'' = map_of kvs (Some ''method'')"
      "field_at request_fields kvs ''params'' = map_of kvs (Some ''params'')"
      "field_at request_fields kvs ''id'' = map_of kvs (Some ''id'')"
      by (simp_all add: field_at_def request_fields_def)
    show ?thesis
      using JObj True
      by (auto simp: request_of_def local_call_def f at split: option.splits)
  next
    case False
    then have "fields_of request_fields kvs = None" by (simp add: fields_of_None_iff)
    with JObj False show ?thesis by (simp add: request_of_def local_call_def)
  qed
qed (simp_all add: request_of_def local_call_def)

lemma request_of_method:
  assumes "request_of n = Some i"
  shows "''eth_syncing'' \<in> node_strings n"
proof -
  from assms obtain kvs meth where "val n = JObj kvs" "map_of kvs (Some ''method'') = Some meth"
    and m: "val meth = JStr (Some ''eth_syncing'')"
    by (auto simp: request_of_iff local_call_def)
  moreover from m have "''eth_syncing'' \<in> node_strings meth" by (simp add: node_strings_val)
  ultimately show ?thesis
    by (metis json_strings_field map_of_SomeD node_strings_val)
qed

text \<open>What the batch loop computes: all elements local, the ids of the calls in order.\<close>

definition reply_of :: "string \<Rightarrow> string" where
  "reply_of i = append_reply [] i"

definition call_ids :: "node list \<Rightarrow> string list" where
  "call_ids ns = List.map_filter (\<lambda>n. Option.bind (request_of n) id) ns"

definition batch_reply :: "string list \<Rightarrow> MockResult" where
  "batch_reply ids =
     (if ids = [] then Silent else Reply (''['' @ join '','' (map reply_of ids) @ '']''))"

lemma append_reply_reply_of: "append_reply out i = out @ reply_of i"
  by (simp add: append_reply_def reply_of_def)

lemma reply_of_not_Nil [simp]: "reply_of i \<noteq> []"
  by (simp add: reply_of_def append_reply_def REPLY_PREFIX_def)

lemma call_ids_simps [simp]:
  "call_ids [] = []"
  "call_ids (n # ns) =
     (case Option.bind (request_of n) id of None \<Rightarrow> call_ids ns | Some i \<Rightarrow> i # call_ids ns)"
  unfolding call_ids_def by (simp_all add: map_filter_simps)

lemma batch_loop_started:
  "batch_loop ns True (if ids = [] then [] else ''['' @ join '','' (map reply_of ids)) =
     (if \<exists>n \<in> set ns. request_of n = None then None else Some (batch_reply (ids @ call_ids ns)))"
proof (induction ns arbitrary: ids)
  case Nil
  show ?case
    by (simp add: batch_reply_def)
next
  case (Cons n ns)
  show ?case
  proof (cases "Option.bind (request_of n) id")
    case None
    with Cons.IH [of ids] show ?thesis
      by (auto split: option.splits)
  next
    case (Some i)
    then have n: "request_of n = Some (Some i)"
      by (cases "request_of n") auto
    have "append_reply ((if ids = [] then [] else ''['' @ join '','' (map reply_of ids)) @
        (if (if ids = [] then [] else ''['' @ join '','' (map reply_of ids)) = [] then ''['' else '','')) i
      = (if ids @ [i] = [] then [] else ''['' @ join '','' (map reply_of (ids @ [i])))"
      by (simp add: append_reply_reply_of join_snoc)
    with n Cons.IH [of "ids @ [i]"] show ?thesis
      by (simp only: batch_loop.simps option.case) simp
  qed
qed

lemma batch_loop_eq:
  "batch_loop ns False [] =
     (if ns = [] then Some Forward
      else if \<exists>n \<in> set ns. request_of n = None then None
      else Some (batch_reply (call_ids ns)))"
proof (cases ns)
  case Nil
  then show ?thesis by simp
next
  case (Cons n ns')
  have "batch_loop (n # ns') False [] = batch_loop (n # ns') True []"
    by simp
  with Cons show ?thesis using batch_loop_started [of ns "[]"] by simp
qed

section \<open>The interface of the inspection\<close>

text \<open>
  A responder answers or swallows only what it may: everything it is not entitled to handle is
  forwarded. The clients (HTTP proxy, WebSocket relay) rely on nothing else of it.
\<close>

locale local_responder =
  fixes inspect :: "bytes \<Rightarrow> MockResult" and handled :: "bytes \<Rightarrow> bool"
  assumes handled_only: "inspect b \<noteq> Forward \<Longrightarrow> handled b"
begin

lemma not_handled_forward: "\<not> handled b \<Longrightarrow> inspect b = Forward"
  using handled_only by blast

end

text \<open>A complete responder also leaves nothing it could handle to the upstream.\<close>

locale complete_responder = local_responder +
  assumes handled_all: "handled b \<Longrightarrow> inspect b \<noteq> Forward"
begin

lemma forward_iff: "inspect b = Forward \<longleftrightarrow> \<not> handled b"
  using handled_only handled_all by blast

end

text \<open>The bodies that are answered locally: one local request, or a non-empty array of them
  written with \<open>[\<close> as its first character.\<close>

definition starts_array :: "bytes \<Rightarrow> bool" where
  "starts_array b \<longleftrightarrow> find (\<lambda>c. \<not> is_ascii_whitespace c) b = Some CHR ''[''"

definition all_local :: "json_api \<Rightarrow> bytes \<Rightarrow> bool" where
  "all_local J b \<longleftrightarrow>
     (case from_slice J b of
        None \<Rightarrow> False
      | Some n \<Rightarrow>
          if starts_array b
          then (case val n of JArr ns \<Rightarrow> ns \<noteq> [] \<and> (\<forall>x \<in> set ns. request_of x \<noteq> None) | _ \<Rightarrow> False)
          else request_of n \<noteq> None)"

lemma parse_mock_Forward_iff: "parse_mock_syncing J b = Forward \<longleftrightarrow> \<not> all_local J b"
proof (cases "from_slice J b")
  case None
  then show ?thesis by (simp add: parse_mock_syncing_def all_local_def Let_def)
next
  case (Some n)
  show ?thesis
  proof (cases "starts_array b")
    case True
    with Some show ?thesis
      by (auto simp: parse_mock_syncing_def all_local_def Let_def starts_array_def batch_of_def
          batch_loop_eq batch_reply_def split: json.splits)
  next
    case False
    with Some show ?thesis
      by (auto simp: parse_mock_syncing_def all_local_def Let_def starts_array_def
          split: option.splits)
  qed
qed

interpretation full_parser: complete_responder "parse_mock_syncing J" "all_local J"
  by unfold_locales (auto simp: parse_mock_Forward_iff)

interpretation mock: local_responder "mock_syncing J" "all_local J"
  by unfold_locales (auto simp: mock_syncing_def parse_mock_Forward_iff split: if_splits)

lemma all_local_has_method:
  assumes "all_local J b"
  shows "\<exists>n. from_slice J b = Some n \<and> ''eth_syncing'' \<in> node_strings n"
proof -
  from assms obtain n where n: "from_slice J b = Some n"
    by (auto simp: all_local_def split: option.splits)
  have "''eth_syncing'' \<in> node_strings n"
  proof (cases "starts_array b")
    case True
    with assms n obtain ns where ns: "val n = JArr ns" "ns \<noteq> []"
        "\<forall>x \<in> set ns. request_of x \<noteq> None"
      by (auto simp: all_local_def split: json.splits)
    then have "hd ns \<in> set ns" "request_of (hd ns) \<noteq> None" by auto
    with ns(1) show ?thesis
      using request_of_method json_strings_elem node_strings_val by (metis option.exhaust)
  next
    case False
    with assms n show ?thesis
      by (auto simp: all_local_def intro: request_of_method)
  qed
  with n show ?thesis by blast
qed

section \<open>A sample document\<close>

text \<open>
  An instance of \<open>json_api\<close> for the witnesses: it knows one batch of two calls and a
  notification, and a request for another method, and refuses every other text.
\<close>

definition str_node :: "string \<Rightarrow> node" where
  "str_node s = Node (Some (CHR 0x22 # s @ [CHR 0x22])) (JStr (Some s))"

definition num_node :: "string \<Rightarrow> int \<Rightarrow> node" where
  "num_node r i = Node (Some r) (JNum (Some i))"

definition call_node :: "string \<Rightarrow> (string option \<times> node) list \<Rightarrow> node" where
  "call_node meth rest =
     Node (Some [])
       (JObj ([(Some ''jsonrpc'', str_node ''2.0''), (Some ''method'', str_node meth)] @ rest))"

definition sample_batch :: bytes where
  \<open>sample_batch = ''[{"jsonrpc":"2.0","method":"eth_syncing","id":7},{"jsonrpc":"2.0","method":"eth_syncing"},{"jsonrpc":"2.0","method":"eth_syncing","id":null}]''\<close>

definition sample_other :: bytes where
  \<open>sample_other = ''{"jsonrpc":"2.0","method":"eth_call","id":1}''\<close>

definition sample_batch_nodes :: "node list" where
  "sample_batch_nodes =
     [call_node ''eth_syncing'' [(Some ''id'', num_node ''7'' 7)],
      call_node ''eth_syncing'' [],
      call_node ''eth_syncing'' [(Some ''id'', Node (Some ''null'') JNull)]]"

definition sample_json :: json_api where
  "sample_json = \<lparr>
     from_slice = (\<lambda>b.
       if b = sample_batch then Some (Node (Some sample_batch) (JArr sample_batch_nodes))
       else if b = sample_other
         then Some (call_node ''eth_call'' [(Some ''id'', num_node ''1'' 1)])
       else None),
     de_error = (\<lambda>t b. ''invalid '' @ t)\<rparr>"

lemma sample_literal: "literal_law sample_json"
proof -
  have "contains_str sample_batch ''eth_syncing''" "contains_str sample_batch ''2.0''"
    "contains_str sample_other ''eth_call''" "contains_str sample_other ''2.0''"
    by code_simp+
  then show ?thesis
    by (auto simp: literal_law_def sample_json_def sample_batch_nodes_def call_node_def
        str_node_def num_node_def split: if_splits)
qed

lemma sample_batch_local: "mock_syncing sample_json sample_batch \<noteq> Forward"
proof -
  have "starts_array sample_batch" "contains_str sample_batch ''eth_syncing''"
    "list_all (\<lambda>n. request_of n \<noteq> None) sample_batch_nodes" "sample_batch_nodes \<noteq> []"
    by code_simp+
  then show ?thesis
    by (simp add: mock_syncing_def parse_mock_Forward_iff all_local_def sample_json_def list_all_iff)
qed

lemma sample_other_foreign: "\<not> all_local sample_json sample_other"
proof -
  have "\<not> starts_array sample_other" "sample_other \<noteq> sample_batch"
    "request_of (call_node ''eth_call'' [(Some ''id'', num_node ''1'' 1)]) = None"
    by code_simp+
  then show ?thesis by (simp add: all_local_def sample_json_def)
qed

section \<open>Properties\<close>

text \<open>C1: the prefilter is sound: for every body, skipping the parser when a short UTF-8 body
  contains neither the method name nor a backslash gives the same result as parsing it in full.
  It relies only on a JSON string without escapes standing for itself.\<close>

theorem prefilter_equivalence:
  assumes "literal_law J"
  shows "mock_syncing J b = parse_mock_syncing J b"
proof (cases "all_local J b")
  case True
  then obtain n where "from_slice J b = Some n" "''eth_syncing'' \<in> node_strings n"
    using all_local_has_method by blast
  with assms have "contains_str b ''eth_syncing'' \<or> CHR 0x5C \<in> set b"
    by (auto simp: literal_law_def)
  then show ?thesis by (auto simp: mock_syncing_def)
next
  case False
  then show ?thesis
    using mock.not_handled_forward full_parser.not_handled_forward by simp
qed

theorem prefilter_equivalence_witness:
  "mock_syncing sample_json sample_other = parse_mock_syncing sample_json sample_other"
  by (rule prefilter_equivalence [OF sample_literal])

text \<open>C28: a batch is answered as one unit: a non-array or empty array, or one element that is not
  a local call, forwards the whole body; otherwise the reply is the array of the single replies
  to the elements that carry an id, in their order, and silence when none carries one.\<close>

theorem batch_semantics:
  assumes "starts_array b"
  shows "parse_mock_syncing J b =
     (case from_slice J b of
        Some (Node r (JArr ns)) \<Rightarrow>
          if ns = [] \<or> (\<exists>n \<in> set ns. request_of n = None) then Forward
          else if call_ids ns = [] then Silent
          else Reply (''['' @ join '','' (map reply_of (call_ids ns)) @ '']'')
      | _ \<Rightarrow> Forward)"
  using assms
  by (auto simp: parse_mock_syncing_def starts_array_def Let_def batch_of_def batch_loop_eq
      batch_reply_def split: option.splits json.splits node.splits)

theorem batch_semantics_witness:
  \<open>parse_mock_syncing sample_json sample_batch =
     Reply ''[{"jsonrpc":"2.0","id":7,"result":false},{"jsonrpc":"2.0","id":null,"result":false}]''\<close>
proof -
  have s: "starts_array sample_batch" by code_simp
  have "from_slice sample_json sample_batch = Some (Node (Some sample_batch) (JArr sample_batch_nodes))"
    by (simp add: sample_json_def)
  moreover have "call_ids sample_batch_nodes = [''7'', ''null'']" by code_simp
  moreover have "\<not> (\<exists>n \<in> set sample_batch_nodes. request_of n = None)" "sample_batch_nodes \<noteq> []"
    by code_simp+
  ultimately show ?thesis
    using batch_semantics [OF s, of sample_json]
    by (simp add: reply_of_def append_reply_def REPLY_PREFIX_def REPLY_SUFFIX_def)
qed

text \<open>C29: a single request is answered locally exactly when it is an object with version 2.0,
  method \<open>eth_syncing\<close>, no parameters or an empty array of them, no repeated field, and an id
  that is absent, a string, a number or null; the reply carries the raw text of the id, and an
  absent id is answered with silence.\<close>

theorem single_semantics:
  assumes "\<not> starts_array b" and "from_slice J b = Some n"
  shows "(parse_mock_syncing J b = Silent \<longleftrightarrow> local_call n None)
     \<and> (\<forall>t. parse_mock_syncing J b = Reply t \<longleftrightarrow> (\<exists>i. local_call n (Some i) \<and> t = reply_of i))
     \<and> (parse_mock_syncing J b = Forward \<longleftrightarrow> (\<forall>i. \<not> local_call n i))"
  using assms
  by (auto simp: parse_mock_syncing_def starts_array_def Let_def reply_of_def
      simp flip: request_of_iff split: option.splits)

theorem single_semantics_witness:
  "parse_mock_syncing sample_json sample_other = Forward"
proof -
  have "\<not> starts_array sample_other" by code_simp
  moreover have "from_slice sample_json sample_other
      = Some (call_node ''eth_call'' [(Some ''id'', num_node ''1'' 1)])"
    by (simp add: sample_json_def) code_simp
  moreover have "\<not> local_call (call_node ''eth_call'' [(Some ''id'', num_node ''1'' 1)]) i" for i
    by (auto simp: local_call_def call_node_def str_node_def)
  ultimately show ?thesis using single_semantics by blast
qed

end
