(* ===== verification/Health_Decode.thy ===== *)
theory Health_Decode
  imports Json "HOL-Library.Multiset"
begin

text \<open>
  The data of \<open>src/health.rs\<close> and the decoding of the upstreams' answers: hexadecimal and
  decimal quantities, the EL batch response (\<open>parse_el_batch\<close>) and the beacon node's envelopes
  (\<open>parse_cl_response\<close>).
\<close>

section \<open>Data\<close>

datatype ElSyncingResult = Synced bool | Syncing (current_block: u64) (highest_block: u64)

record ElBlockResult =
  blk_number :: u64
  blk_timestamp :: u64

record ClStatus =
  cl_head_slot :: u64
  cl_sync_distance :: u64
  cl_is_syncing :: bool

text \<open>The five results of one poll.\<close>

record Probe =
  el_syncing :: "string + ElSyncingResult"
  el_peers :: "string + u64"
  el_block :: "string + ElBlockResult"
  cl_status :: "string + ClStatus"
  cl_peers :: "string + u64"

definition pending :: Probe where
  "pending = \<lparr>el_syncing = Inl ''warming up'', el_peers = Inl ''warming up'',
     el_block = Inl ''warming up'', cl_status = Inl ''warming up'', cl_peers = Inl ''warming up''\<rparr>"

datatype HealthError =
    Timeout
  | Transport string
  | HttpStatus nat
  | Decode string
  | Rpc string

text \<open>\<open>Display for HealthError\<close>; \<open>show_st\<close> is the \<open>Display\<close> of the status code.\<close>

fun show_error :: "(nat \<Rightarrow> string) \<Rightarrow> HealthError \<Rightarrow> string" where
  "show_error show_st Timeout = ''timeout''"
| "show_error show_st (Transport s) = ''transport: '' @ s"
| "show_error show_st (HttpStatus status) = ''http '' @ show_st status"
| "show_error show_st (Decode s) = ''decode: '' @ s"
| "show_error show_st (Rpc s) = ''rpc error: '' @ s"

record ElBatchResult =
  b_syncing :: "HealthError + ElSyncingResult"
  b_peers :: "HealthError + u64"
  b_block :: "HealthError + ElBlockResult"

definition from_error :: "HealthError \<Rightarrow> ElBatchResult" where
  "from_error e = \<lparr>b_syncing = Inl e, b_peers = Inl e, b_block = Inl e\<rparr>"

section \<open>Quantities\<close>

definition hex_to_u64 :: "string \<Rightarrow> u64 option" where
  "hex_to_u64 s =
     (case strip_prefix ''0x'' s of
        None \<Rightarrow> None
      | Some digits \<Rightarrow>
          if digits = [] \<or> (length digits > 1 \<and> prefix ''0'' digits)
             \<or> \<not> list_all is_ascii_hexdigit digits
          then None
          else from_str_radix 16 digits)"

definition hex_string :: "node \<Rightarrow> u64 option" where
  "hex_string n = (case val n of JStr (Some value) \<Rightarrow> hex_to_u64 value | _ \<Rightarrow> None)"

definition decimal_string :: "node \<Rightarrow> u64 option" where
  "decimal_string n = (case val n of JStr (Some value) \<Rightarrow> parse_u64 value | _ \<Rightarrow> None)"

text \<open>A field that must be present, read with \<open>rd\<close>.\<close>

definition req_field :: "(string \<rightharpoonup> node) \<Rightarrow> string \<Rightarrow> (node \<Rightarrow> 'a option) \<Rightarrow> 'a option" where
  "req_field m k rd = Option.bind (m k) rd"

definition bool_of :: "node \<Rightarrow> bool option" where
  "bool_of n = (case val n of JBool b \<Rightarrow> Some b | _ \<Rightarrow> None)"

text \<open>\<open>JsonObject<T>\<close>: only an object is accepted, never a positional array.\<close>

definition object_of :: "string list \<Rightarrow> ((string \<rightharpoonup> node) \<Rightarrow> 'a option) \<Rightarrow> node \<Rightarrow> 'a option" where
  "object_of known rd n =
     (case val n of JObj kvs \<Rightarrow> Option.bind (fields_of known kvs) rd | _ \<Rightarrow> None)"

definition el_syncing_of :: "node \<Rightarrow> ElSyncingResult option" where
  "el_syncing_of n =
     (case val n of
        JBool v \<Rightarrow> Some (Synced v)
      | JObj kvs \<Rightarrow>
          Option.bind (fields_of [''currentBlock'', ''highestBlock''] kvs) (\<lambda>m.
          Option.bind (req_field m ''currentBlock'' hex_string) (\<lambda>c.
          Option.bind (req_field m ''highestBlock'' hex_string) (\<lambda>h.
          Some (Syncing c h))))
      | _ \<Rightarrow> None)"

definition el_block_of :: "node \<Rightarrow> ElBlockResult option" where
  "el_block_of =
     object_of [''number'', ''timestamp''] (\<lambda>m.
       Option.bind (req_field m ''number'' hex_string) (\<lambda>n.
       Option.bind (req_field m ''timestamp'' hex_string) (\<lambda>t.
       Some \<lparr>blk_number = n, blk_timestamp = t\<rparr>)))"

definition cl_status_of :: "node \<Rightarrow> ClStatus option" where
  "cl_status_of =
     object_of [''head_slot'', ''sync_distance'', ''is_syncing''] (\<lambda>m.
       Option.bind (req_field m ''head_slot'' decimal_string) (\<lambda>h.
       Option.bind (req_field m ''sync_distance'' decimal_string) (\<lambda>d.
       Option.bind (req_field m ''is_syncing'' bool_of) (\<lambda>b.
       Some \<lparr>cl_head_slot = h, cl_sync_distance = d, cl_is_syncing = b\<rparr>))))"

text \<open>The \<open>Peers\<close> struct of \<open>cl_peer_count\<close>.\<close>

definition cl_peers_of :: "node \<Rightarrow> u64 option" where
  "cl_peers_of = object_of [''connected''] (\<lambda>m. req_field m ''connected'' decimal_string)"

section \<open>The EL batch response\<close>

record RpcResponse =
  rpc_id :: int
  rpc_result :: "string option"
  rpc_error :: "string option"

text \<open>\<open>i64\<close>: an integer in range. \<open>Option<&RawValue>\<close>: absent and null are \<open>None\<close>.\<close>

definition i64_of :: "node \<Rightarrow> int option" where
  "i64_of n =
     (case val n of
        JNum (Some i) \<Rightarrow> if - (2 ^ 63) \<le> i \<and> i < 2 ^ 63 then Some i else None
      | _ \<Rightarrow> None)"

definition opt_raw :: "(string \<rightharpoonup> node) \<Rightarrow> string \<Rightarrow> string option option" where
  "opt_raw m k =
     (case m k of
        None \<Rightarrow> Some None
      | Some v \<Rightarrow> if val v = JNull then Some None else map_option Some (raw v))"

definition rpc_response_of :: "node \<Rightarrow> RpcResponse option" where
  "rpc_response_of =
     object_of [''id'', ''result'', ''error''] (\<lambda>m.
       Option.bind (req_field m ''id'' i64_of) (\<lambda>i.
       Option.bind (opt_raw m ''result'') (\<lambda>r.
       Option.bind (opt_raw m ''error'') (\<lambda>e.
       Some \<lparr>rpc_id = i, rpc_result = r, rpc_error = e\<rparr>))))"

fun traverse :: "('a \<Rightarrow> 'b option) \<Rightarrow> 'a list \<Rightarrow> 'b list option" where
  "traverse f [] = Some []"
| "traverse f (x # xs) =
     Option.bind (f x) (\<lambda>y. Option.bind (traverse f xs) (\<lambda>ys. Some (y # ys)))"

text \<open>The array type \<open>[JsonObject<RpcResponse>; 3]\<close>.\<close>

definition responses_of :: "node \<Rightarrow> RpcResponse list option" where
  "responses_of n =
     (case val n of
        JArr ns \<Rightarrow> if length ns = 3 then traverse rpc_response_of ns else None
      | _ \<Rightarrow> None)"

definition slot_index :: "int \<Rightarrow> nat option" where
  "slot_index i =
     (if i < 0 then None
      else if nat i < 1 then None
      else if nat i - 1 < 3 then Some (nat i - 1) else None)"

fun fill_slots :: "RpcResponse list \<Rightarrow> RpcResponse option list \<Rightarrow> HealthError + RpcResponse option list" where
  "fill_slots [] slots = Inr slots"
| "fill_slots (resp # rs) slots =
     (case slot_index (rpc_id resp) of
        None \<Rightarrow> Inl (Decode ''duplicate or unexpected response id'')
      | Some idx \<Rightarrow>
          if slots ! idx \<noteq> None then Inl (Decode ''duplicate or unexpected response id'')
          else fill_slots rs (slots[idx := Some resp]))"

definition decode_res :: "RpcResponse option list \<Rightarrow> nat \<Rightarrow> HealthError + string" where
  "decode_res slots idx =
     (case slots ! idx of
        None \<Rightarrow> Inl (Decode (''missing response for id '' @ show_base 10 (idx + 1)))
      | Some resp \<Rightarrow>
          (case rpc_error resp of
             Some err \<Rightarrow> Inl (Rpc err)
           | None \<Rightarrow>
               (case rpc_result resp of
                  None \<Rightarrow> Inl (Decode ''missing result'')
                | Some r \<Rightarrow> Inr r)))"

text \<open>\<open>serde_json::from_str::<T>(raw)\<close> with the error as \<open>HealthError::Decode\<close>.\<close>

definition from_raw :: "json_api \<Rightarrow> string \<Rightarrow> (node \<Rightarrow> 'a option) \<Rightarrow> string \<Rightarrow> HealthError + 'a" where
  "from_raw J ty rd r =
     (case Option.bind (from_slice J r) rd of
        None \<Rightarrow> Inl (Decode (de_error J ty r))
      | Some x \<Rightarrow> Inr x)"

definition parse_el_batch :: "json_api \<Rightarrow> bytes \<Rightarrow> HealthError + ElBatchResult" where
  "parse_el_batch J body =
     (case Option.bind (from_slice J body) responses_of of
        None \<Rightarrow> Inl (Decode (de_error J ''[RpcResponse; 3]'' body))
      | Some arr \<Rightarrow>
          and_then (fill_slots arr [None, None, None]) (\<lambda>slots.
            Inr \<lparr>
              b_syncing = and_then (decode_res slots 0) (from_raw J ''ElSyncingResult'' el_syncing_of),
              b_peers = and_then (decode_res slots 1) (from_raw J ''HexQuantity'' hex_string),
              b_block = and_then (decode_res slots 2) (from_raw J ''ElBlockResult'' el_block_of)\<rparr>))"

section \<open>Beacon node answers\<close>

definition parse_cl_response :: "json_api \<Rightarrow> string \<Rightarrow> (node \<Rightarrow> 'a option) \<Rightarrow> bytes \<Rightarrow> string + 'a" where
  "parse_cl_response J ty rd body =
     (case Option.bind (from_slice J body)
             (object_of [''data''] (\<lambda>m. req_field m ''data'' rd)) of
        None \<Rightarrow> Inl (''decode: '' @ de_error J ty body)
      | Some x \<Rightarrow> Inr x)"

section \<open>Hexadecimal quantities are canonical\<close>

definition show_hex :: "u64 \<Rightarrow> string" where
  "show_hex n = ''0x'' @ show_base 16 (unat n)"

lemma to_digit_lowercase: "to_digit b (to_ascii_lowercase c) = to_digit b c"
  by (cases c rule: char_cases_code) (auto simp: ascii_defs to_digit_def Let_def)

lemma digits_acc_lowercase: "digits_acc b a (map to_ascii_lowercase s) = digits_acc b a s"
  by (induction s arbitrary: a) (auto simp: to_digit_lowercase split: option.splits)

lemma hexdigit_not_sign: "is_ascii_hexdigit c \<Longrightarrow> c \<noteq> CHR ''+'' \<and> c \<noteq> CHR ''-''"
  by (auto simp: ascii_defs)

lemma from_str_radix_digits:
  "ds \<noteq> [] \<Longrightarrow> list_all is_ascii_hexdigit ds \<Longrightarrow>
     from_str_radix 16 ds = map_option of_nat (digits_acc 16 0 ds)"
  by (cases ds) (auto simp: from_str_radix_def dest: hexdigit_not_sign)

lemma show_base_hd: "2 \<le> b \<Longrightarrow> b \<le> 16 \<Longrightarrow> 0 < n \<Longrightarrow> hd (show_base b n) \<noteq> CHR ''0''"
proof (induction b n rule: show_base.induct)
  case (1 b n)
  show ?case
  proof (cases "n < b")
    case True
    with 1 have "digit_char n \<noteq> digit_char 0"
      using to_digit_char [of n b] to_digit_char [of 0 b] by auto
    with True show ?thesis
      by (subst show_base.simps) (simp add: digit_char_def char_of_48)
  next
    case False
    with 1 have "0 < n div b" by (simp add: div_greater_zero_iff)
    with 1 False show ?thesis by (subst show_base.simps) simp
  qed
qed

lemma hd_lowercase_zero: "ds \<noteq> [] \<Longrightarrow> hd (map to_ascii_lowercase ds) = CHR ''0'' \<longleftrightarrow> hd ds = CHR ''0''"
  using lowercase_zero [of "hd ds"]
  by (simp add: hd_map digit_char_def char_of_48)

lemma prefix_zero_iff: "prefix ''0'' ds \<longleftrightarrow> ds \<noteq> [] \<and> hd ds = CHR ''0''"
  by (cases ds) auto

lemma hex_to_u64_iff:
  "hex_to_u64 s = Some n \<longleftrightarrow>
     (\<exists>ds. s = ''0x'' @ ds \<and> list_all is_ascii_hexdigit ds
        \<and> map to_ascii_lowercase ds = show_base 16 (unat n))" (is "?L \<longleftrightarrow> ?R")
proof
  assume ?L
  then obtain ds where s: "s = ''0x'' @ ds" and ds: "ds \<noteq> []" "list_all is_ascii_hexdigit ds"
    and z: "length ds > 1 \<longrightarrow> hd ds \<noteq> CHR ''0''" and r: "from_str_radix 16 ds = Some n"
    by (auto simp: hex_to_u64_def strip_prefix_Some prefix_zero_iff split: option.splits if_splits)
  from r ds obtain k where k: "digits_acc 16 0 ds = Some k" "n = of_nat k"
    by (auto simp: from_str_radix_digits)
  then have "unat n = k"
    using digits_acc_bound [OF k(1)] by (simp add: unat_of_nat)
  moreover have "map to_ascii_lowercase ds = show_base 16 k"
    using digits_acc_canonical [OF _ _ k(1) ds(1) z] by simp
  ultimately show ?R using s ds by blast
next
  assume ?R
  then obtain ds where s: "s = ''0x'' @ ds" and ds: "list_all is_ascii_hexdigit ds"
    and m: "map to_ascii_lowercase ds = show_base 16 (unat n)" by blast
  from m have ne: "ds \<noteq> []" using show_base_not_Nil by (metis map_is_Nil_conv)
  have "digits_acc 16 0 ds = Some (unat n)"
    using digits_acc_lowercase [of 16 0 ds] m digits_acc_show_base [of 16 "unat n"]
      unsigned_less [of n] by simp
  moreover have "hd ds \<noteq> CHR ''0''" if "length ds > 1"
  proof -
    have "length (show_base 16 (unat n)) > 1" using m that by (metis length_map)
    then have "0 < unat n"
      by (rule contrapos_pp) (simp add: show_base.simps)
    then show ?thesis
      using show_base_hd [of 16 "unat n"] hd_lowercase_zero [OF ne] m by simp
  qed
  ultimately show ?L
    using s ne ds by (auto simp: hex_to_u64_def prefix_zero_iff from_str_radix_digits)
qed

interpretation hex: canonical_codec show_hex hex_to_u64 "map to_ascii_lowercase"
proof
  fix x :: u64
  have digit: "is_ascii_hexdigit (digit_char d) \<and> to_ascii_lowercase (digit_char d) = digit_char d"
    if "d < 16" for d
    using that code_digit_char [OF that] by (auto simp: ascii_defs split: if_splits)
  have "list_all is_ascii_hexdigit (show_base 16 (unat x))"
    "map to_ascii_lowercase (show_base 16 (unat x)) = show_base 16 (unat x)"
    using digit show_base_digits [of 16 _ "unat x"]
    by (auto simp: list_all_iff intro!: map_idI)
  then show "hex_to_u64 (show_hex x) = Some x"
    by (auto simp: hex_to_u64_iff show_hex_def)
next
  fix s :: string and x :: u64
  assume "hex_to_u64 s = Some x"
  then show "map to_ascii_lowercase s = show_hex x"
    by (auto simp: hex_to_u64_iff show_hex_def ascii_defs)
qed

section \<open>Filling the slots\<close>

lemma slot_index_Some_iff: "slot_index i = Some k \<longleftrightarrow> k < 3 \<and> i = int k + 1"
  by (auto simp: slot_index_def split: if_splits)

text \<open>The slots that a list of responses fills: each response at its own index, none twice.\<close>

definition slots_match :: "RpcResponse list \<Rightarrow> RpcResponse option list \<Rightarrow> RpcResponse option list \<Rightarrow> bool" where
  "slots_match rs slots out \<longleftrightarrow>
     (\<forall>r \<in> set rs. \<exists>k. slot_index (rpc_id r) = Some k \<and> slots ! k = None \<and> out ! k = Some r)
     \<and> (\<forall>k < 3. (\<forall>r \<in> set rs. slot_index (rpc_id r) \<noteq> Some k) \<longrightarrow> out ! k = slots ! k)
     \<and> distinct (map rpc_id rs) \<and> length out = 3"

lemma fill_slots_match:
  "length slots = 3 \<Longrightarrow> fill_slots rs slots = Inr out \<longleftrightarrow> slots_match rs slots out"
proof (induction rs arbitrary: slots)
  case Nil
  then show ?case by (auto simp: slots_match_def intro: nth_equalityI)
next
  case (Cons r rs)
  show ?case
  proof (cases "slot_index (rpc_id r)")
    case None
    then show ?thesis by (simp add: slots_match_def)
  next
    case (Some k)
    then have k: "k < 3" by (simp add: slot_index_Some_iff)
    have same: "slot_index (rpc_id x) = Some k \<longleftrightarrow> rpc_id x = rpc_id r" for x
      using Some by (auto simp: slot_index_Some_iff)
    show ?thesis
    proof (cases "slots ! k")
      case None
      have "slots_match (r # rs) slots out \<longleftrightarrow> slots_match rs (slots[k := Some r]) out"
        using k Some None Cons.prems same
        unfolding slots_match_def
        by (auto simp: nth_list_update) (metis image_eqI option.inject same)+
      with Some None Cons show ?thesis by simp
    next
      case (Some x)
      with \<open>slot_index (rpc_id r) = Some k\<close> show ?thesis by (simp add: slots_match_def)
    qed
  qed
qed

lemma distinct_three:
  assumes "distinct xs" "length xs = 3" "set xs \<subseteq> {a, b, c :: 'x}" "distinct [a, b, c]"
  shows "mset xs = {#a, b, c#}"
proof -
  have "card (set xs) = card {a, b, c}"
    using assms by (simp add: distinct_card)
  then have "set xs = {a, b, c}"
    using assms(3) by (intro card_subset_eq) auto
  then have "mset_set (set xs) = mset_set (set [a, b, c])" by simp
  then show ?thesis
    using assms(1,4) by (simp only: mset_set_set) simp
qed

lemma slots_match_three:
  assumes len: "length rs = 3"
  shows "slots_match rs [None, None, None] out \<longleftrightarrow>
    (\<exists>r1 r2 r3. mset rs = {#r1, r2, r3#} \<and> rpc_id r1 = 1 \<and> rpc_id r2 = 2 \<and> rpc_id r3 = 3
       \<and> out = [Some r1, Some r2, Some r3])" (is "?L \<longleftrightarrow> ?R")
proof
  assume L: ?L
  then have d: "distinct (map rpc_id rs)" and out: "length out = 3"
    and at: "\<And>r. r \<in> set rs \<Longrightarrow> \<exists>k < 3. rpc_id r = int k + 1 \<and> out ! k = Some r"
    by (auto simp: slots_match_def slot_index_Some_iff)
  have "set (map rpc_id rs) \<subseteq> {1, 2, 3}"
    using at by (fastforce simp: less_Suc_eq numeral_3_eq_3)
  then have "mset (map rpc_id rs) = {#1, 2, 3#}"
    using d len by (intro distinct_three) auto
  then have "{1, 2, 3} = rpc_id ` set rs"
    by (metis mset_map set_image_mset set_mset_add_mset_insert set_mset_empty set_mset_mset)
  then obtain r1 r2 r3 where r: "r1 \<in> set rs" "r2 \<in> set rs" "r3 \<in> set rs"
    and i: "rpc_id r1 = 1" "rpc_id r2 = 2" "rpc_id r3 = 3"
    by (metis (no_types, lifting) imageE insertCI)
  have "out ! 0 = Some r1" "out ! 1 = Some r2" "out ! 2 = Some r3"
    using at [OF r(1)] at [OF r(2)] at [OF r(3)] i by auto
  then have o: "out = [Some r1, Some r2, Some r3]"
    using out by (auto intro!: nth_equalityI simp: less_Suc_eq numeral_3_eq_3 numeral_2_eq_2)
  have "set rs \<subseteq> {r1, r2, r3}"
    using at o by (fastforce simp: less_Suc_eq numeral_3_eq_3 numeral_2_eq_2)
  then have "mset rs = {#r1, r2, r3#}"
    using len d i by (intro distinct_three) (auto simp: distinct_map)
  with i o show ?R by blast
next
  assume ?R
  then obtain r1 r2 r3 where m: "mset rs = {#r1, r2, r3#}"
    and i: "rpc_id r1 = 1" "rpc_id r2 = 2" "rpc_id r3 = 3"
    and o: "out = [Some r1, Some r2, Some r3]" by blast
  from m have "mset (map rpc_id rs) = mset [1, 2, 3]"
    using i by simp
  then have "distinct (map rpc_id rs) = distinct [1 :: int, 2, 3]"
    by (rule mset_eq_imp_distinct_iff)
  then have "distinct (map rpc_id rs)" by simp
  moreover have "set rs = {r1, r2, r3}"
    using m by (metis set_mset_add_mset_insert set_mset_empty set_mset_mset)
  ultimately show ?L
    using i o by (auto simp: slots_match_def slot_index_def less_Suc_eq numeral_3_eq_3)
qed

text \<open>The answer for one of the three calls: its error, its missing result, or its decoding.\<close>

definition answer :: "json_api \<Rightarrow> string \<Rightarrow> (node \<Rightarrow> 'a option) \<Rightarrow> RpcResponse \<Rightarrow> HealthError + 'a" where
  "answer J ty rd r =
     (case rpc_error r of
        Some err \<Rightarrow> Inl (Rpc err)
      | None \<Rightarrow>
          (case rpc_result r of
             None \<Rightarrow> Inl (Decode ''missing result'')
           | Some t \<Rightarrow> from_raw J ty rd t))"

lemma decode_res_answer:
  "slots ! k = Some r \<Longrightarrow> and_then (decode_res slots k) (from_raw J ty rd) = answer J ty rd r"
  by (auto simp: decode_res_def answer_def split: option.splits)

lemma traverse_length: "traverse f xs = Some ys \<Longrightarrow> length ys = length xs"
  by (induction xs arbitrary: ys) (auto split: bind_splits)

lemma responses_of_length: "responses_of n = Some rs \<Longrightarrow> length rs = 3"
  by (auto simp: responses_of_def dest!: traverse_length split: json.splits if_splits)

lemma parse_el_batch_Inr:
  "parse_el_batch J body = Inr res \<longleftrightarrow>
     (\<exists>n rs slots. from_slice J body = Some n \<and> responses_of n = Some rs
        \<and> fill_slots rs [None, None, None] = Inr slots
        \<and> res = \<lparr>b_syncing = and_then (decode_res slots 0) (from_raw J ''ElSyncingResult'' el_syncing_of),
                 b_peers = and_then (decode_res slots 1) (from_raw J ''HexQuantity'' hex_string),
                 b_block = and_then (decode_res slots 2) (from_raw J ''ElBlockResult'' el_block_of)\<rparr>)"
  by (cases "from_slice J body"; cases "Option.bind (from_slice J body) responses_of")
    (auto simp: parse_el_batch_def and_then_Inr_iff)

lemma fill_three:
  "responses_of n = Some rs \<Longrightarrow> fill_slots rs [None, None, None] = Inr slots \<longleftrightarrow>
     (\<exists>r1 r2 r3. mset rs = {#r1, r2, r3#} \<and> rpc_id r1 = 1 \<and> rpc_id r2 = 2 \<and> rpc_id r3 = 3
        \<and> slots = [Some r1, Some r2, Some r3])"
  using fill_slots_match [of "[None, None, None]" rs slots]
    slots_match_three [OF responses_of_length, of n rs slots] by simp

section \<open>Properties\<close>

text \<open>C35: \<open>hex_to_u64\<close> accepts exactly the canonical Ethereum quantities: \<open>0x\<close> followed by the
  hexadecimal digits of a 64-bit value without leading zeros (either case), and returns that
  value.\<close>

theorem hex_canonical:
  "hex_to_u64 s = Some n \<longleftrightarrow>
     (\<exists>ds. s = ''0x'' @ ds \<and> list_all is_ascii_hexdigit ds
        \<and> map to_ascii_lowercase ds = show_base 16 (unat n))"
  by (rule hex_to_u64_iff)

text \<open>Rendering and parsing a hexadecimal quantity round-trips for every 64-bit value, and two
  accepted texts of the same value differ in letter case only.\<close>

lemma hex_roundtrip:
  "hex_to_u64 (show_hex n) = Some n
     \<and> (show_hex m = show_hex n \<longleftrightarrow> m = n)
     \<and> (\<exists>s. hex_to_u64 s = Some n \<and> map to_ascii_lowercase s = show_hex n)"
  using hex.dec_enc hex.enc_inject hex.dec_norm by blast

text \<open>C20: the EL batch is accepted exactly when it is an array of three response objects whose
  ids are 1, 2 and 3 in some order; the three results then depend only on the response with
  that id, so an error or a malformed result of one call leaves the other two intact, and the
  order of the responses does not matter.\<close>

theorem el_batch_semantics:
  "parse_el_batch J body = Inr res \<longleftrightarrow>
     (\<exists>n rs r1 r2 r3. from_slice J body = Some n \<and> responses_of n = Some rs
        \<and> mset rs = {#r1, r2, r3#} \<and> rpc_id r1 = 1 \<and> rpc_id r2 = 2 \<and> rpc_id r3 = 3
        \<and> res = \<lparr>b_syncing = answer J ''ElSyncingResult'' el_syncing_of r1,
                 b_peers = answer J ''HexQuantity'' hex_string r2,
                 b_block = answer J ''ElBlockResult'' el_block_of r3\<rparr>)"
  (is "_ \<longleftrightarrow> ?rhs")
proof
  assume "parse_el_batch J body = Inr res"
  then obtain n rs slots where n: "from_slice J body = Some n" "responses_of n = Some rs"
    and f: "fill_slots rs [None, None, None] = Inr slots"
    and res: "res = \<lparr>b_syncing = and_then (decode_res slots 0) (from_raw J ''ElSyncingResult'' el_syncing_of),
                 b_peers = and_then (decode_res slots 1) (from_raw J ''HexQuantity'' hex_string),
                 b_block = and_then (decode_res slots 2) (from_raw J ''ElBlockResult'' el_block_of)\<rparr>"
    unfolding parse_el_batch_Inr by blast
  from f fill_three [OF n(2)] obtain r1 r2 r3 where r: "mset rs = {#r1, r2, r3#}" "rpc_id r1 = 1"
      "rpc_id r2 = 2" "rpc_id r3 = 3" and slots: "slots = [Some r1, Some r2, Some r3]" by blast
  have "res = \<lparr>b_syncing = answer J ''ElSyncingResult'' el_syncing_of r1,
      b_peers = answer J ''HexQuantity'' hex_string r2, b_block = answer J ''ElBlockResult'' el_block_of r3\<rparr>"
    by (simp add: res slots decode_res_answer)
  with n r show ?rhs by blast
next
  assume ?rhs
  then obtain n rs r1 r2 r3 where n: "from_slice J body = Some n" "responses_of n = Some rs"
    and r: "mset rs = {#r1, r2, r3#}" "rpc_id r1 = 1" "rpc_id r2 = 2" "rpc_id r3 = 3"
    and res: "res = \<lparr>b_syncing = answer J ''ElSyncingResult'' el_syncing_of r1,
      b_peers = answer J ''HexQuantity'' hex_string r2, b_block = answer J ''ElBlockResult'' el_block_of r3\<rparr>"
    by blast
  from r fill_three [OF n(2)] have "fill_slots rs [None, None, None] = Inr [Some r1, Some r2, Some r3]" by blast
  with n show "parse_el_batch J body = Inr res"
    unfolding parse_el_batch_Inr by (intro exI conjI) (assumption+, simp add: res decode_res_answer)
qed

end
