(* ===== verification/State.thy ===== *)
theory State
  imports Config Http_Types Health_Decode
begin

text \<open>
  \<open>src/state.rs\<close> and the client construction of \<open>src/proxy.rs\<close>: the settings of an upstream
  client, the state shared by every handler, and the choice of the client for the EL hop.
\<close>

text \<open>The settings \<open>build_client\<close> makes on hyper's builders; durations in seconds.\<close>

record ProxyClient =
  nodelay :: bool
  enforce_http :: bool
  tcp_keepalive :: "nat option"
  alpn_all_versions :: bool
  pool_idle_timeout :: nat
  http2_only :: bool

definition build_client :: "bool \<Rightarrow> ProxyClient" where
  "build_client force_h2 =
     (let base = \<lparr>nodelay = True, enforce_http = False, tcp_keepalive = Some 60,
                   alpn_all_versions = True, pool_idle_timeout = 60, http2_only = False\<rparr>
      in if force_h2 then base\<lparr>http2_only := True\<rparr> else base)"

record AppState =
  cfg :: Config
  client :: ProxyClient
  el_h2_client :: ProxyClient
  el_use_h2 :: bool
  el_http_uri :: Uri
  el_ws_uri :: Uri
  cl_beacon_uri :: Uri
  cl_mev_relay_uri :: "Uri option"
  cl_syncing_uri :: Uri
  cl_peer_count_uri :: Uri
  cl_genesis_time :: u64
  cl_seconds_per_slot :: u64
  otel_enabled :: bool
  probe :: Probe

text \<open>The plain-text answers the program gives itself (\<open>text_response\<close> of \<open>src/proxy.rs\<close>).\<close>

definition text_response :: "StatusCode \<Rightarrow> bytes \<Rightarrow> Response" where
  "text_response status msg =
     \<lparr>res_status = status,
      res_headers = insert_header empty_headers ''content-type'' ''text/plain; charset=utf-8'',
      res_body = Full msg\<rparr>"

lemma text_response_simps [simp]:
  "res_status (text_response status msg) = status" "res_body (text_response status msg) = Full msg"
  by (simp_all add: text_response_def)

definition el_client :: "AppState \<Rightarrow> bool \<Rightarrow> ProxyClient" where
  "el_client state use_h2 = (if use_h2 then el_h2_client state else client state)"

text \<open>The clients of a running program: the default one and the HTTP/2-only one.\<close>

definition clients_ok :: "AppState \<Rightarrow> bool" where
  "clients_ok state \<longleftrightarrow> client state = build_client False \<and> el_h2_client state = build_client True"

lemma http2_only_build_client [simp]: "http2_only (build_client b) = b"
  by (simp add: build_client_def Let_def)

lemma el_client_version: "clients_ok state \<Longrightarrow> http2_only (el_client state use_h2) = use_h2"
  by (simp add: el_client_def clients_ok_def)

end
