(* ===== verification/Health.thy ===== *)
theory Health
  imports State
begin

text \<open>
  The verdicts and endpoints of \<open>src/health.rs\<close>: the four readiness checks, \<open>evaluate_ready\<close>,
  the snapshot of \<open>/healthz\<close>, the responses of \<open>/healthz\<close>, \<open>/readyz\<close> and
  \<open>/eth/v1/node/health\<close>, and the logging decision on readiness changes. The wall clock
  (\<open>now_unix\<close>) and serde_json's \<open>to_vec\<close> are arguments.
\<close>

record Check =
  ok :: bool
  detail :: string

record ElHealth =
  eh_transport :: string
  eh_syncing :: "bool option"
  eh_sync_distance :: "u64 option"
  eh_peers :: "u64 option"
  eh_block_number :: "u64 option"
  eh_block_age_secs :: "u64 option"
  eh_errors :: "string list"

record ClHealth =
  ch_transport :: string
  ch_syncing :: "bool option"
  ch_sync_distance :: "u64 option"
  ch_peers :: "u64 option"
  ch_head_slot :: "u64 option"
  ch_slot_age_secs :: "u64 option"
  ch_errors :: "string list"

record HealthSnapshot =
  snap_el :: ElHealth
  snap_cl :: ClHealth

record ReadyReport =
  rr_status :: string
  rr_el_syncing :: Check
  rr_cl_syncing :: Check
  rr_el_block_fresh :: "Check option"
  rr_cl_slot_fresh :: "Check option"

definition default_el :: ElHealth where
  "default_el = \<lparr>eh_transport = [], eh_syncing = None, eh_sync_distance = None, eh_peers = None,
     eh_block_number = None, eh_block_age_secs = None, eh_errors = []\<rparr>"

definition default_cl :: ClHealth where
  "default_cl = \<lparr>ch_transport = [], ch_syncing = None, ch_sync_distance = None, ch_peers = None,
     ch_head_slot = None, ch_slot_age_secs = None, ch_errors = []\<rparr>"

section \<open>Readiness checks\<close>

definition slot_age :: "u64 \<Rightarrow> u64 \<Rightarrow> u64 \<Rightarrow> u64 \<Rightarrow> u64" where
  "slot_age head_slot genesis seconds_per_slot now =
     (let expected = saturating_add genesis (saturating_mul head_slot seconds_per_slot)
      in saturating_sub now expected)"

fun check_el_syncing :: "string + ElSyncingResult \<Rightarrow> Check" where
  "check_el_syncing (Inr (Synced False)) = \<lparr>ok = True, detail = ''synced''\<rparr>"
| "check_el_syncing (Inr (Synced True)) = \<lparr>ok = False, detail = ''syncing (true)''\<rparr>"
| "check_el_syncing (Inr (Syncing current highest)) =
     (let distance = saturating_sub highest current
      in \<lparr>ok = False, detail = ''syncing (block '' @ show_u64 current @ '', distance ''
            @ show_u64 distance @ '')''\<rparr>)"
| "check_el_syncing (Inl e) = \<lparr>ok = False, detail = ''eth_syncing: '' @ e\<rparr>"

fun check_cl_syncing :: "string + ClStatus \<Rightarrow> Check" where
  "check_cl_syncing (Inr s) =
     (if \<not> cl_is_syncing s
      then \<lparr>ok = True, detail = ''synced (slot '' @ show_u64 (cl_head_slot s) @ '', distance ''
              @ show_u64 (cl_sync_distance s) @ '')''\<rparr>
      else \<lparr>ok = False, detail = ''syncing (slot '' @ show_u64 (cl_head_slot s) @ '', distance ''
              @ show_u64 (cl_sync_distance s) @ '')''\<rparr>)"
| "check_cl_syncing (Inl e) = \<lparr>ok = False, detail = ''node/syncing: '' @ e\<rparr>"

fun check_el_block_fresh :: "string + ElBlockResult \<Rightarrow> u64 \<Rightarrow> u64 \<Rightarrow> Check" where
  "check_el_block_fresh (Inr block) max_age now =
     (let age = saturating_sub now (blk_timestamp block)
      in if age \<le> max_age
         then \<lparr>ok = True, detail = ''block '' @ show_u64 (blk_number block) @ '', age ''
                 @ show_u64 age @ ''s''\<rparr>
         else \<lparr>ok = False, detail = ''block '' @ show_u64 (blk_number block) @ '' stale: ''
                 @ show_u64 age @ ''s (max '' @ show_u64 max_age @ '')''\<rparr>)"
| "check_el_block_fresh (Inl e) max_age now =
     \<lparr>ok = False, detail = ''eth_getBlockByNumber: '' @ e\<rparr>"

fun check_cl_slot_fresh :: "string + ClStatus \<Rightarrow> u64 \<Rightarrow> u64 \<Rightarrow> u64 \<Rightarrow> u64 \<Rightarrow> Check" where
  "check_cl_slot_fresh (Inr s) genesis seconds_per_slot max_age now =
     (if genesis = 0
      then \<lparr>ok = True, detail = ''slot '' @ show_u64 (cl_head_slot s) @ '' (age check disabled)''\<rparr>
      else (let age = slot_age (cl_head_slot s) genesis seconds_per_slot now
            in if age \<le> max_age
               then \<lparr>ok = True, detail = ''slot '' @ show_u64 (cl_head_slot s) @ '', age ''
                       @ show_u64 age @ ''s''\<rparr>
               else \<lparr>ok = False, detail = ''slot '' @ show_u64 (cl_head_slot s) @ '' stale: ''
                       @ show_u64 age @ ''s (max '' @ show_u64 max_age @ '')''\<rparr>))"
| "check_cl_slot_fresh (Inl e) genesis seconds_per_slot max_age now =
     \<lparr>ok = False, detail = ''node/syncing: '' @ e\<rparr>"

definition is_none_or :: "('a \<Rightarrow> bool) \<Rightarrow> 'a option \<Rightarrow> bool" where
  "is_none_or p x = (case x of None \<Rightarrow> True | Some y \<Rightarrow> p y)"

definition evaluate_ready :: "AppState \<Rightarrow> Probe \<Rightarrow> u64 \<Rightarrow> ReadyReport" where
  "evaluate_ready state pr now =
     (if trust_upstream (cfg state)
      then \<lparr>rr_status = ''ready'',
             rr_el_syncing = \<lparr>ok = True, detail = ''synced (trusted upstream)''\<rparr>,
             rr_cl_syncing = \<lparr>ok = True, detail = ''synced (trusted upstream)''\<rparr>,
             rr_el_block_fresh = None,
             rr_cl_slot_fresh = None\<rparr>
      else
        (let el = check_el_syncing (el_syncing pr);
             cl = check_cl_syncing (cl_status pr);
             (el_block_fresh, cl_slot_fresh) =
               (if readyz_strict (cfg state)
                then (Some (check_el_block_fresh (el_block pr) (el_max_block_age_secs (cfg state)) now),
                      Some (check_cl_slot_fresh (cl_status pr) (cl_genesis_time state)
                              (cl_seconds_per_slot state) (cl_max_slot_age_secs (cfg state)) now))
                else (None, None));
             all_ok = (ok el \<and> ok cl \<and> is_none_or ok el_block_fresh \<and> is_none_or ok cl_slot_fresh)
         in \<lparr>rr_status = (if all_ok then ''ready'' else ''not_ready''),
              rr_el_syncing = el, rr_cl_syncing = cl,
              rr_el_block_fresh = el_block_fresh, rr_cl_slot_fresh = cl_slot_fresh\<rparr>))"

section \<open>The snapshot\<close>

definition build_snapshot ::
  "string + ElSyncingResult \<Rightarrow> string + u64 \<Rightarrow> string + ElBlockResult \<Rightarrow> string + ClStatus \<Rightarrow>
   string + u64 \<Rightarrow> u64 \<Rightarrow> u64 \<Rightarrow> u64 \<Rightarrow> HealthSnapshot"
where
  "build_snapshot sync_r peers_r block_r cl_status_r cl_peers_r genesis seconds_per_slot now =
     (let el = default_el;
          el = (case sync_r of
                  Inr (Synced False) \<Rightarrow> el\<lparr>eh_syncing := Some False\<rparr>
                | Inr (Synced True) \<Rightarrow> el\<lparr>eh_syncing := Some True\<rparr>
                | Inr (Syncing current highest) \<Rightarrow>
                    el\<lparr>eh_syncing := Some True,
                       eh_sync_distance := Some (saturating_sub highest current)\<rparr>
                | Inl e \<Rightarrow> el\<lparr>eh_errors := eh_errors el @ [''eth_syncing: '' @ e]\<rparr>);
          el = (case peers_r of
                  Inr n \<Rightarrow> el\<lparr>eh_peers := Some n\<rparr>
                | Inl e \<Rightarrow> el\<lparr>eh_errors := eh_errors el @ [''net_peerCount: '' @ e]\<rparr>);
          el = (case block_r of
                  Inr block \<Rightarrow>
                    el\<lparr>eh_block_number := Some (blk_number block),
                       eh_block_age_secs := Some (saturating_sub now (blk_timestamp block))\<rparr>
                | Inl e \<Rightarrow> el\<lparr>eh_errors := eh_errors el @ [''eth_getBlockByNumber: '' @ e]\<rparr>);
          cl = default_cl;
          cl = (case cl_status_r of
                  Inr s \<Rightarrow>
                    (let cl = cl\<lparr>ch_syncing := Some (cl_is_syncing s),
                                 ch_sync_distance := Some (cl_sync_distance s),
                                 ch_head_slot := Some (cl_head_slot s)\<rparr>
                     in if genesis \<noteq> 0
                        then cl\<lparr>ch_slot_age_secs :=
                                 Some (slot_age (cl_head_slot s) genesis seconds_per_slot now)\<rparr>
                        else cl)
                | Inl e \<Rightarrow> cl\<lparr>ch_errors := ch_errors cl @ [''node/syncing: '' @ e]\<rparr>);
          cl = (case cl_peers_r of
                  Inr n \<Rightarrow> cl\<lparr>ch_peers := Some n\<rparr>
                | Inl e \<Rightarrow> cl\<lparr>ch_errors := ch_errors cl @ [''node/peer_count: '' @ e]\<rparr>)
      in \<lparr>snap_el = el, snap_cl = cl\<rparr>)"

definition transport_label :: "bool \<Rightarrow> string option \<Rightarrow> string" where
  "transport_label uses_h2 scheme =
     (case (uses_h2, scheme = Some ''https'') of
        (True, True) \<Rightarrow> ''h2''
      | (True, False) \<Rightarrow> ''h2c''
      | (False, _) \<Rightarrow> ''http/1.1'')"

section \<open>Endpoints\<close>

definition json_headers :: HeaderMap where
  "json_headers = insert_header empty_headers ''content-type'' ''application/json''"

definition empty_json_response :: "StatusCode \<Rightarrow> Response" where
  "empty_json_response status = \<lparr>res_status = status, res_headers = json_headers, res_body = Full []\<rparr>"

definition json_response :: "('a \<Rightarrow> bytes option) \<Rightarrow> StatusCode \<Rightarrow> 'a \<Rightarrow> Response" where
  "json_response to_vec status body =
     (let body_bytes = (case to_vec body of None \<Rightarrow> ''{}'' | Some b \<Rightarrow> b)
      in \<lparr>res_status = status, res_headers = json_headers, res_body = Full body_bytes\<rparr>)"

definition report :: "(HealthSnapshot \<Rightarrow> bytes option) \<Rightarrow> u64 \<Rightarrow> AppState \<Rightarrow> bool \<Rightarrow> Response" where
  "report to_vec now state head =
     (if head then empty_json_response OK_200
      else
        (let pr = probe state;
             snapshot = build_snapshot (el_syncing pr) (el_peers pr) (el_block pr) (cl_status pr)
               (cl_peers pr) (cl_genesis_time state) (cl_seconds_per_slot state) now;
             snapshot = snapshot\<lparr>snap_el := (snap_el snapshot)\<lparr>eh_transport :=
               transport_label (el_use_h2 state) (scheme_str (el_http_uri state))\<rparr>\<rparr>;
             snapshot = snapshot\<lparr>snap_cl := (snap_cl snapshot)\<lparr>ch_transport :=
               transport_label False (scheme_str (cl_syncing_uri state))\<rparr>\<rparr>
         in json_response to_vec OK_200 snapshot))"

definition ready :: "(ReadyReport \<Rightarrow> bytes option) \<Rightarrow> u64 \<Rightarrow> AppState \<Rightarrow> bool \<Rightarrow> Response" where
  "ready to_vec now state head =
     (let pr = probe state;
          rep = evaluate_ready state pr now;
          status = (if rr_status rep = ''ready'' then OK_200 else SERVICE_UNAVAILABLE)
      in if head then empty_json_response status else json_response to_vec status rep)"

definition node_health :: "u64 \<Rightarrow> AppState \<Rightarrow> Response" where
  "node_health now state =
     (let pr = probe state;
          rep = evaluate_ready state pr now;
          status =
            (if rr_status rep = ''ready'' then OK_200
             else if (case el_syncing pr of
                        Inr (Synced True) \<Rightarrow> True
                      | Inr (Syncing _ _) \<Rightarrow> True
                      | _ \<Rightarrow> False)
                   \<or> (case cl_status pr of Inr s \<Rightarrow> cl_is_syncing s | Inl _ \<Rightarrow> False)
             then PARTIAL_CONTENT
             else SERVICE_UNAVAILABLE)
      in empty_json_response status)"

datatype Transition = Silent | BecameNotReady | Recovered

definition readiness_transition :: "bool option \<Rightarrow> bool \<Rightarrow> Transition" where
  "readiness_transition prev_ready rdy =
     (case prev_ready of
        Some p \<Rightarrow> if p = rdy then Silent else if rdy then Recovered else BecameNotReady
      | None \<Rightarrow> if rdy then Silent else BecameNotReady)"

section \<open>When a check passes\<close>

text \<open>Numeric readings of the checks, used by every property below.\<close>

lemma slot_age_nat:
  "unat (slot_age head_slot genesis sps now) =
     unat now - min (unat genesis + min (unat head_slot * unat sps) (2 ^ 64 - 1)) (2 ^ 64 - 1)"
  by (simp add: slot_age_def Let_def saturating)

lemma el_syncing_ok: "ok (check_el_syncing r) \<longleftrightarrow> r = Inr (Synced False)"
  by (cases r rule: check_el_syncing.cases) (simp_all add: Let_def)

lemma cl_syncing_ok: "ok (check_cl_syncing r) \<longleftrightarrow> (\<exists>s. r = Inr s \<and> \<not> cl_is_syncing s)"
  by (cases r) simp_all

lemma el_block_fresh_ok:
  "ok (check_el_block_fresh r max_age now) \<longleftrightarrow>
     (\<exists>b. r = Inr b \<and> unat now - unat (blk_timestamp b) \<le> unat max_age)"
  by (cases r) (simp_all add: Let_def word_le_nat_alt saturating)

lemma cl_slot_fresh_ok:
  "ok (check_cl_slot_fresh r genesis sps max_age now) \<longleftrightarrow>
     (\<exists>s. r = Inr s
        \<and> (genesis = 0 \<or> unat (slot_age (cl_head_slot s) genesis sps now) \<le> unat max_age))"
  by (cases r) (simp_all add: Let_def word_le_nat_alt)

lemmas check_ok = el_syncing_ok cl_syncing_ok el_block_fresh_ok cl_slot_fresh_ok

definition is_ready :: "AppState \<Rightarrow> Probe \<Rightarrow> u64 \<Rightarrow> bool" where
  "is_ready state pr now \<longleftrightarrow> rr_status (evaluate_ready state pr now) = ''ready''"

definition synced :: "Probe \<Rightarrow> bool" where
  "synced pr \<longleftrightarrow> el_syncing pr = Inr (Synced False) \<and> (\<exists>s. cl_status pr = Inr s \<and> \<not> cl_is_syncing s)"

definition fresh :: "AppState \<Rightarrow> Probe \<Rightarrow> u64 \<Rightarrow> bool" where
  "fresh state pr now \<longleftrightarrow>
     (\<exists>b. el_block pr = Inr b
        \<and> unat now - unat (blk_timestamp b) \<le> unat (el_max_block_age_secs (cfg state)))
     \<and> (\<exists>s. cl_status pr = Inr s
        \<and> (cl_genesis_time state = 0
           \<or> unat (slot_age (cl_head_slot s) (cl_genesis_time state) (cl_seconds_per_slot state) now)
               \<le> unat (cl_max_slot_age_secs (cfg state))))"

lemma is_ready_iff:
  "is_ready state pr now \<longleftrightarrow>
     trust_upstream (cfg state)
     \<or> synced pr \<and> (readyz_strict (cfg state) \<longrightarrow> fresh state pr now)"
  by (auto simp: is_ready_def evaluate_ready_def Let_def is_none_or_def synced_def fresh_def check_ok)

lemma res_status_simps [simp]:
  "res_status (empty_json_response st) = st"
  "res_body (empty_json_response st) = Full []"
  "res_status (json_response tv st b) = st"
  by (simp_all add: empty_json_response_def json_response_def Let_def)

section \<open>Properties\<close>

text \<open>C36: the slot age is exact as long as the expected slot time fits 64 bits and never wraps:
  a head slot from the future or one so large that its time overflows gives age 0, for every
  input.\<close>

theorem slot_age_saturates:
  "unat (slot_age head_slot genesis sps now) =
     unat now - min (unat genesis + unat head_slot * unat sps) (2 ^ 64 - 1)"
  by (simp add: slot_age_nat min_def)

text \<open>C22: readiness. \<open>/readyz\<close> answers 200 exactly when the upstream is trusted, or both layers
  report being synced and, in strict mode, the block and slot ages are within their limits; in
  every other case, errors and warm-up included, it answers 503. HEAD has the same status and
  an empty body.\<close>

theorem ready_semantics:
  "res_status (ready to_vec now state head) =
     (if trust_upstream (cfg state)
         \<or> synced (probe state) \<and> (readyz_strict (cfg state) \<longrightarrow> fresh state (probe state) now)
      then 200 else 503)
   \<and> (head \<longrightarrow> res_body (ready to_vec now state head) = Full [])"
  using is_ready_iff [of state "probe state" now]
  by (auto simp: ready_def Let_def is_ready_def)

definition sample_probe :: Probe where
  "sample_probe = \<lparr>el_syncing = Inr (Synced False), el_peers = Inr 16,
     el_block = Inr \<lparr>blk_number = 5, blk_timestamp = 994\<rparr>,
     cl_status = Inr \<lparr>cl_head_slot = 10, cl_sync_distance = 0, cl_is_syncing = False\<rparr>,
     cl_peers = Inr 64\<rparr>"

definition sample_uri :: Uri where
  "sample_uri = \<lparr>scheme_str = Some ''http'', authority = Some ''127.0.0.1:8545'',
     path_and_query = Some \<lparr>pq_path = ''/'', pq_query = None\<rparr>\<rparr>"

definition sample_state :: AppState where
  "sample_state = \<lparr>cfg = default_config, client = build_client False,
     el_h2_client = build_client True, el_use_h2 = True, el_http_uri = sample_uri,
     el_ws_uri = sample_uri, cl_beacon_uri = sample_uri, cl_mev_relay_uri = None,
     cl_syncing_uri = sample_uri, cl_peer_count_uri = sample_uri, cl_genesis_time = 1000,
     cl_seconds_per_slot = 12, otel_enabled = False, probe = sample_probe\<rparr>"

theorem ready_semantics_witness:
  "res_status (ready (\<lambda>_. None) 1000 sample_state True) = 200
     \<and> res_body (ready (\<lambda>_. None) 1000 sample_state True) = Full []"
  using ready_semantics [of "\<lambda>_. None" 1000 sample_state True]
  by (simp add: sample_state_def default_config_def synced_def sample_probe_def)

text \<open>Strict mode only ever removes readiness: whenever a probe is ready under
  \<open>--readyz-strict\<close> it is ready without the flag, whatever the clock says then.\<close>

lemma strict_implies_default:
  assumes "readyz_strict (cfg state)" and "is_ready state pr now"
  shows "is_ready (state\<lparr>cfg := (cfg state)\<lparr>readyz_strict := False\<rparr>\<rparr>) pr now'"
  using assms by (auto simp: is_ready_iff)

text \<open>The snapshot loses nothing: each of the five signals is either reported in its field or
  recorded as exactly one error of its layer, so present signals and errors always add up to
  three for the EL and two for the CL.\<close>

lemma snapshot_accounts:
  "let snap = build_snapshot sync_r peers_r block_r cl_status_r cl_peers_r genesis sps now;
       el = snap_el snap; cl = snap_cl snap in
     of_bool (eh_syncing el \<noteq> None) + of_bool (eh_peers el \<noteq> None) + of_bool (eh_block_number el \<noteq> None)
       + length (eh_errors el) = 3
     \<and> of_bool (ch_syncing cl \<noteq> None) + of_bool (ch_peers cl \<noteq> None) + length (ch_errors cl) = 2
     \<and> (eh_syncing el = None \<longleftrightarrow> isl sync_r) \<and> (eh_peers el = None \<longleftrightarrow> isl peers_r)
     \<and> (eh_block_number el = None \<longleftrightarrow> isl block_r) \<and> (ch_syncing cl = None \<longleftrightarrow> isl cl_status_r)
     \<and> (ch_peers cl = None \<longleftrightarrow> isl cl_peers_r)
     \<and> (ch_slot_age_secs cl = None \<longleftrightarrow> isl cl_status_r \<or> genesis = 0)"
proof -
  note defs = build_snapshot_def Let_def default_el_def default_cl_def
  show ?thesis
    by (cases sync_r rule: check_el_syncing.cases; cases peers_r; cases block_r;
        cases cl_status_r; cases cl_peers_r) (simp_all add: defs del: not_None_eq)
qed

text \<open>The monitoring view and the traffic gate agree: without trust and strictness, a probe is
  ready exactly when the snapshot built from it says that both layers are not syncing.\<close>

lemma snapshot_agrees_with_ready:
  assumes "\<not> trust_upstream (cfg state)" and "\<not> readyz_strict (cfg state)"
  shows "is_ready state pr now \<longleftrightarrow>
     (let snap = build_snapshot (el_syncing pr) (el_peers pr) (el_block pr) (cl_status pr)
                   (cl_peers pr) genesis sps now
      in eh_syncing (snap_el snap) = Some False \<and> ch_syncing (snap_cl snap) = Some False)"
proof -
  note defs = build_snapshot_def Let_def default_el_def default_cl_def
  have "is_ready state pr now \<longleftrightarrow> synced pr" using assms by (simp add: is_ready_iff)
  then show ?thesis
    by (cases "el_syncing pr" rule: check_el_syncing.cases; cases "el_peers pr";
        cases "el_block pr"; cases "cl_status pr"; cases "cl_peers pr")
      (simp_all add: defs synced_def)
qed

end
