(* ===== verification/Poll.thy ===== *)
theory Poll
  imports Health
begin

text \<open>
  The background poller of \<open>src/health.rs\<close>: one upstream exchange (\<open>fetch_bytes\<close>), the EL batch
  with its choice between HTTP/1.1 and h2c (\<open>el_batch_detect\<close>), one poll (\<open>probe_once\<close>), the
  gauges (\<open>update_metrics\<close>) and the loop (\<open>poll_loop\<close>) as a machine over the events it waits
  for. What the network answers is an argument (\<open>net_api\<close>), a new one for every poll.
\<close>

section \<open>Upstream exchanges\<close>

text \<open>
  The outcome of the timed block of \<open>fetch_bytes\<close>: it did not finish in time, the client
  reported an error, or a response came with a body that was collected up to 10 MiB or not.
\<close>

datatype Exchange = NotInTime | ConnError string | Answer StatusCode "string + bytes"

record net_api =
  build_request :: "Request \<Rightarrow> string + Request"
  exchange :: "ProxyClient \<Rightarrow> Request \<Rightarrow> Exchange"

definition fetch_bytes :: "net_api \<Rightarrow> Request \<Rightarrow> ProxyClient \<Rightarrow> HealthError + bytes" where
  "fetch_bytes N req cl =
     (case exchange N cl req of
        NotInTime \<Rightarrow> Inl Timeout
      | ConnError e \<Rightarrow> Inl (Transport e)
      | Answer status body \<Rightarrow>
          if \<not> is_success status then Inl (HttpStatus status)
          else map_err Decode body)"

definition EL_BATCH_REQ :: bytes where
  \<open>EL_BATCH_REQ = ''[{"jsonrpc":"2.0","method":"eth_syncing","params":[],"id":1},{"jsonrpc":"2.0","method":"net_peerCount","params":[],"id":2},{"jsonrpc":"2.0","method":"eth_getBlockByNumber","params":["latest",false],"id":3}]''\<close>

text \<open>A request as \<open>Request::builder\<close> starts it: HTTP/1.1 without extensions.\<close>

definition built :: "Method \<Rightarrow> Uri \<Rightarrow> HeaderMap \<Rightarrow> bytes \<Rightarrow> Request" where
  "built meth uri headers body = \<lparr>req_method = meth, req_uri = uri, req_version = HTTP_11,
     req_headers = headers, protocol_ext = None, req_body = Full body\<rparr>"

definition el_batch_request :: "AppState \<Rightarrow> bytes \<Rightarrow> Request" where
  "el_batch_request state payload = built POST (el_http_uri state) json_headers payload"

definition el_batch_rpc ::
  "json_api \<Rightarrow> net_api \<Rightarrow> AppState \<Rightarrow> bytes \<Rightarrow> ProxyClient \<Rightarrow> HealthError + ElBatchResult" where
  "el_batch_rpc J N state payload cl =
     and_then (map_err (\<lambda>e. Transport (''build: '' @ e))
                (build_request N (el_batch_request state payload))) (\<lambda>req.
     and_then (fetch_bytes N req cl) (\<lambda>body.
     parse_el_batch J body))"

definition is_transport :: "HealthError \<Rightarrow> bool" where
  "is_transport e = (case e of Transport _ \<Rightarrow> True | Timeout \<Rightarrow> True | _ \<Rightarrow> False)"

definition transport_failed :: "HealthError + 'a \<Rightarrow> bool" where
  "transport_failed r = (case r of Inl e \<Rightarrow> is_transport e | Inr _ \<Rightarrow> False)"

datatype TransportLog = StoppedSpeakingH2c | SpeaksH2c

text \<open>
  \<open>el_batch_detect\<close> returns the result, the state with the transport verdict stored, the
  clients it sent the batch with, in order, and what it logged.
\<close>

definition el_batch_detect ::
  "json_api \<Rightarrow> net_api \<Rightarrow> AppState \<Rightarrow> ElBatchResult \<times> AppState \<times> ProxyClient list \<times> TransportLog list"
where
  "el_batch_detect J N state =
     (let payload = EL_BATCH_REQ in
      if scheme_str (el_http_uri state) = Some ''https''
      then (unwrap_or_else from_error (el_batch_rpc J N state payload (client state)),
            state, [client state], [])
      else
        (let prefer_h2 = el_use_h2 state;
             primary = el_batch_rpc J N state payload (el_client state prefer_h2)
         in case primary of
              Inl primary_error \<Rightarrow>
                if is_transport primary_error
                then
                  (let alternate = el_batch_rpc J N state payload (el_client state (\<not> prefer_h2));
                       tried = [el_client state prefer_h2, el_client state (\<not> prefer_h2)]
                   in if transport_failed alternate
                      then (from_error primary_error, state, tried, [])
                      else (unwrap_or_else from_error alternate,
                            state\<lparr>el_use_h2 := \<not> prefer_h2\<rparr>, tried,
                            [if prefer_h2 then StoppedSpeakingH2c else SpeaksH2c]))
                else (from_error primary_error, state, [el_client state prefer_h2], [])
            | Inr result \<Rightarrow> (result, state, [el_client state prefer_h2], [])))"

section \<open>One poll\<close>

definition cl_get_json ::
  "http_api \<Rightarrow> json_api \<Rightarrow> net_api \<Rightarrow> AppState \<Rightarrow> Uri \<Rightarrow> string \<Rightarrow> (node \<Rightarrow> 'a option) \<Rightarrow> string + 'a" where
  "cl_get_json A J N state uri ty rd =
     and_then (build_request N (built GET uri empty_headers [])) (\<lambda>req.
     and_then (map_err (show_error (show_status A)) (fetch_bytes N req (client state))) (\<lambda>body.
     parse_cl_response J ty rd body))"

definition cl_syncing_status :: "http_api \<Rightarrow> json_api \<Rightarrow> net_api \<Rightarrow> AppState \<Rightarrow> string + ClStatus" where
  "cl_syncing_status A J N state =
     cl_get_json A J N state (cl_syncing_uri state) ''ClStatus'' cl_status_of"

definition cl_peer_count :: "http_api \<Rightarrow> json_api \<Rightarrow> net_api \<Rightarrow> AppState \<Rightarrow> string + u64" where
  "cl_peer_count A J N state =
     cl_get_json A J N state (cl_peer_count_uri state) ''Peers'' cl_peers_of"

definition probe_once :: "http_api \<Rightarrow> json_api \<Rightarrow> net_api \<Rightarrow> AppState \<Rightarrow> Probe \<times> AppState" where
  "probe_once A J N state =
     (if trust_upstream (cfg state)
      then (\<lparr>el_syncing = Inr (Synced False), el_peers = Inr 100,
             el_block = Inr \<lparr>blk_number = 0, blk_timestamp = 0\<rparr>,
             cl_status = Inr \<lparr>cl_head_slot = 0, cl_sync_distance = 0, cl_is_syncing = False\<rparr>,
             cl_peers = Inr 64\<rparr>, state)
      else
        (let (batch, state', _, _) = el_batch_detect J N state;
             status = cl_syncing_status A J N state;
             peers = cl_peer_count A J N state
         in (\<lparr>el_syncing = map_err (show_error (show_status A)) (b_syncing batch),
              el_peers = map_err (show_error (show_status A)) (b_peers batch),
              el_block = map_err (show_error (show_status A)) (b_block batch),
              cl_status = status, cl_peers = peers\<rparr>, state')))"

section \<open>Gauges\<close>

text \<open>
  A gauge is named by its metric and its \<open>layer\<close> label; its value is the 64-bit number the code
  casts to \<open>f64\<close> when setting it.
\<close>

type_synonym gauges = "string \<times> string \<rightharpoonup> u64"

definition update_metrics :: "Probe \<Rightarrow> ReadyReport \<Rightarrow> gauges \<Rightarrow> gauges" where
  "update_metrics pr rep g =
     (let g = g((''ethryx_upstream_health_status'', ''el'') \<mapsto> (if ok (rr_el_syncing rep) then 1 else 0));
          g = g((''ethryx_upstream_health_status'', ''cl'') \<mapsto> (if ok (rr_cl_syncing rep) then 1 else 0));
          g = g((''ethryx_upstream_peers'', ''el'') \<mapsto> (case el_peers pr of Inr n \<Rightarrow> n | Inl _ \<Rightarrow> 0));
          g = g((''ethryx_upstream_peers'', ''cl'') \<mapsto> (case cl_peers pr of Inr n \<Rightarrow> n | Inl _ \<Rightarrow> 0));
          g = g((''ethryx_upstream_sync_distance'', ''el'') \<mapsto>
                  (case el_syncing pr of
                     Inr (Syncing current highest) \<Rightarrow> saturating_sub highest current
                   | _ \<Rightarrow> 0));
          g = (case cl_status pr of
                 Inr s \<Rightarrow> g((''ethryx_upstream_sync_distance'', ''cl'') \<mapsto> cl_sync_distance s,
                             (''ethryx_upstream_slot_number'', []) \<mapsto> cl_head_slot s)
               | Inl _ \<Rightarrow> g((''ethryx_upstream_sync_distance'', ''cl'') \<mapsto> 0));
          g = (case el_block pr of
                 Inr b \<Rightarrow> g((''ethryx_upstream_block_number'', []) \<mapsto> blk_number b)
               | Inl _ \<Rightarrow> g)
      in g)"

section \<open>The loop\<close>

text \<open>
  What an iteration of \<open>poll_loop\<close> meets: the shutdown deadline is announced while it sleeps or
  while it polls, or the poll completes at wall-clock time \<open>now\<close> over the network \<open>N\<close>, with
  some receiver of the probe alive or none. A poll that is cancelled may already have finished
  its EL batch over a network \<open>N\<close> and stored the verdict.
\<close>

datatype PollEvent =
    DeadlineWhileSleeping
  | DeadlineWhilePolling "net_api option"
  | Polled net_api u64 bool

record PollState =
  ps_app :: AppState
  ps_prev :: "bool option"
  ps_log :: "Transition list"
  ps_gauges :: gauges
  ps_published :: "Probe list"
  ps_done :: bool

definition log_entry :: "Transition \<Rightarrow> Transition list" where
  "log_entry t = (case t of Silent \<Rightarrow> [] | _ \<Rightarrow> [t])"

definition verdict_after :: "json_api \<Rightarrow> net_api option \<Rightarrow> AppState \<Rightarrow> AppState" where
  "verdict_after J batch app =
     (case batch of
        None \<Rightarrow> app
      | Some N \<Rightarrow> if trust_upstream (cfg app) then app else fst (snd (el_batch_detect J N app)))"

definition poll_step :: "http_api \<Rightarrow> json_api \<Rightarrow> PollEvent \<Rightarrow> PollState \<Rightarrow> PollState" where
  "poll_step A J ev ps =
     (if ps_done ps then ps
      else case ev of
        DeadlineWhileSleeping \<Rightarrow> ps\<lparr>ps_done := True\<rparr>
      | DeadlineWhilePolling batch \<Rightarrow> ps\<lparr>ps_done := True, ps_app := verdict_after J batch (ps_app ps)\<rparr>
      | Polled N now receivers \<Rightarrow>
          (let (pr, app) = probe_once A J N (ps_app ps);
               rep = evaluate_ready app pr now;
               rdy = (rr_status rep = ''ready'');
               ps = ps\<lparr>ps_gauges := update_metrics pr rep (ps_gauges ps),
                       ps_log := ps_log ps @ log_entry (readiness_transition (ps_prev ps) rdy),
                       ps_prev := Some rdy, ps_app := app\<rparr>
           in if receivers
              then ps\<lparr>ps_app := app\<lparr>probe := pr\<rparr>, ps_published := ps_published ps @ [pr]\<rparr>
              else ps\<lparr>ps_done := True\<rparr>))"

fun poll_loop :: "http_api \<Rightarrow> json_api \<Rightarrow> PollEvent list \<Rightarrow> PollState \<Rightarrow> PollState" where
  "poll_loop A J [] ps = ps"
| "poll_loop A J (ev # evs) ps = poll_loop A J evs (poll_step A J ev ps)"

definition poll_start :: "AppState \<Rightarrow> gauges \<Rightarrow> PollState" where
  "poll_start app g = \<lparr>ps_app = app, ps_prev = None, ps_log = [], ps_gauges = g,
     ps_published = [], ps_done = False\<rparr>"

section \<open>The transport verdict\<close>

definition attempt :: "json_api \<Rightarrow> net_api \<Rightarrow> AppState \<Rightarrow> bool \<Rightarrow> HealthError + ElBatchResult" where
  "attempt J N state h2 = el_batch_rpc J N state EL_BATCH_REQ (el_client state h2)"

definition tls_upstream :: "AppState \<Rightarrow> bool" where
  "tls_upstream state \<longleftrightarrow> scheme_str (el_http_uri state) = Some ''https''"

definition el_result :: "HealthError + ElBatchResult \<Rightarrow> ElBatchResult" where
  "el_result r = unwrap_or_else from_error r"

lemma el_result_simps [simp]: "el_result (Inl e) = from_error e" "el_result (Inr b) = b"
  by (simp_all add: el_result_def)

lemma transport_failed_simps [simp]:
  "transport_failed (Inl e) = is_transport e" "\<not> transport_failed (Inr b)"
  by (simp_all add: transport_failed_def)

text \<open>The four outcomes of \<open>el_batch_detect\<close>, each in one equation.\<close>

lemma detect_tls:
  "tls_upstream state \<Longrightarrow> el_batch_detect J N state =
     (el_result (attempt J N state False), state, [client state], [])"
  by (simp add: el_batch_detect_def tls_upstream_def attempt_def el_result_def el_client_def)

lemma detect_primary:
  "\<lbrakk>\<not> tls_upstream state; \<not> transport_failed (attempt J N state (el_use_h2 state))\<rbrakk> \<Longrightarrow>
     el_batch_detect J N state =
       (el_result (attempt J N state (el_use_h2 state)), state, [el_client state (el_use_h2 state)], [])"
  by (cases "attempt J N state (el_use_h2 state)")
    (simp_all add: el_batch_detect_def tls_upstream_def attempt_def Let_def)

lemma detect_both_failed:
  "\<lbrakk>\<not> tls_upstream state; transport_failed (attempt J N state (el_use_h2 state));
    transport_failed (attempt J N state (\<not> el_use_h2 state))\<rbrakk> \<Longrightarrow>
     el_batch_detect J N state =
       (el_result (attempt J N state (el_use_h2 state)), state,
        [el_client state (el_use_h2 state), el_client state (\<not> el_use_h2 state)], [])"
  by (cases "attempt J N state (el_use_h2 state)")
    (simp_all add: el_batch_detect_def tls_upstream_def attempt_def Let_def)

lemma detect_switch:
  "\<lbrakk>\<not> tls_upstream state; transport_failed (attempt J N state (el_use_h2 state));
    \<not> transport_failed (attempt J N state (\<not> el_use_h2 state))\<rbrakk> \<Longrightarrow>
     el_batch_detect J N state =
       (el_result (attempt J N state (\<not> el_use_h2 state)), state\<lparr>el_use_h2 := \<not> el_use_h2 state\<rparr>,
        [el_client state (el_use_h2 state), el_client state (\<not> el_use_h2 state)],
        [if el_use_h2 state then StoppedSpeakingH2c else SpeaksH2c])"
  by (cases "attempt J N state (el_use_h2 state)")
    (simp_all add: el_batch_detect_def tls_upstream_def attempt_def el_result_def Let_def)

lemmas detect_cases = detect_tls detect_primary detect_both_failed detect_switch

lemma el_client_verdict [simp]: "el_client (state\<lparr>el_use_h2 := b\<rparr>) h2 = el_client state h2"
  by (simp add: el_client_def)

lemma attempt_verdict [simp]: "attempt J N (state\<lparr>el_use_h2 := b\<rparr>) h2 = attempt J N state h2"
  by (simp add: attempt_def el_batch_rpc_def el_batch_request_def)

lemma tls_upstream_verdict [simp]: "tls_upstream (state\<lparr>el_use_h2 := b\<rparr>) = tls_upstream state"
  by (simp add: tls_upstream_def)

lemma detect_frame: "fst (snd (el_batch_detect J N state)) =
    state\<lparr>el_use_h2 := el_use_h2 (fst (snd (el_batch_detect J N state)))\<rparr>"
  by (cases "tls_upstream state"; cases "transport_failed (attempt J N state (el_use_h2 state))";
      cases "transport_failed (attempt J N state (\<not> el_use_h2 state))")
    (simp_all add: detect_cases)

lemma batch_cases:
  obtains (tls) "tls_upstream state"
  | (primary) "\<not> tls_upstream state" "\<not> transport_failed (attempt J N state (el_use_h2 state))"
  | (both) "\<not> tls_upstream state" "transport_failed (attempt J N state (el_use_h2 state))"
      "transport_failed (attempt J N state (\<not> el_use_h2 state))"
  | (switch) "\<not> tls_upstream state" "transport_failed (attempt J N state (el_use_h2 state))"
      "\<not> transport_failed (attempt J N state (\<not> el_use_h2 state))"
  by blast

text \<open>When the transport verdict changes. One batch sends at most two requests and touches
  nothing of the state but the verdict, and the verdict flips exactly when the upstream is
  cleartext, the preferred HTTP version failed at the transport (or timed out) and the other one
  did not: an HTTP error status or an undecodable answer of the alternate is enough. A flip is
  logged, and only a flip is.\<close>

lemma verdict_flips_iff:
  "let (result, state', tried, logged) = el_batch_detect J N state in
     state' = state\<lparr>el_use_h2 := el_use_h2 state'\<rparr>
     \<and> tried \<in> {[el_client state False], [el_client state (el_use_h2 state)],
                [el_client state (el_use_h2 state), el_client state (\<not> el_use_h2 state)]}
     \<and> (el_use_h2 state' \<noteq> el_use_h2 state \<longleftrightarrow>
          \<not> tls_upstream state
          \<and> transport_failed (attempt J N state (el_use_h2 state))
          \<and> \<not> transport_failed (attempt J N state (\<not> el_use_h2 state)))
     \<and> logged = (if el_use_h2 state' = el_use_h2 state then []
                 else [if el_use_h2 state' then SpeaksH2c else StoppedSpeakingH2c])"
  by (cases rule: batch_cases [where state = state and J = J and N = N])
    (simp_all add: detect_cases el_client_def)

lemma detect_reaches:
  assumes "\<not> tls_upstream state" and "\<not> transport_failed (attempt J N state h2)"
  shows "\<not> transport_failed (attempt J N state (el_use_h2 (fst (snd (el_batch_detect J N state)))))"
proof (cases rule: batch_cases [where state = state and J = J and N = N])
  case both
  with assms(2) show ?thesis by (cases "h2 = el_use_h2 state") auto
qed (use assms(1) in \<open>simp_all add: detect_primary detect_switch\<close>)

text \<open>C21: convergence. If either HTTP version reaches a cleartext upstream, then after one batch the
  verdict is a version that reaches it, the batch's result is that version's answer, and every
  further batch over the same network keeps the verdict and sends a single request.\<close>

theorem verdict_converges:
  assumes "\<not> tls_upstream state"
    and "\<not> transport_failed (attempt J N state h2)"
  shows "let (result, state', tried, logged) = el_batch_detect J N state in
     \<not> transport_failed (attempt J N state (el_use_h2 state'))
     \<and> result = el_result (attempt J N state (el_use_h2 state'))
     \<and> el_batch_detect J N state' = (result, state', [el_client state' (el_use_h2 state')], [])"
proof (cases rule: batch_cases [where state = state and J = J and N = N])
  case both
  with assms(2) show ?thesis by (cases "h2 = el_use_h2 state") auto
qed (use assms(1) in \<open>simp_all add: detect_primary detect_switch\<close>)

definition no_json :: json_api where
  "no_json = \<lparr>from_slice = (\<lambda>_. None), de_error = (\<lambda>_ _. [])\<rparr>"

definition dead_h2_net :: net_api where
  "dead_h2_net = \<lparr>build_request = Inr,
     exchange = (\<lambda>cl req. if http2_only cl then ConnError ''connection closed'' else Answer 503 (Inr []))\<rparr>"

lemma sample_attempt [simp]:
  "attempt J dead_h2_net sample_state h2 =
     Inl (if h2 then Transport ''connection closed'' else HttpStatus 503)"
  by (simp add: attempt_def el_batch_rpc_def fetch_bytes_def dead_h2_net_def sample_state_def
      el_client_def is_success_def)

lemma sample_not_tls [simp]: "\<not> tls_upstream sample_state"
  by (simp add: tls_upstream_def sample_state_def sample_uri_def)

theorem verdict_converges_witness:
  "let (result, state', tried, logged) = el_batch_detect no_json dead_h2_net sample_state in
     \<not> transport_failed (attempt no_json dead_h2_net sample_state (el_use_h2 state'))
     \<and> result = el_result (attempt no_json dead_h2_net sample_state (el_use_h2 state'))
     \<and> el_batch_detect no_json dead_h2_net state'
         = (result, state', [el_client state' (el_use_h2 state')], [])"
  by (rule verdict_converges [of _ _ _ False]) (simp_all add: is_transport_def)

text \<open>A TLS upstream negotiates its version itself: the batch goes out once, on the default
  client, and the state stays as it is; and when both versions of a cleartext upstream fail,
  the verdict stays too and all three signals carry the preferred version's error.\<close>

lemma verdict_kept:
  "(tls_upstream state \<longrightarrow>
      el_batch_detect J N state = (el_result (attempt J N state False), state, [client state], []))
   \<and> (\<not> tls_upstream state \<longrightarrow> attempt J N state (el_use_h2 state) = Inl e \<longrightarrow> is_transport e \<longrightarrow>
      transport_failed (attempt J N state (\<not> el_use_h2 state)) \<longrightarrow>
      (let (result, state', _, logged) = el_batch_detect J N state in
         b_syncing result = Inl e \<and> b_peers result = Inl e \<and> b_block result = Inl e
         \<and> state' = state \<and> logged = []))"
  by (auto simp: detect_tls detect_both_failed from_error_def)

definition dead_net :: net_api where
  "dead_net = \<lparr>build_request = Inr, exchange = (\<lambda>cl req. NotInTime)\<rparr>"

lemma dead_attempt [simp]: "attempt J dead_net state h2 = Inl Timeout"
  by (simp add: attempt_def el_batch_rpc_def fetch_bytes_def dead_net_def)

section \<open>The loop's invariant\<close>

lemma probe_once_frame: "\<exists>h. snd (probe_once A J N state) = state\<lparr>el_use_h2 := h\<rparr>"
proof (cases "trust_upstream (cfg state)")
  case True
  then have "snd (probe_once A J N state) = state\<lparr>el_use_h2 := el_use_h2 state\<rparr>"
    by (simp add: probe_once_def)
  then show ?thesis by blast
next
  case False
  then have "snd (probe_once A J N state) = fst (snd (el_batch_detect J N state))"
    by (simp add: probe_once_def Let_def split: prod.split)
  with detect_frame [of J N state] show ?thesis by metis
qed

lemma verdict_after_frame: "\<exists>h. verdict_after J batch state = state\<lparr>el_use_h2 := h\<rparr>"
proof -
  have "\<exists>h. state = state\<lparr>el_use_h2 := h\<rparr>"
    by (rule exI [of _ "el_use_h2 state"]) simp
  then show ?thesis
    using detect_frame by (cases batch) (simp_all add: verdict_after_def, metis)
qed

text \<open>
  What the log says at any moment: the transitions alternate, beginning with a loss of
  readiness, and the parity of their number is the readiness of the last poll.
\<close>

definition alternating :: "nat \<Rightarrow> Transition list" where
  "alternating n = map (\<lambda>i. if even i then BecameNotReady else Recovered) [0..<n]"

lemma alternating_simps [simp]:
  "alternating 0 = []"
  "alternating (Suc n) = alternating n @ [if even n then BecameNotReady else Recovered]"
  by (simp_all add: alternating_def)

definition log_ok :: "PollState \<Rightarrow> bool" where
  "log_ok ps \<longleftrightarrow> ps_log ps = alternating (length (ps_log ps))
     \<and> (case ps_prev ps of None \<Rightarrow> ps_log ps = [] | Some r \<Rightarrow> r = even (length (ps_log ps)))"

lemma log_entry_transition:
  "log_entry (readiness_transition prev rdy) =
     (case prev of
        None \<Rightarrow> if rdy then [] else [BecameNotReady]
      | Some p \<Rightarrow> if p = rdy then [] else if rdy then [Recovered] else [BecameNotReady])"
  by (auto simp: log_entry_def readiness_transition_def split: option.splits)

lemma log_ok_entry:
  assumes "log_ok ps"
  shows "log_ok (ps\<lparr>ps_log := ps_log ps @ log_entry (readiness_transition (ps_prev ps) rdy),
                    ps_prev := Some rdy\<rparr>)"
  using assms by (auto simp: log_ok_def log_entry_transition split: option.splits)

lemma log_ok_other [simp]:
  "log_ok (ps\<lparr>ps_done := d\<rparr>) = log_ok ps" "log_ok (ps\<lparr>ps_app := a\<rparr>) = log_ok ps"
  "log_ok (ps\<lparr>ps_gauges := g\<rparr>) = log_ok ps" "log_ok (ps\<lparr>ps_published := p\<rparr>) = log_ok ps"
  by (simp_all add: log_ok_def split: option.splits)

text \<open>One completed poll, in two equations: what it always does, and what the receivers decide.\<close>

lemma poll_step_polled:
  "\<not> ps_done ps \<Longrightarrow> poll_step A J (Polled N now receivers) ps =
     (let (pr, app) = probe_once A J N (ps_app ps);
          rdy = is_ready app pr now;
          ps' = ps\<lparr>ps_log := ps_log ps @ log_entry (readiness_transition (ps_prev ps) rdy),
                  ps_prev := Some rdy\<rparr>
                  \<lparr>ps_gauges := update_metrics pr (evaluate_ready app pr now) (ps_gauges ps),
                   ps_app := app\<rparr>
      in if receivers then ps'\<lparr>ps_app := app\<lparr>probe := pr\<rparr>, ps_published := ps_published ps @ [pr]\<rparr>
         else ps'\<lparr>ps_done := True\<rparr>)"
  by (simp add: poll_step_def Let_def is_ready_def split: prod.splits)

lemma log_ok_step: "log_ok ps \<Longrightarrow> log_ok (poll_step A J ev ps)"
proof (cases "ps_done ps")
  case False
  assume ok: "log_ok ps"
  show ?thesis
  proof (cases ev)
    case (Polled N now receivers)
    obtain pr app' where p: "probe_once A J N (ps_app ps) = (pr, app')" by fastforce
    show ?thesis
      unfolding Polled poll_step_polled [OF False] p prod.case Let_def
      by (simp add: log_ok_entry [OF ok])
  qed (use False ok in \<open>simp_all add: poll_step_def\<close>)
qed (simp add: poll_step_def)

lemma log_ok_start: "log_ok (poll_start app g)"
  by (simp add: log_ok_def poll_start_def)

interpretation polling: invariant_system
  "\<lambda>ps. \<exists>app g. ps = poll_start app g" "\<lambda>ps ps'. \<exists>ev. ps' = poll_step A J ev ps" log_ok
  for A J
  by unfold_locales (auto intro: log_ok_start log_ok_step simp del: log_ok_other)

lemma poll_loop_steps: "(\<lambda>ps ps'. \<exists>ev. ps' = poll_step A J ev ps)\<^sup>*\<^sup>* ps (poll_loop A J evs ps)"
  by (induction evs arbitrary: ps) (auto intro: converse_rtranclp_into_rtranclp)

text \<open>
  What the loop may change of the shared state, and which probe is being served.
\<close>

definition frame_ok :: "AppState \<Rightarrow> PollState \<Rightarrow> bool" where
  "frame_ok app ps \<longleftrightarrow>
     (\<exists>h. ps_app ps = app\<lparr>el_use_h2 := h, probe := last (probe app # ps_published ps)\<rparr>)"

lemma frame_ok_keep:
  "\<lbrakk>frame_ok app ps; \<exists>h. ps_app ps' = (ps_app ps)\<lparr>el_use_h2 := h\<rparr>;
    ps_published ps' = ps_published ps\<rbrakk> \<Longrightarrow> frame_ok app ps'"
  unfolding frame_ok_def
  by (elim exE) (rule exI [of _ "el_use_h2 (ps_app ps')"], simp)

lemma frame_ok_publish:
  "\<lbrakk>frame_ok app ps; \<exists>h. ps_app ps' = (ps_app ps)\<lparr>el_use_h2 := h, probe := pr\<rparr>;
    ps_published ps' = ps_published ps @ [pr]\<rbrakk> \<Longrightarrow> frame_ok app ps'"
  unfolding frame_ok_def by (elim exE) (intro exI, simp)

lemma frame_ok_step:
  assumes ok: "frame_ok app ps"
  shows "frame_ok app (poll_step A J ev ps)"
proof (cases "ps_done ps")
  case False
  show ?thesis
  proof (cases ev)
    case DeadlineWhileSleeping
    with False ok show ?thesis by (simp add: poll_step_def frame_ok_def)
  next
    case (DeadlineWhilePolling batch)
    with False show ?thesis
      using verdict_after_frame [of J batch "ps_app ps"]
      by (intro frame_ok_keep [OF ok]) (simp_all add: poll_step_def)
  next
    case (Polled N now receivers)
    obtain pr app' where p: "probe_once A J N (ps_app ps) = (pr, app')" by fastforce
    then obtain h where app': "app' = (ps_app ps)\<lparr>el_use_h2 := h\<rparr>"
      using probe_once_frame [of A J N "ps_app ps"] by auto
    note step = Polled poll_step_polled [OF False] p prod.case Let_def
    show ?thesis
    proof (cases receivers)
      case True
      then show ?thesis
        unfolding step by (intro frame_ok_publish [OF ok]) (auto simp: app')
    next
      case False
      then show ?thesis
        unfolding step by (intro frame_ok_keep [OF ok]) (auto simp: app')
    qed
  qed
qed (simp add: poll_step_def ok)

lemma frame_ok_start: "frame_ok app (poll_start app g)"
  unfolding frame_ok_def by (rule exI [of _ "el_use_h2 app"]) (simp add: poll_start_def)

interpretation frame: invariant_system
  "\<lambda>ps. \<exists>g. ps = poll_start app g" "\<lambda>ps ps'. \<exists>ev. ps' = poll_step A J ev ps" "frame_ok app"
  for A J app
  by unfold_locales (auto intro: frame_ok_start frame_ok_step)

text \<open>C37: readiness is logged on transitions only. However long the loop has run and whatever its
  polls returned, the logged transitions alternate, starting with the loss of readiness, and the
  readiness of the last poll is ready exactly when their number is even.\<close>

theorem log_alternates:
  "let ps = poll_loop A J evs (poll_start app g) in
     ps_log ps = alternating (length (ps_log ps))
     \<and> (case ps_prev ps of None \<Rightarrow> ps_log ps = [] | Some r \<Rightarrow> r = even (length (ps_log ps)))"
proof -
  have "log_ok (poll_loop A J evs (poll_start app g))"
    by (rule polling.inv_reachable [OF _ poll_loop_steps]) blast
  then show ?thesis by (simp add: log_ok_def Let_def)
qed

text \<open>The loop's footprint. Of the shared state it changes the transport verdict and the served
  probe and nothing else, and the probe served is the last one published (the one the cache
  was warmed with until then).\<close>

lemma poll_loop_footprint:
  "let ps = poll_loop A J evs (poll_start app g) in
     ps_app ps = app\<lparr>el_use_h2 := el_use_h2 (ps_app ps), probe := last (probe app # ps_published ps)\<rparr>"
proof -
  have "frame_ok app (poll_loop A J evs (poll_start app g))"
    by (rule frame.inv_reachable [OF _ poll_loop_steps]) blast
  then show ?thesis by (auto simp: frame_ok_def Let_def)
qed

text \<open>The traffic gate and the log agree: right after a completed poll, \<open>/readyz\<close> on the
  published state at the poll's time answers 200 exactly when the loop has recorded \<open>ready\<close>,
  and the log line of this poll says so whenever it differs from the poll before.\<close>

lemma gate_matches_log:
  assumes "\<not> ps_done ps"
  shows "let ps' = poll_step A J (Polled N now True) ps; gate = ready to_vec now (ps_app ps') head in
     (res_status gate = 200 \<longleftrightarrow> ps_prev ps' = Some True)
     \<and> (res_status gate = 503 \<longleftrightarrow> ps_prev ps' = Some False)
     \<and> ps_log ps' = ps_log ps @
         (if ps_prev ps' = ps_prev ps \<or> ps_prev ps = None \<and> res_status gate = 200 then []
          else [if res_status gate = 200 then Recovered else BecameNotReady])"
proof -
  obtain pr app' where p: "probe_once A J N (ps_app ps) = (pr, app')" by fastforce
  have gate: "res_status (ready to_vec now (app'\<lparr>probe := pr\<rparr>) head) = (if is_ready app' pr now then 200 else 503)"
    by (simp add: ready_def Let_def is_ready_def evaluate_ready_def)
  show ?thesis
    unfolding poll_step_polled [OF assms] p prod.case Let_def
    by (auto simp: gate log_entry_transition split: option.splits)
qed

section \<open>The gauges\<close>

text \<open>The gauges mirror the probe: the health gauges are 1 exactly when the layer's readiness check
  passes, a failed signal sets the peers and the distance to 0 and leaves block and slot number
  at their last value, and no other gauge is touched.\<close>

lemma gauges_mirror_probe:
  "let g' = update_metrics pr (evaluate_ready state pr now) g in
     g' (''ethryx_upstream_health_status'', ''el'') = Some (of_bool (trust_upstream (cfg state)
         \<or> el_syncing pr = Inr (Synced False)))
     \<and> g' (''ethryx_upstream_health_status'', ''cl'') = Some (of_bool (trust_upstream (cfg state)
         \<or> (\<exists>s. cl_status pr = Inr s \<and> \<not> cl_is_syncing s)))
     \<and> g' (''ethryx_upstream_peers'', ''el'') = Some (case el_peers pr of Inl _ \<Rightarrow> 0 | Inr n \<Rightarrow> n)
     \<and> g' (''ethryx_upstream_peers'', ''cl'') = Some (case cl_peers pr of Inl _ \<Rightarrow> 0 | Inr n \<Rightarrow> n)
     \<and> g' (''ethryx_upstream_sync_distance'', ''el'') = Some (case el_syncing pr of
           Inr (Syncing c h) \<Rightarrow> saturating_sub h c | _ \<Rightarrow> 0)
     \<and> g' (''ethryx_upstream_sync_distance'', ''cl'') = Some (case cl_status pr of
           Inl _ \<Rightarrow> 0 | Inr s \<Rightarrow> cl_sync_distance s)
     \<and> g' (''ethryx_upstream_slot_number'', []) = (case cl_status pr of
           Inl _ \<Rightarrow> g (''ethryx_upstream_slot_number'', []) | Inr s \<Rightarrow> Some (cl_head_slot s))
     \<and> g' (''ethryx_upstream_block_number'', []) = (case el_block pr of
           Inl _ \<Rightarrow> g (''ethryx_upstream_block_number'', []) | Inr b \<Rightarrow> Some (blk_number b))
     \<and> (fst k \<notin> {''ethryx_upstream_health_status'', ''ethryx_upstream_peers'',
           ''ethryx_upstream_sync_distance'', ''ethryx_upstream_slot_number'',
           ''ethryx_upstream_block_number''} \<longrightarrow> g' k = g k)"
proof -
  have ok: "ok (rr_el_syncing (evaluate_ready state pr now)) \<longleftrightarrow>
      trust_upstream (cfg state) \<or> el_syncing pr = Inr (Synced False)"
    "ok (rr_cl_syncing (evaluate_ready state pr now)) \<longleftrightarrow>
      trust_upstream (cfg state) \<or> (\<exists>s. cl_status pr = Inr s \<and> \<not> cl_is_syncing s)"
    by (auto simp: evaluate_ready_def Let_def check_ok)
  show ?thesis
    unfolding Let_def
    by (cases "cl_status pr"; cases "el_block pr"; intro conjI)
      (simp_all add: update_metrics_def Let_def ok)
qed

text \<open>A trusted upstream is never asked: the poll is the same whatever the network does, leaves the
  transport verdict alone, and reports both layers as synced, so the gate opens.\<close>

lemma trusted_probe:
  assumes "trust_upstream (cfg state)"
  shows "let (pr, state') = probe_once A J N state in
     probe_once A' J' N' state = (pr, state') \<and> state' = state \<and> synced pr
     \<and> is_ready state' pr now"
  using assms by (simp add: probe_once_def synced_def is_ready_iff)

end
