(* ===== verification/Websocket.thy ===== *)
theory Websocket
  imports Headers Upstream State
begin

text \<open>
  The handshake half of \<open>src/websocket.rs\<close>: recognising a WebSocket request (\<open>classify\<close>),
  checking and normalising the client's offer (\<open>response\<close>, \<open>normalize_subprotocols\<close>), building the
  upstream handshake (\<open>build_ws_request\<close>) and the upgrade itself up to the point where the tunnel
  is spawned (\<open>upgrade\<close>). The tunnel is in the theory \<open>Relay\<close>.

  tungstenite and the network are the fields of \<open>ws_api\<close>: \<open>create_response\<close> and \<open>generate_key\<close> are
  its handshake functions, \<open>dial\<close> is what \<open>connect_async_with_config\<close> under the timeout gives.
\<close>

datatype WsMode = Upgrade | ExtendedConnect

datatype Dialed = DialOk HeaderMap | DialFailed | DialTimedOut

record ws_api =
  create_response :: "Request \<Rightarrow> string + Response"
  generate_key :: string
  dial :: "Request \<Rightarrow> Dialed"

abbreviation (input) "SEC_WEBSOCKET_VERSION \<equiv> ''sec-websocket-version''"
abbreviation (input) "SEC_WEBSOCKET_KEY \<equiv> ''sec-websocket-key''"
abbreviation (input) "SEC_WEBSOCKET_PROTOCOL \<equiv> ''sec-websocket-protocol''"
abbreviation (input) "SEC_WEBSOCKET_EXTENSIONS \<equiv> ''sec-websocket-extensions''"

section \<open>Recognising a WebSocket request\<close>

text \<open>\<open>Result::ok\<close>, and \<open>str::trim\<close> on the ASCII strings \<open>to_str\<close> gives.\<close>

fun result_ok :: "'e + 'a \<Rightarrow> 'a option" where
  "result_ok (Inl e) = None"
| "result_ok (Inr x) = Some x"

definition trim_str :: "string \<Rightarrow> string" where
  "trim_str s = trim_by (\<lambda>c. code c \<in> {9, 10, 11, 12, 13, 32}) s"

lemma trim_str_eval [code]: "trim_str s = trim_by (\<lambda>c. within 9 13 (icode c) \<or> icode c = 32) s"
proof -
  have "code c \<in> {9, 10, 11, 12, 13, 32} \<longleftrightarrow> within 9 13 (icode c) \<or> icode c = 32" for c
    by (auto simp: within_def icode)
  then show ?thesis by (simp only: trim_str_def)
qed

definition header_lists_token :: "http_api \<Rightarrow> HeaderMap \<Rightarrow> HeaderName \<Rightarrow> string \<Rightarrow> bool" where
  "header_lists_token A headers name token =
     list_ex (\<lambda>v. eq_ignore_ascii_case (trim_str v) token)
       (concat (map (split CHR '','')
         (List.map_filter (\<lambda>v. result_ok (to_str A v)) (get_all headers name))))"

definition is_upgrade_request :: "http_api \<Rightarrow> Request \<Rightarrow> bool" where
  "is_upgrade_request A req \<longleftrightarrow>
     header_lists_token A (req_headers req) ''connection'' ''upgrade''
     \<and> header_lists_token A (req_headers req) ''upgrade'' ''websocket''"

definition classify :: "http_api \<Rightarrow> Request \<Rightarrow> WsMode option" where
  "classify A req =
     (if req_version req = HTTP_2 \<and> req_method req = CONNECT \<and> protocol_ext req = Some ''websocket''
      then Some ExtendedConnect
      else if is_upgrade_request A req then Some Upgrade
      else None)"

section \<open>The subprotocol offer\<close>

definition blank :: "char \<Rightarrow> bool" where
  "blank c \<longleftrightarrow> c = CHR '' '' \<or> code c = 9"

lemma blank_eval [code]: "blank c \<longleftrightarrow> c = CHR '' '' \<or> icode c = 9"
  by (auto simp: blank_def icode)

definition valid_subprotocol :: "string \<Rightarrow> bool" where
  "valid_subprotocol token \<longleftrightarrow> token \<noteq> [] \<and> list_all token_char token"

text \<open>The loop over the tokens of one field, with the buffer and the set of tokens seen.\<close>

fun take_tokens :: "string list \<Rightarrow> string \<times> string list \<Rightarrow> string + string \<times> string list" where
  "take_tokens [] acc = Inr acc"
| "take_tokens (t # ts) (protocols, seen) =
     (let token = trim_by blank t in
      if token = [] \<or> \<not> list_all token_char token \<or> token \<in> set seen
      then Inl ''invalid websocket subprotocol offer''
      else take_tokens ts
             ((if protocols \<noteq> [] then protocols @ '', '' else protocols) @ token, token # seen))"

fun take_values :: "http_api \<Rightarrow> HeaderValue list \<Rightarrow> string \<times> string list \<Rightarrow> string + string \<times> string list" where
  "take_values A [] acc = Inr acc"
| "take_values A (v # vs) acc =
     and_then (to_str A v) (\<lambda>s. and_then (take_tokens (split CHR '','' s) acc) (take_values A vs))"

definition normalize_subprotocols :: "http_api \<Rightarrow> HeaderMap \<Rightarrow> string + HeaderMap" where
  "normalize_subprotocols A headers =
     and_then (take_values A (get_all headers SEC_WEBSOCKET_PROTOCOL) ([], [])) (\<lambda>(protocols, seen).
       if protocols \<noteq> []
       then and_then (header_value A protocols) (\<lambda>v.
              Inr (insert_header headers SEC_WEBSOCKET_PROTOCOL v))
       else Inr headers)"

section \<open>Answering the handshake\<close>

text \<open>
  \<open>WsMode::response\<close> rewrites the request it is given in place; the result carries the rewritten
  request. On an error the caller drops the request.
\<close>

definition take_key :: "WsMode \<Rightarrow> Request \<Rightarrow> string + HeaderValue option" where
  "take_key mode req =
     (if mode = Upgrade then
        if req_version req \<noteq> HTTP_11 then Inl ''invalid websocket HTTP version''
        else (case get_all (req_headers req) SEC_WEBSOCKET_KEY of
                [] \<Rightarrow> Inl ''invalid websocket key count''
              | [k] \<Rightarrow> Inr (Some k)
              | _ \<Rightarrow> Inl ''invalid websocket key count'')
      else Inr None)"

definition canonical_headers ::
  "http_api \<Rightarrow> HeaderValue option \<Rightarrow> HeaderValue option \<Rightarrow> HeaderMap \<Rightarrow> HeaderMap" where
  "canonical_headers A key protocol headers =
     (let h = strip_hop_by_hop A headers;
          h = remove_header h SEC_WEBSOCKET_EXTENSIONS;
          h = remove_header h SEC_WEBSOCKET_KEY;
          h = insert_header h ''connection'' ''Upgrade'';
          h = insert_header h ''upgrade'' ''websocket'';
          h = insert_header h SEC_WEBSOCKET_VERSION ''13'';
          h = (case key of Some k \<Rightarrow> insert_header h SEC_WEBSOCKET_KEY k | None \<Rightarrow> h);
          h = (case protocol of Some p \<Rightarrow> insert_header h SEC_WEBSOCKET_PROTOCOL p | None \<Rightarrow> h)
      in h)"

definition response :: "http_api \<Rightarrow> ws_api \<Rightarrow> WsMode \<Rightarrow> Request \<Rightarrow> string + Request \<times> Response" where
  "response A W mode req =
     (if get_all (req_headers req) SEC_WEBSOCKET_VERSION \<noteq> [''13'']
      then Inl ''invalid websocket version''
      else and_then (take_key mode req) (\<lambda>key.
           and_then (normalize_subprotocols A (req_headers req)) (\<lambda>headers.
             let protocol = get_header headers SEC_WEBSOCKET_PROTOCOL;
                 req = req\<lparr>req_headers := canonical_headers A key protocol headers\<rparr>
             in case mode of
                  Upgrade \<Rightarrow> and_then (create_response W req) (\<lambda>resp. Inr (req, resp))
                | ExtendedConnect \<Rightarrow>
                    Inr (req, \<lparr>res_status = OK_200, res_headers = empty_headers, res_body = Full []\<rparr>))))"

section \<open>The upstream handshake\<close>

definition build_ws_request :: "http_api \<Rightarrow> ws_api \<Rightarrow> Request \<Rightarrow> Uri \<Rightarrow> WsMode \<Rightarrow> string + Request" where
  "build_ws_request A W req base mode =
     and_then (upstream_uri A base (req_uri req) None) (\<lambda>uri.
     and_then (case authority uri of
                 None \<Rightarrow> Inr (req_headers req)
               | Some auth \<Rightarrow> and_then (header_value A auth) (\<lambda>v.
                   Inr (insert_header (req_headers req) ''host'' v))) (\<lambda>headers.
     and_then (if mode = ExtendedConnect
               then and_then (header_value A (generate_key W)) (\<lambda>k.
                   Inr (insert_header headers SEC_WEBSOCKET_KEY k))
               else Inr headers) (\<lambda>headers.
     Inr (req\<lparr>req_headers := headers, req_uri := uri, req_method := GET,
             req_version := HTTP_11, protocol_ext := None\<rparr>))))"

record WebSocketConfig =
  read_buffer_size :: nat
  write_buffer_size :: nat
  max_message_size :: "nat option"
  max_frame_size :: "nat option"

definition get_ws_config :: WebSocketConfig where
  "get_ws_config = \<lparr>read_buffer_size = 8 * 1024, write_buffer_size = 16 * 1024,
     max_message_size = Some (64 * 1024 * 1024), max_frame_size = Some (16 * 1024 * 1024)\<rparr>"

text \<open>
  What \<open>upgrade\<close> leaves behind: the answer to the client, the handshake sent upstream if there was
  one, and the tunnel task spawned, with its mock switch and the settings of both sockets.
\<close>

record Tunnel =
  tunnel_mock :: bool
  tunnel_config :: WebSocketConfig

record Upgraded =
  up_response :: Response
  up_dialed :: "Request option"
  up_tunnel :: "Tunnel option"

definition upgrade ::
  "http_api \<Rightarrow> ws_api \<Rightarrow> Request \<Rightarrow> WsMode \<Rightarrow> Uri \<Rightarrow> bool \<Rightarrow> string + Upgraded" where
  "upgrade A W req mode base mock_enabled =
     (case response A W mode (req\<lparr>req_body := Full []\<rparr>) of
        Inl _ \<Rightarrow> Inr \<lparr>up_response = text_response BAD_REQUEST ''invalid websocket upgrade'',
                     up_dialed = None, up_tunnel = None\<rparr>
      | Inr (req, resp) \<Rightarrow>
          and_then (build_ws_request A W req base mode) (\<lambda>ws_req.
            let refuse = (\<lambda>msg. Inr \<lparr>up_response = text_response BAD_GATEWAY msg,
                                     up_dialed = Some ws_req, up_tunnel = None\<rparr>)
            in case dial W ws_req of
                 DialFailed \<Rightarrow> refuse ''upstream ws connect failed''
               | DialTimedOut \<Rightarrow> refuse ''upstream ws connect timed out''
               | DialOk upstream_headers \<Rightarrow>
                   if contains_key upstream_headers SEC_WEBSOCKET_EXTENSIONS
                      \<or> length (get_all upstream_headers SEC_WEBSOCKET_PROTOCOL) > 1
                   then refuse ''invalid upstream websocket negotiation''
                   else
                     (let resp =
                        (case get_header upstream_headers SEC_WEBSOCKET_PROTOCOL of
                           Some protocol \<Rightarrow> resp\<lparr>res_headers :=
                             insert_header (res_headers resp) SEC_WEBSOCKET_PROTOCOL protocol\<rparr>
                         | None \<Rightarrow> resp)
                      in Inr \<lparr>up_response = resp\<lparr>res_body := Full []\<rparr>, up_dialed = Some ws_req,
                              up_tunnel = Some \<lparr>tunnel_mock = mock_enabled,
                                                tunnel_config = get_ws_config\<rparr>\<rparr>)))"

lemma upgrade_tunnel:
  assumes "upgrade A W req mode base mock = Inr up" and "up_tunnel up = Some t"
  shows "tunnel_mock t = mock"
proof (cases "response A W mode (req\<lparr>req_body := Full []\<rparr>)")
  case (Inr x)
  obtain req' resp where x: "x = (req', resp)" by fastforce
  from assms Inr x obtain r where "build_ws_request A W req' base mode = Inr r"
    by (auto simp: upgrade_def and_then_Inr_iff)
  with assms Inr x show ?thesis
    by (cases "dial W r") (auto simp: upgrade_def Let_def split: if_splits)
qed (use assms in \<open>auto simp: upgrade_def\<close>)

section \<open>The offer as a list of tokens\<close>

definition offered :: "HeaderValue list \<Rightarrow> string list" where
  "offered vs = map (trim_by blank) (concat (map (split CHR '','') vs))"

definition valid_offer :: "HeaderValue list \<Rightarrow> bool" where
  "valid_offer vs \<longleftrightarrow>
     list_all (list_all visible_ascii) vs \<and> list_all valid_subprotocol (offered vs) \<and> distinct (offered vs)"

lemma join_eq_Nil: "[] \<notin> set xs \<Longrightarrow> join sep xs = [] \<longleftrightarrow> xs = []"
  by (induction sep xs rule: join.induct) auto

lemma join_extend:
  "[] \<notin> set xs \<Longrightarrow>
     (if join sep xs \<noteq> [] then join sep xs @ sep else join sep xs) @ x = join sep (xs @ [x])"
  by (cases "xs = []") (simp_all add: join_eq_Nil join_snoc)

lemma take_tokens_Inr:
  "list_all valid_subprotocol seen \<Longrightarrow>
   take_tokens ts (join '', '' (rev seen), seen) = Inr (p, s) \<longleftrightarrow>
     (let toks = map (trim_by blank) ts in
        list_all valid_subprotocol toks \<and> distinct toks \<and> set toks \<inter> set seen = {}
        \<and> p = join '', '' (rev s) \<and> s = rev toks @ seen)"
proof (induction ts arbitrary: seen)
  case Nil
  then show ?case by auto
next
  case (Cons t ts)
  let ?tok = "trim_by blank t"
  have ne: "[] \<notin> set (rev seen)"
    using Cons.prems by (auto simp: list_all_iff valid_subprotocol_def)
  show ?case
  proof (cases "valid_subprotocol ?tok \<and> ?tok \<notin> set seen")
    case False
    then show ?thesis by (auto simp: valid_subprotocol_def Let_def)
  next
    case True
    then have "take_tokens (t # ts) (join '', '' (rev seen), seen) =
        take_tokens ts (join '', '' (rev (?tok # seen)), ?tok # seen)"
      using join_extend [OF ne, of "'', ''" ?tok] by (auto simp: valid_subprotocol_def Let_def)
    moreover have "list_all valid_subprotocol (?tok # seen)" using True Cons.prems by simp
    note Cons.IH [OF this]
    ultimately show ?thesis using True by (auto simp: Let_def simp del: take_tokens.simps)
  qed
qed

lemma take_values_Inr:
  assumes "to_str_law A"
  shows "list_all valid_subprotocol seen \<Longrightarrow>
   take_values A vs (join '', '' (rev seen), seen) = Inr (p, s) \<longleftrightarrow>
     list_all (list_all visible_ascii) vs \<and> list_all valid_subprotocol (offered vs)
     \<and> distinct (offered vs) \<and> set (offered vs) \<inter> set seen = {}
     \<and> p = join '', '' (rev s) \<and> s = rev (offered vs) @ seen"
proof (induction vs arbitrary: seen)
  case Nil
  then show ?case by (auto simp: offered_def)
next
  case (Cons v vs)
  let ?toks = "map (trim_by blank) (split CHR '','' v)"
  have off: "offered (v # vs) = ?toks @ offered vs" by (simp add: offered_def)
  show ?case
  proof (cases "list_all visible_ascii v")
    case False
    with assms obtain e where "to_str A v = Inl e" unfolding to_str_law_def by meson
    with False show ?thesis by simp
  next
    case True
    with assms have v: "to_str A v = Inr v" by (simp add: to_str_law_def)
    have "take_values A (v # vs) (join '', '' (rev seen), seen) = Inr (p, s) \<longleftrightarrow>
        list_all valid_subprotocol ?toks \<and> distinct ?toks \<and> set ?toks \<inter> set seen = {}
        \<and> take_values A vs (join '', '' (rev (rev ?toks @ seen)), rev ?toks @ seen) = Inr (p, s)"
      using take_tokens_Inr [OF Cons.prems, of "split CHR '','' v"]
      by (auto simp: v and_then_Inr_iff Let_def)
    moreover have "list_all valid_subprotocol ?toks \<Longrightarrow>
        list_all valid_subprotocol (rev ?toks @ seen)"
      using Cons.prems by simp
    ultimately show ?thesis
      using Cons.IH [of "rev ?toks @ seen"] True
      by (simp only: off) auto
  qed
qed

lemma take_values_start:
  "to_str_law A \<Longrightarrow> take_values A vs ([], []) = Inr (p, s) \<longleftrightarrow>
     valid_offer vs \<and> p = join '', '' (offered vs) \<and> s = rev (offered vs)"
  using take_values_Inr [of A "[]" vs p s] by (auto simp: valid_offer_def)

lemma offered_eq_Nil [simp]: "offered vs = [] \<longleftrightarrow> vs = []"
  by (cases vs) (simp_all add: offered_def)

lemma token_visible: "token_char c \<Longrightarrow> visible_ascii c \<and> c \<noteq> CHR '','' \<and> \<not> blank c"
  by (auto simp: token_char_def visible_ascii_def ascii_defs blank_def)

lemma set_join: "set (join sep ts) \<subseteq> set sep \<union> (\<Union>t \<in> set ts. set t)"
  by (induction sep ts rule: join.induct) auto

lemma visible_join:
  assumes "list_all valid_subprotocol ts"
  shows "list_all visible_ascii (join '', '' ts)"
  unfolding list_all_iff
proof
  fix c
  assume "c \<in> set (join '', '' ts)"
  with set_join [of "'', ''" ts] consider "c \<in> set '', ''" | t where "t \<in> set ts" "c \<in> set t"
    by blast
  then show "visible_ascii c"
  proof cases
    case 1
    then show ?thesis by (auto simp: visible_ascii_def)
  next
    case 2
    with assms show ?thesis
      using token_visible by (simp add: valid_subprotocol_def list_all_iff)
  qed
qed

lemma normalize_Inr:
  assumes laws: "to_str_law A" "header_value_law A"
  shows "normalize_subprotocols A h = Inr h' \<longleftrightarrow>
     (let vs = get_all h SEC_WEBSOCKET_PROTOCOL in
      valid_offer vs \<and> h' = (if vs = [] then h
        else insert_header h SEC_WEBSOCKET_PROTOCOL (join '', '' (offered vs))))"
proof -
  let ?vs = "get_all h SEC_WEBSOCKET_PROTOCOL"
  have ne: "join '', '' (offered ?vs) = [] \<longleftrightarrow> ?vs = []" if "valid_offer ?vs"
    using that join_eq_Nil [of "offered ?vs"]
    by (auto simp: valid_offer_def list_all_iff valid_subprotocol_def)
  have hv: "header_value A (join '', '' (offered ?vs)) = Inr (join '', '' (offered ?vs))"
    if "valid_offer ?vs"
    using that laws(2) visible_join by (auto simp: valid_offer_def header_value_law_def)
  show ?thesis
  proof (cases "take_values A ?vs ([], [])")
    case (Inl e)
    then have "\<not> valid_offer ?vs"
      using take_values_start [OF laws(1), of ?vs] by force
    with Inl show ?thesis by (simp add: normalize_subprotocols_def)
  next
    case (Inr ps)
    obtain p s where "ps = (p, s)" by fastforce
    with Inr take_values_start [OF laws(1), of ?vs p s] ne hv show ?thesis
      by (auto simp: normalize_subprotocols_def Let_def)
  qed
qed

text \<open>Reading a normalised offer again gives the same tokens.\<close>

lemma trim_by_token: "list_all (\<lambda>c. \<not> p c) t \<Longrightarrow> trim_by p t = t"
proof -
  have id: "dropWhile p t = t" if "list_all (\<lambda>c. \<not> p c) t" for t
    using that by (cases t) auto
  assume "list_all (\<lambda>c. \<not> p c) t"
  then show ?thesis
    using id [of t] id [of "rev t"] by (simp add: trim_by_def trim_start_by_def trim_end_by_def list_all_iff)
qed

lemma valid_subprotocol_trim:
  "valid_subprotocol t \<Longrightarrow> trim_by blank t = t \<and> trim_by blank (CHR '' '' # t) = t \<and> CHR '','' \<notin> set t"
proof -
  assume v: "valid_subprotocol t"
  then have "list_all (\<lambda>c. \<not> blank c) t" "CHR '','' \<notin> set t"
    by (auto simp: valid_subprotocol_def list_all_iff dest: token_visible)
  moreover have "trim_by blank (CHR '' '' # t) = trim_by blank t"
    by (simp add: trim_by_def trim_start_by_def blank_def)
  ultimately show ?thesis using trim_by_token by metis
qed

lemma offered_join:
  "list_all valid_subprotocol ts \<Longrightarrow> ts \<noteq> [] \<Longrightarrow>
     map (trim_by blank) (split CHR '','' (join '', '' ts)) = ts
     \<and> map (trim_by blank) (split CHR '','' (CHR '' '' # join '', '' ts)) = ts"
proof (induction "'', ''" ts rule: join.induct)
  case (3 x y ys)
  have "split CHR '','' (join '', '' (x # y # ys)) = x # split CHR '','' (CHR '' '' # join '', '' (y # ys))"
    and "split CHR '','' (CHR '' '' # join '', '' (x # y # ys)) =
           (CHR '' '' # x) # split CHR '','' (CHR '' '' # join '', '' (y # ys))"
    using 3 valid_subprotocol_trim [of x]
      split_sep [of "CHR '',''" x "CHR '' '' # join '', '' (y # ys)"]
      split_sep [of "CHR '',''" "CHR '' '' # x" "CHR '' '' # join '', '' (y # ys)"]
    by auto
  with 3 valid_subprotocol_trim [of x] show ?case by simp
next
  case (2 x)
  then show ?case
    using valid_subprotocol_trim [of x] split_no_sep [of "CHR '',''" x]
      split_no_sep [of "CHR '',''" "CHR '' '' # x"] by auto
qed simp

section \<open>Properties\<close>

text \<open>C32: the subprotocol offer. Normalising succeeds exactly when every field is visible ASCII and
  its comma-separated, blank-trimmed tokens are non-empty RFC tokens with no duplicate over all
  fields; it then leaves one field with all tokens in offer order, or nothing at all when there
  was no offer, and no other header changes.\<close>

theorem normalize_subprotocols_exact:
  assumes "to_str_law A" "header_value_law A"
  shows "normalize_subprotocols A h = Inr h' \<longleftrightarrow>
     (let vs = get_all h ''sec-websocket-protocol'' in
      list_all (list_all visible_ascii) vs \<and> list_all valid_subprotocol (offered vs)
      \<and> distinct (offered vs)
      \<and> h' = h(''sec-websocket-protocol'' := (if vs = [] then [] else [join '', '' (offered vs)])))"
  using normalize_Inr [OF assms, of h h']
  by (auto simp: Let_def valid_offer_def insert_header_def get_all_def)

definition sample_offer :: HeaderMap where
  "sample_offer = empty_headers(''sec-websocket-protocol'' := [''chat , v2.json'', ''graphql-ws''])"

lemma sample_offer_tokens:
  "offered [''chat , v2.json'', ''graphql-ws''] = [''chat'', ''v2.json'', ''graphql-ws'']"
  "list_all (list_all visible_ascii) [''chat , v2.json'', ''graphql-ws'']"
  "list_all valid_subprotocol [''chat'', ''v2.json'', ''graphql-ws'']"
  by code_simp+

lemma sample_offer_normalized:
  "normalize_subprotocols rfc_api sample_offer =
     Inr (sample_offer(''sec-websocket-protocol'' := [''chat, v2.json, graphql-ws'']))"
  using sample_offer_tokens normalize_Inr [OF rfc_to_str_law rfc_header_value_law,
      of sample_offer "sample_offer(''sec-websocket-protocol'' := [''chat, v2.json, graphql-ws''])"]
  by (simp add: sample_offer_def get_all_def Let_def valid_offer_def insert_header_def)

theorem normalize_subprotocols_exact_witness:
  "normalize_subprotocols rfc_api sample_offer =
     Inr (sample_offer(''sec-websocket-protocol'' := [''chat, v2.json, graphql-ws'']))"
  using sample_offer_tokens normalize_subprotocols_exact [OF rfc_to_str_law rfc_header_value_law,
      of sample_offer "sample_offer(''sec-websocket-protocol'' := [''chat, v2.json, graphql-ws''])"]
  by (simp add: sample_offer_def get_all_def Let_def)

text \<open>C33: a normalised offer is a fixed point and reads back as the offer it came from: the next hop,
  which looks at one field only, sees every token the client offered, in the client's order.\<close>

theorem normalize_subprotocols_roundtrip:
  assumes "to_str_law A" "header_value_law A" and "normalize_subprotocols A h = Inr h'"
  shows "normalize_subprotocols A h' = Inr h'
     \<and> offered (get_all h' ''sec-websocket-protocol'') = offered (get_all h ''sec-websocket-protocol'')
     \<and> length (get_all h' ''sec-websocket-protocol'') \<le> 1"
proof -
  let ?vs = "get_all h SEC_WEBSOCKET_PROTOCOL" and ?vs' = "get_all h' SEC_WEBSOCKET_PROTOCOL"
  from normalize_Inr [OF assms(1,2), of h h'] assms(3)
  have v: "valid_offer ?vs" and h': "?vs' = (if ?vs = [] then [] else [join '', '' (offered ?vs)])"
    by (auto simp: Let_def get_all_def insert_header_def)
  have same: "offered ?vs' = offered ?vs"
    using offered_join [of "offered ?vs"] v h' by (auto simp: valid_offer_def offered_def [of "[x]" for x])
  moreover have "valid_offer ?vs'"
    using v same h' visible_join by (auto simp: valid_offer_def)
  moreover have "h'(SEC_WEBSOCKET_PROTOCOL := ?vs') = h'"
    by (simp add: get_all_def)
  ultimately show ?thesis
    using normalize_Inr [OF assms(1,2), of h' h'] h'
    by (auto simp: Let_def insert_header_def split: if_splits)
qed

theorem normalize_subprotocols_roundtrip_witness:
  "get_all (sample_offer(''sec-websocket-protocol'' := [''chat, v2.json, graphql-ws''])) ''sec-websocket-protocol''
     = [''chat, v2.json, graphql-ws'']
   \<and> offered [''chat, v2.json, graphql-ws''] = offered (get_all sample_offer ''sec-websocket-protocol'')"
proof -
  let ?h = "sample_offer(''sec-websocket-protocol'' := [''chat, v2.json, graphql-ws''])"
  have "normalize_subprotocols rfc_api sample_offer = Inr ?h" by (rule sample_offer_normalized)
  from normalize_subprotocols_roundtrip [OF rfc_to_str_law rfc_header_value_law this]
  show ?thesis by (simp add: get_all_def)
qed

section \<open>The canonical handshake\<close>

lemma canonical_headers_apply:
  "canonical_headers A key protocol h n =
     (if n = SEC_WEBSOCKET_PROTOCOL \<and> protocol \<noteq> None then [the protocol]
      else if n = SEC_WEBSOCKET_KEY then (case key of Some k \<Rightarrow> [k] | None \<Rightarrow> [])
      else if n = SEC_WEBSOCKET_VERSION then [''13'']
      else if n = ''upgrade'' then [''websocket'']
      else if n = ''connection'' then [''Upgrade'']
      else if n = SEC_WEBSOCKET_EXTENSIONS then []
      else strip_hop_by_hop A h n)"
  by (simp add: canonical_headers_def Let_def insert_header_def remove_header_def split: option.split)

lemma take_key_Inr:
  "take_key mode req = Inr key \<longleftrightarrow>
     (if mode = Upgrade
      then req_version req = HTTP_11
        \<and> (\<exists>k. get_all (req_headers req) SEC_WEBSOCKET_KEY = [k] \<and> key = Some k)
      else key = None)"
  by (auto simp: take_key_def split: list.splits)

lemma normalized_options:
  "h' = (if vs = [] then h else insert_header h SEC_WEBSOCKET_PROTOCOL p) \<Longrightarrow>
     connection_options A h' = connection_options A h"
  by (simp add: connection_options_def get_all_def insert_header_def)

lemma response_Inr:
  assumes laws: "to_str_law A" "header_value_law A"
  shows "response A W mode req = Inr (req', resp) \<longleftrightarrow>
    (\<exists>key h protocol. get_all (req_headers req) SEC_WEBSOCKET_VERSION = [''13'']
       \<and> take_key mode req = Inr key \<and> normalize_subprotocols A (req_headers req) = Inr h
       \<and> protocol = get_header h SEC_WEBSOCKET_PROTOCOL
       \<and> req' = req\<lparr>req_headers := canonical_headers A key protocol h\<rparr>
       \<and> (case mode of
            Upgrade \<Rightarrow> create_response W req' = Inr resp
          | ExtendedConnect \<Rightarrow> resp = \<lparr>res_status = 200, res_headers = empty_headers, res_body = Full []\<rparr>))"
  by (cases mode) (auto simp: response_def and_then_Inr_iff Let_def)

definition handshake_headers :: "http_api \<Rightarrow> WsMode \<Rightarrow> HeaderMap \<Rightarrow> HeaderName \<Rightarrow> HeaderValue list" where
  "handshake_headers A mode h n =
     (if n = ''connection'' then [''Upgrade'']
      else if n = ''upgrade'' then [''websocket'']
      else if n = ''sec-websocket-version'' then [''13'']
      else if n = ''sec-websocket-key'' then (if mode = Upgrade then h n else [])
      else if n = ''sec-websocket-extensions'' then []
      else if n = ''sec-websocket-protocol'' then (if h n = [] then [] else [join '', '' (offered (h n))])
      else if n \<in> set HOP_BY_HOP \<or> n \<in> set (connection_options A h) then []
      else h n)"

lemma response_headers:
  assumes laws: "to_str_law A" "header_value_law A"
    and r: "response A W mode req = Inr (req', resp)"
  shows "req' = req\<lparr>req_headers := handshake_headers A mode (req_headers req)\<rparr>"
    and "get_all (req_headers req) SEC_WEBSOCKET_VERSION = [''13'']"
    and "valid_offer (get_all (req_headers req) SEC_WEBSOCKET_PROTOCOL)"
    and "mode = Upgrade \<longrightarrow> req_version req = HTTP_11 \<and> length (get_all (req_headers req) SEC_WEBSOCKET_KEY) = 1"
proof -
  let ?h = "req_headers req"
  let ?vs = "get_all ?h SEC_WEBSOCKET_PROTOCOL"
  from r response_Inr [OF laws] obtain key h' where
    v: "get_all ?h SEC_WEBSOCKET_VERSION = [''13'']" and key: "take_key mode req = Inr key"
    and n: "normalize_subprotocols A ?h = Inr h'"
    and req': "req' = req\<lparr>req_headers := canonical_headers A key (get_header h' SEC_WEBSOCKET_PROTOCOL) h'\<rparr>"
    by blast
  from n normalize_Inr [OF laws] have offer: "valid_offer ?vs"
    and h': "h' = (if ?vs = [] then ?h
       else insert_header ?h SEC_WEBSOCKET_PROTOCOL (join '', '' (offered ?vs)))"
    by (auto simp: Let_def)
  have opts: "connection_options A h' = connection_options A ?h"
    by (rule normalized_options [OF h'])
  have prot: "get_header h' SEC_WEBSOCKET_PROTOCOL =
      (if ?vs = [] then None else Some (join '', '' (offered ?vs)))"
    by (simp add: h' get_header_def insert_header_def get_all_def)
  have other: "h' m = ?h m" if "m \<noteq> SEC_WEBSOCKET_PROTOCOL" for m
    using that by (simp add: h' insert_header_def)
  have k: "(case key of Some k \<Rightarrow> [k] | None \<Rightarrow> []) = (if mode = Upgrade then ?h SEC_WEBSOCKET_KEY else [])"
    using key by (auto simp: take_key_Inr get_all_def split: if_splits)
  have "canonical_headers A key (get_header h' SEC_WEBSOCKET_PROTOCOL) h' m
      = handshake_headers A mode ?h m" for m
  proof (cases "m = SEC_WEBSOCKET_PROTOCOL")
    case True
    then show ?thesis
      unfolding canonical_headers_apply handshake_headers_def prot
      by (simp add: hop.strip_keeps strip_hop_by_hop_apply h' get_all_def)
  next
    case False
    then show ?thesis
      unfolding canonical_headers_apply handshake_headers_def k
      by (simp add: strip_hop_by_hop_apply opts other)
  qed
  then have "canonical_headers A key (get_header h' SEC_WEBSOCKET_PROTOCOL) h' = handshake_headers A mode ?h"
    by (rule ext)
  with req' show "req' = req\<lparr>req_headers := handshake_headers A mode ?h\<rparr>" by simp
  show "get_all ?h SEC_WEBSOCKET_VERSION = [''13'']" by (rule v)
  show "valid_offer ?vs" by (rule offer)
  show "mode = Upgrade \<longrightarrow> req_version req = HTTP_11 \<and> length (get_all ?h SEC_WEBSOCKET_KEY) = 1"
    using key by (auto simp: take_key_Inr)
qed

lemma build_ws_request_Inr:
  assumes "build_ws_request A W req base mode = Inr r"
  obtains uri h h' where "upstream_uri A base (req_uri req) None = Inr uri"
    and "case authority uri of
           None \<Rightarrow> h = req_headers req
         | Some a \<Rightarrow> \<exists>v. header_value A a = Inr v \<and> h = insert_header (req_headers req) ''host'' v"
    and "if mode = ExtendedConnect
         then \<exists>k. header_value A (generate_key W) = Inr k \<and> h' = insert_header h SEC_WEBSOCKET_KEY k
         else h' = h"
    and "r = req\<lparr>req_headers := h', req_uri := uri, req_method := GET, req_version := HTTP_11,
                 protocol_ext := None\<rparr>"
proof -
  from assms obtain uri h h' where "upstream_uri A base (req_uri req) None = Inr uri"
    and h: "(case authority uri of None \<Rightarrow> Inr (req_headers req)
       | Some auth \<Rightarrow> and_then (header_value A auth) (\<lambda>v.
           Inr (insert_header (req_headers req) ''host'' v))) = Inr h"
    and h': "(if mode = ExtendedConnect
       then and_then (header_value A (generate_key W)) (\<lambda>k. Inr (insert_header h SEC_WEBSOCKET_KEY k))
       else Inr h) = Inr h'"
    and "r = req\<lparr>req_headers := h', req_uri := uri, req_method := GET, req_version := HTTP_11,
                 protocol_ext := None\<rparr>"
    unfolding build_ws_request_def and_then_Inr_iff by blast
  then show thesis
    by (intro that [of uri h h']) (auto simp: and_then_Inr_iff split: option.splits if_splits)
qed

lemma upgrade_dialed:
  "upgrade A W req mode base mock = Inr up \<Longrightarrow> up_dialed up = Some r \<Longrightarrow>
     \<exists>req' resp. response A W mode (req\<lparr>req_body := Full []\<rparr>) = Inr (req', resp)
       \<and> build_ws_request A W req' base mode = Inr r"
proof -
  assume up: "upgrade A W req mode base mock = Inr up" and d: "up_dialed up = Some r"
  then obtain req' resp where resp: "response A W mode (req\<lparr>req_body := Full []\<rparr>) = Inr (req', resp)"
    by (cases "response A W mode (req\<lparr>req_body := Full []\<rparr>)") (auto simp: upgrade_def)
  with up obtain r' where b: "build_ws_request A W req' base mode = Inr r'"
    by (auto simp: upgrade_def and_then_Inr_iff)
  have "up_dialed up = Some r'"
    using up resp b
    by (cases "dial W r'") (auto simp: upgrade_def Let_def split: if_splits)
  with d b resp show "\<exists>req' resp. response A W mode (req\<lparr>req_body := Full []\<rparr>) = Inr (req', resp)
       \<and> build_ws_request A W req' base mode = Inr r" by auto
qed

text \<open>C30: what reaches the upstream. Whatever the client sent, the handshake dialled upstream is an
  HTTP/1.1 GET without body or extensions at the composed upstream URI, offers exactly the
  client's subprotocols in order, offers no WebSocket extension, carries the canonical
  Connection, Upgrade and version fields, the upstream's own host, the client's key (or, over
  HTTP/2, a fresh one), and of the client's other headers exactly those that are neither
  hop-by-hop nor nominated by Connection.\<close>

theorem dialed_handshake:
  assumes laws: "to_str_law A" "header_value_law A"
    and up: "upgrade A W req mode base mock = Inr up" and dialed: "up_dialed up = Some r"
  shows "upstream_uri A base (req_uri req) None = Inr (req_uri r)
     \<and> req_method r = GET \<and> req_version r = HTTP_11 \<and> protocol_ext r = None \<and> req_body r = Full []
     \<and> offered (req_headers r ''sec-websocket-protocol'')
         = offered (req_headers req ''sec-websocket-protocol'')
     \<and> req_headers r n =
         (if n = ''host'' \<and> authority (req_uri r) \<noteq> None
          then [projr (header_value A (the (authority (req_uri r))))]
          else if n = ''sec-websocket-key'' \<and> mode = ExtendedConnect
          then [projr (header_value A (generate_key W))]
          else handshake_headers A mode (req_headers req) n)"
proof -
  let ?vs = "req_headers req ''sec-websocket-protocol''"
  from upgrade_dialed [OF up dialed] obtain req' resp where
    resp: "response A W mode (req\<lparr>req_body := Full []\<rparr>) = Inr (req', resp)"
    and b: "build_ws_request A W req' base mode = Inr r" by blast
  note rh = response_headers [OF laws resp]
  from rh(1) have req': "req' = req\<lparr>req_body := Full [], req_headers := handshake_headers A mode (req_headers req)\<rparr>"
    by simp
  obtain uri h h' where u: "upstream_uri A base (req_uri req') None = Inr uri"
    and h: "case authority uri of None \<Rightarrow> h = req_headers req'
       | Some a \<Rightarrow> \<exists>v. header_value A a = Inr v \<and> h = insert_header (req_headers req') ''host'' v"
    and h': "if mode = ExtendedConnect
       then \<exists>k. header_value A (generate_key W) = Inr k \<and> h' = insert_header h SEC_WEBSOCKET_KEY k
       else h' = h"
    and r: "r = req'\<lparr>req_headers := h', req_uri := uri, req_method := GET, req_version := HTTP_11,
                     protocol_ext := None\<rparr>"
    by (rule build_ws_request_Inr [OF b])
  have head: "req_headers r m =
      (if m = ''host'' \<and> authority uri \<noteq> None then [projr (header_value A (the (authority uri)))]
       else if m = SEC_WEBSOCKET_KEY \<and> mode = ExtendedConnect then [projr (header_value A (generate_key W))]
       else handshake_headers A mode (req_headers req) m)" for m
    using h h' r req' by (auto simp: insert_header_def split: option.splits if_splits)
  have "offered (req_headers r SEC_WEBSOCKET_PROTOCOL) = offered ?vs"
  proof (cases "?vs = []")
    case False
    have "list_all valid_subprotocol (offered ?vs)" using rh(3) by (simp add: valid_offer_def get_all_def)
    with False have "offered [join '', '' (offered ?vs)] = offered ?vs"
      using offered_join [of "offered ?vs"] by (simp add: offered_def [of "[x]" for x])
    with False show ?thesis by (simp add: head handshake_headers_def)
  qed (simp add: head handshake_headers_def)
  moreover have "req_uri r = uri \<and> req_method r = GET \<and> req_version r = HTTP_11
      \<and> protocol_ext r = None \<and> req_body r = Full []"
    by (simp add: r req')
  ultimately show ?thesis
    using u head [of n] by (simp add: req' del: not_None_eq)
qed

text \<open>
  Documented behaviour of \<open>create_response\<close>: it answers 101.
\<close>

definition create_response_law :: "ws_api \<Rightarrow> bool" where
  "create_response_law W \<longleftrightarrow>
     (\<forall>req. case create_response W req of Inl _ \<Rightarrow> True | Inr resp \<Rightarrow> res_status resp = 101)"

lemma response_status:
  "create_response_law W \<Longrightarrow> response A W mode req = Inr (req', resp) \<Longrightarrow>
     res_status resp = (if mode = Upgrade then 101 else 200)"
  by (cases mode)
    (auto simp: response_def and_then_Inr_iff Let_def create_response_law_def
       split: if_splits sum.splits)

definition acceptable :: "HeaderMap \<Rightarrow> bool" where
  "acceptable hs \<longleftrightarrow> hs ''sec-websocket-extensions'' = [] \<and> length (hs ''sec-websocket-protocol'') \<le> 1"

text \<open>C31: the outcomes of an upgrade. A handshake the program refuses is answered 400, nothing is
  dialled and no tunnel is left. When the request for the upstream cannot be built, the error is
  passed on. Otherwise the upstream is dialled once, with that request, and the client is switched
  (101, or 200 over HTTP/2) exactly when the upstream accepted with no extension and at most one
  subprotocol, which is then the one the client is told; every other dial is answered 502. A tunnel
  is spawned exactly for a switched client, with the mock setting it was given.\<close>

theorem upgrade_outcomes:
  assumes laws: "create_response_law W"
  shows "case response A W mode (req\<lparr>req_body := Full []\<rparr>) of
     Inl _ \<Rightarrow>
       (\<exists>up. upgrade A W req mode base mock = Inr up \<and> res_status (up_response up) = 400
          \<and> up_dialed up = None \<and> up_tunnel up = None)
   | Inr (accepted, _) \<Rightarrow>
       (case build_ws_request A W accepted base mode of
          Inl e \<Rightarrow> upgrade A W req mode base mock = Inl e
        | Inr r \<Rightarrow>
            (\<exists>up. upgrade A W req mode base mock = Inr up \<and> up_dialed up = Some r
               \<and> (case dial W r of
                    DialOk hs \<Rightarrow>
                      if acceptable hs
                      then res_status (up_response up) = (if mode = Upgrade then 101 else 200)
                         \<and> up_tunnel up = Some \<lparr>tunnel_mock = mock, tunnel_config = get_ws_config\<rparr>
                         \<and> (hs ''sec-websocket-protocol'' \<noteq> [] \<longrightarrow>
                              res_headers (up_response up) ''sec-websocket-protocol'' = hs ''sec-websocket-protocol'')
                      else res_status (up_response up) = 502 \<and> up_tunnel up = None
                  | _ \<Rightarrow> res_status (up_response up) = 502 \<and> up_tunnel up = None)))"
proof (cases "response A W mode (req\<lparr>req_body := Full []\<rparr>)")
  case (Inl e)
  then show ?thesis by (simp add: upgrade_def)
next
  case (Inr x)
  obtain req' resp where x: "x = (req', resp)" by fastforce
  have st: "res_status resp = (if mode = Upgrade then 101 else 200)"
    using Inr x by (intro response_status [OF laws]) simp
  note defs = upgrade_def and_then.simps Let_def contains_key_def get_all_def Inr x
  show ?thesis
  proof (cases "build_ws_request A W req' base mode")
    case (Inl e)
    then show ?thesis by (simp add: defs)
  next
    case b: (Inr r)
    show ?thesis
    proof (cases "dial W r")
      case (DialOk hs)
      show ?thesis
      proof (cases "acceptable hs")
        case True
        then consider "hs SEC_WEBSOCKET_PROTOCOL = []" | p where "hs SEC_WEBSOCKET_PROTOCOL = [p]"
          by (cases "hs SEC_WEBSOCKET_PROTOCOL") (auto simp: acceptable_def)
        then show ?thesis
        proof cases
          case 1
          with True DialOk b st show ?thesis by (simp add: defs acceptable_def get_header_def)
        next
          case 2
          with True DialOk b st show ?thesis
            by (simp add: defs acceptable_def get_header_def insert_header_def)
        qed
      next
        case False
        with DialOk b show ?thesis by (auto simp: defs acceptable_def)
      qed
    qed (simp_all add: defs b)
  qed
qed

definition sample_ws :: ws_api where
  "sample_ws = \<lparr>create_response = (\<lambda>req. Inr \<lparr>res_status = 101, res_headers = empty_headers, res_body = Full []\<rparr>),
     generate_key = ''AAAAAAAAAAAAAAAAAAAAAA=='',
     dial = (\<lambda>req. DialOk (empty_headers(''sec-websocket-protocol'' := [''v2.json''])))\<rparr>"

definition sample_upgrade :: Request where
  "sample_upgrade = \<lparr>req_method = GET, req_uri = sample_inbound, req_version = HTTP_11,
     req_headers = empty_headers(''connection'' := [''Upgrade, x-hop''], ''upgrade'' := [''WebSocket''],
       ''x-hop'' := [''1''], ''x-end'' := [''2''], ''sec-websocket-version'' := [''13''],
       ''sec-websocket-key'' := [''c2FtcGxlIGtleQ==''],
       ''sec-websocket-extensions'' := [''permessage-deflate''],
       ''sec-websocket-protocol'' := [''v2.json'']),
     protocol_ext = None, req_body = Incoming 0\<rparr>"

definition sample_up :: Upgraded where
  "sample_up = projr (upgrade rfc_api sample_ws sample_upgrade Upgrade sample_base True)"

definition sample_dialed :: Request where
  "sample_dialed = the (up_dialed sample_up)"

lemma sample_uri_composed:
  "upstream_uri rfc_api sample_base sample_inbound None = Inr (sample_base\<lparr>path_and_query :=
     Some \<lparr>pq_path = ''/rpc/extra'', pq_query = Some ''api_key=secret&tag=1''\<rparr>\<rparr>)"
proof -
  have "trim_end_by (\<lambda>c. c = CHR ''/'') ''/rpc/'' = ''/rpc''"
    "list_all query_char ''/rpc/extra?api_key=secret&tag=1''"
    by code_simp+
  then have "parse_pq rfc_api ''/rpc/extra?api_key=secret&tag=1'' =
      Inr \<lparr>pq_path = ''/rpc/extra'', pq_query = Some ''api_key=secret&tag=1''\<rparr>"
    by (simp add: rfc_api_def rfc_parse_pq_def max_uri_len_def)
  with \<open>trim_end_by (\<lambda>c. c = CHR ''/'') ''/rpc/'' = ''/rpc''\<close> show ?thesis
    by (simp add: upstream_uri_def Let_def sample_base_def sample_inbound_def uri_path_def uri_query_def)
      (simp add: rfc_api_def rfc_from_parts_def)
qed

lemma sample_response:
  "response rfc_api sample_ws Upgrade (sample_upgrade\<lparr>req_body := Full []\<rparr>) =
     Inr (sample_upgrade\<lparr>req_body := Full [], req_headers := canonical_headers rfc_api
            (Some ''c2FtcGxlIGtleQ=='') (Some ''v2.json'') (req_headers sample_upgrade)\<rparr>,
          \<lparr>res_status = 101, res_headers = empty_headers, res_body = Full []\<rparr>)"
proof -
  have n: "normalize_subprotocols rfc_api (req_headers sample_upgrade) = Inr (req_headers sample_upgrade)"
  proof -
    have "offered [''v2.json''] = [''v2.json'']" "valid_offer [''v2.json'']" by code_simp+
    then show ?thesis
      unfolding normalize_Inr [OF rfc_to_str_law rfc_header_value_law] Let_def
      by (simp add: sample_upgrade_def get_all_def insert_header_def fun_eq_iff)
  qed
  have "take_key Upgrade (sample_upgrade\<lparr>req_body := Full []\<rparr>) = Inr (Some ''c2FtcGxlIGtleQ=='')"
    by (simp add: take_key_def sample_upgrade_def get_all_def)
  moreover have "get_all (req_headers sample_upgrade) SEC_WEBSOCKET_VERSION = [''13'']"
    "get_header (req_headers sample_upgrade) SEC_WEBSOCKET_PROTOCOL = Some ''v2.json''"
    by (simp_all add: sample_upgrade_def get_all_def get_header_def)
  moreover have "create_response sample_ws req = Inr \<lparr>res_status = 101, res_headers = empty_headers, res_body = Full []\<rparr>" for req
    by (simp add: sample_ws_def)
  ultimately show ?thesis
    by (simp add: response_def n Let_def)
qed

lemma sample_upgrade_runs:
  "\<exists>up r. upgrade rfc_api sample_ws sample_upgrade Upgrade sample_base True = Inr up \<and> up_dialed up = Some r
     \<and> up_tunnel up = Some \<lparr>tunnel_mock = True, tunnel_config = get_ws_config\<rparr>"
proof -
  have "req_uri sample_upgrade = sample_inbound" by (simp add: sample_upgrade_def)
  moreover have "header_value rfc_api ''127.0.0.1:8545'' = Inr ''127.0.0.1:8545''"
    "authority sample_base = Some ''127.0.0.1:8545''"
    by (code_simp, simp add: sample_base_def)
  moreover have "dial sample_ws r = DialOk (empty_headers(''sec-websocket-protocol'' := [''v2.json'']))" for r
    by (simp add: sample_ws_def)
  ultimately show ?thesis
    by (simp add: upgrade_def sample_response build_ws_request_def sample_uri_composed Let_def
        get_header_def get_all_def contains_key_def empty_headers_def)
qed

lemma sample_upgrade_succeeds: "upgrade rfc_api sample_ws sample_upgrade Upgrade sample_base True = Inr sample_up"
  using sample_upgrade_runs by (auto simp: sample_up_def)

lemma sample_up_tunnel: "up_tunnel sample_up = Some \<lparr>tunnel_mock = True, tunnel_config = get_ws_config\<rparr>"
  using sample_upgrade_runs by (auto simp: sample_up_def)

lemma sample_upgrade_dials: "up_dialed sample_up = Some sample_dialed"
  using sample_upgrade_runs by (auto simp: sample_up_def sample_dialed_def)

text \<open>The sample's nominated \<open>x-hop\<close> is gone, its \<open>x-end\<close> is forwarded, and the upstream's host is set.\<close>

theorem dialed_handshake_witness:
  "req_headers sample_dialed ''x-hop'' = [] \<and> req_headers sample_dialed ''x-end'' = [''2'']
     \<and> req_method sample_dialed = GET"
proof -
  note d = dialed_handshake [OF rfc_to_str_law rfc_header_value_law sample_upgrade_succeeds sample_upgrade_dials]
  have "handshake_headers rfc_api Upgrade (req_headers sample_upgrade) ''x-hop'' = []"
    "handshake_headers rfc_api Upgrade (req_headers sample_upgrade) ''x-end'' = [''2'']"
    by code_simp+
  with d [of "''x-hop''"] d [of "''x-end''"] show ?thesis by simp
qed

theorem upgrade_outcomes_witness:
  "res_status (up_response sample_up) = 101
     \<and> up_tunnel sample_up = Some \<lparr>tunnel_mock = True, tunnel_config = get_ws_config\<rparr>"
proof -
  have law: "create_response_law sample_ws" by (simp add: create_response_law_def sample_ws_def)
  have d: "dial sample_ws r = DialOk (empty_headers(''sec-websocket-protocol'' := [''v2.json'']))" for r
    by (simp add: sample_ws_def)
  show ?thesis
    using upgrade_outcomes [OF law, where A = rfc_api and mode = Upgrade and req = sample_upgrade
        and base = sample_base and mock = True]
      sample_upgrade_succeeds sample_upgrade_dials
    by (simp add: d acceptable_def empty_headers_def split: sum.splits prod.splits)
qed

text \<open>The reference for \<open>contains\<close>: some visible field lists the lower-case token.\<close>

definition lists_token :: "HeaderMap \<Rightarrow> HeaderName \<Rightarrow> string \<Rightarrow> bool" where
  "lists_token h name token \<longleftrightarrow>
     (\<exists>v \<in> set (h name). list_all visible_ascii v
        \<and> (\<exists>t \<in> set (split CHR '','' v). map to_ascii_lowercase (trim_str t) = token))"

lemma header_lists_token_iff:
  assumes "to_str_law A"
  shows "header_lists_token A h name token \<longleftrightarrow> lists_token h name (map to_ascii_lowercase token)"
proof -
  have ok: "result_ok (to_str A v) = (if list_all visible_ascii v then Some v else None)" for v
    using assms by (cases "list_all visible_ascii v") (auto simp: to_str_law_def, metis result_ok.simps(1))
  show ?thesis
    by (auto simp: header_lists_token_def lists_token_def list_ex_iff map_filter_def ok get_all_def
        eq_ignore_ascii_case_def split: if_splits)
qed

text \<open>Recognising a WebSocket request. Over HTTP/2 an extended CONNECT for \<open>websocket\<close> is one;
  any other request is one exactly when both its Connection and its Upgrade fields list the
  token, in any case and surrounded by blanks, in any field; fields that are not visible ASCII
  are ignored.\<close>

lemma classify_exact:
  assumes "to_str_law A"
  shows "classify A req =
     (if req_version req = HTTP_2 \<and> req_method req = CONNECT \<and> protocol_ext req = Some ''websocket''
      then Some ExtendedConnect
      else if lists_token (req_headers req) ''connection'' ''upgrade''
              \<and> lists_token (req_headers req) ''upgrade'' ''websocket''
      then Some Upgrade else None)"
proof -
  have low: "map to_ascii_lowercase ''upgrade'' = ''upgrade''" "map to_ascii_lowercase ''websocket'' = ''websocket''"
    by code_simp+
  show ?thesis
    unfolding classify_def is_upgrade_request_def header_lists_token_iff [OF assms] low by (rule refl)
qed

end
