(* ===== verification/Relay.thy ===== *)
theory Relay
  imports Rpc
begin

text \<open>
  The tunnel half of \<open>src/websocket.rs\<close>: one direction (\<open>forward\<close>), the two directions of a bridge
  with and without the mock (\<open>bridge_ws\<close>) and the end of a tunnel (\<open>drain_pair\<close>), as a step relation
  in which one step is one iteration of one direction's loop, the end of a timer, or the passing of
  a millisecond. tungstenite's streams are lists of what arrives: messages, errors and the end of the
  stream. A peer that stays connected and sends nothing more is a list that does not finish with its
  end; the direction that reads it waits. The sinks take a number of messages and fail from then on;
  one that blocks is a step that is not taken. Timers are urgent and time is patient: \<open>timer_step\<close>s are
  taken as soon as they are due, the clock moves only when none is.
\<close>

section \<open>Messages, streams, sinks\<close>

datatype Message =
    Text string
  | Binary bytes
  | Ping bytes
  | Pong bytes
  | Close bytes

definition is_close :: "Message \<Rightarrow> bool" where
  "is_close m = (case m of Close _ \<Rightarrow> True | _ \<Rightarrow> False)"

text \<open>What a stream yields: a message, an error, or \<open>None\<close>, its end.\<close>

type_synonym items = "(string option + Message) list"

record Sink =
  delivered :: "Message list"
  room :: nat

text \<open>\<open>Sink::send\<close>: whether it succeeded, and the sink afterwards.\<close>

definition send :: "Message \<Rightarrow> Sink \<Rightarrow> bool \<times> Sink" where
  "send m w =
     (case room w of
        0 \<Rightarrow> (False, w)
      | Suc k \<Rightarrow> (True, \<lparr>delivered = delivered w @ [m], room = k\<rparr>))"

section \<open>One direction\<close>

text \<open>How an iteration of a direction's loop ends: with the next one, out of the loop after one
  more read (a close was passed on), or out of the loop at once.\<close>

datatype Control = Continue | Drain | Break

definition forward_item :: "Message \<Rightarrow> Sink \<Rightarrow> Control \<times> Sink" where
  "forward_item m w =
     (let closing = is_close m;
          (sent, w) = send m w
      in (if closing then Drain else if \<not> sent then Break else Continue, w))"

text \<open>
  \<open>forward\<close> over everything its reader will ever give: it waits when nothing more arrives, and is
  over when the stream ends or fails, a close was passed on (then one more read, whose item is
  dropped), or the writer failed.
\<close>

fun forward :: "items \<Rightarrow> Sink \<Rightarrow> Sink" where
  "forward [] w = w"
| "forward (Inl e # r) w = w"
| "forward (Inr m # r) w =
     (case forward_item m w of
        (Continue, w) \<Rightarrow> forward r w
      | (Drain, w) \<Rightarrow> w
      | (Break, w) \<Rightarrow> w)"

text \<open>An iteration of the client-to-upstream direction under the mock; it writes to both sinks.\<close>

definition mock_item :: "json_api \<Rightarrow> Message \<Rightarrow> Sink \<Rightarrow> Sink \<Rightarrow> Control \<times> Sink \<times> Sink" where
  "mock_item J m c_tx u_tx =
     (case (case m of Text text \<Rightarrow> mock_syncing J text | _ \<Rightarrow> Forward) of
        Silent \<Rightarrow> (Continue, c_tx, u_tx)
      | Reply reply \<Rightarrow>
          (case send (Text reply) c_tx of
             (sent, c_tx) \<Rightarrow> (if sent then Continue else Break, c_tx, u_tx))
      | Forward \<Rightarrow>
          (case forward_item m u_tx of (ctl, u_tx) \<Rightarrow> (ctl, c_tx, u_tx)))"

definition c2u_item :: "json_api \<Rightarrow> bool \<Rightarrow> Message \<Rightarrow> Sink \<Rightarrow> Sink \<Rightarrow> Control \<times> Sink \<times> Sink" where
  "c2u_item J mock_enabled m c_tx u_tx =
     (if mock_enabled then mock_item J m c_tx u_tx
      else (case forward_item m u_tx of (ctl, u_tx) \<Rightarrow> (ctl, c_tx, u_tx)))"

section \<open>The bridge\<close>

text \<open>
  A direction is running, reading once more after a close until the given time at the latest,
  finished, or dropped by \<open>drain_pair\<close> when the grace after the other direction's end is over.
\<close>

datatype Phase = Running | Draining nat | Finished | Dropped

text \<open>The timeout of the last read, and of the direction that \<open>drain_pair\<close> waits for.\<close>

definition drain_grace :: nat where
  "drain_grace = 1000"

definition phase_after :: "nat \<Rightarrow> Control \<Rightarrow> Phase" where
  "phase_after now ctl =
     (case ctl of Continue \<Rightarrow> Running | Drain \<Rightarrow> Draining (now + drain_grace) | Break \<Rightarrow> Finished)"

definition over :: "Phase \<Rightarrow> bool" where
  "over p \<longleftrightarrow> p \<in> {Finished, Dropped}"

record Bridge =
  c_rx :: items
  u_rx :: items
  c_tx :: Sink
  u_tx :: Sink
  c2u :: Phase
  u2c :: Phase
  bridge_clock :: nat
  grace_until :: "nat option"

definition bridge_start :: "items \<Rightarrow> items \<Rightarrow> nat \<Rightarrow> nat \<Rightarrow> Bridge" where
  "bridge_start cs us c_room u_room =
     \<lparr>c_rx = cs, u_rx = us, c_tx = \<lparr>delivered = [], room = c_room\<rparr>,
      u_tx = \<lparr>delivered = [], room = u_room\<rparr>, c2u = Running, u2c = Running, bridge_clock = 0, grace_until = None\<rparr>"

text \<open>\<open>drain_pair\<close> after each step: when the first of the two directions is over, the other one is
  given its grace.\<close>

definition drain_pair :: "Bridge \<Rightarrow> Bridge" where
  "drain_pair b =
     (if grace_until b = None \<and> (over (c2u b) \<or> over (u2c b))
      then b\<lparr>grace_until := Some (bridge_clock b + drain_grace)\<rparr> else b)"

text \<open>The timers of a bridge that run out.\<close>

inductive timer_step :: "Bridge \<Rightarrow> Bridge \<Rightarrow> bool" where
  c2u_drain_over:
    "\<lbrakk>c2u b = Draining t; t \<le> bridge_clock b\<rbrakk> \<Longrightarrow> timer_step b (drain_pair (b\<lparr>c2u := Finished\<rparr>))"
| u2c_drain_over:
    "\<lbrakk>u2c b = Draining t; t \<le> bridge_clock b\<rbrakk> \<Longrightarrow> timer_step b (drain_pair (b\<lparr>u2c := Finished\<rparr>))"
| c2u_grace_over:
    "\<lbrakk>u2c b = Finished; \<not> over (c2u b); grace_until b = Some t; t \<le> bridge_clock b\<rbrakk>
     \<Longrightarrow> timer_step b (b\<lparr>c2u := Dropped\<rparr>)"
| u2c_grace_over:
    "\<lbrakk>c2u b = Finished; \<not> over (u2c b); grace_until b = Some t; t \<le> bridge_clock b\<rbrakk>
     \<Longrightarrow> timer_step b (b\<lparr>u2c := Dropped\<rparr>)"

text \<open>\<open>bridge_ws\<close> returns, and both sockets are closed, when both directions are over.\<close>

definition bridge_over :: "Bridge \<Rightarrow> bool" where
  "bridge_over b \<longleftrightarrow> over (c2u b) \<and> over (u2c b)"

text \<open>What a bridge does while neither peer sends or takes anything: its timers, and waiting.\<close>

inductive silent_step :: "Bridge \<Rightarrow> Bridge \<Rightarrow> bool" where
  timer: "timer_step b b' \<Longrightarrow> silent_step b b'"
| time_passes:
    "\<lbrakk>\<nexists>b'. timer_step b b'; \<not> bridge_over b\<rbrakk> \<Longrightarrow> silent_step b (b\<lparr>bridge_clock := Suc (bridge_clock b)\<rparr>)"

inductive bridge_step :: "json_api \<Rightarrow> bool \<Rightarrow> Bridge \<Rightarrow> Bridge \<Rightarrow> bool" for J mock_enabled where
  c2u_message:
    "\<lbrakk>c2u b = Running; c_rx b = Inr m # r; c2u_item J mock_enabled m (c_tx b) (u_tx b) = (ctl, cs, us)\<rbrakk>
     \<Longrightarrow> bridge_step J mock_enabled b
           (drain_pair (b\<lparr>c_rx := r, c_tx := cs, u_tx := us, c2u := phase_after (bridge_clock b) ctl\<rparr>))"
| c2u_ends:
    "\<lbrakk>c2u b = Running; c_rx b = Inl e # r\<rbrakk>
     \<Longrightarrow> bridge_step J mock_enabled b (drain_pair (b\<lparr>c2u := Finished\<rparr>))"
| c2u_drained:
    "\<lbrakk>c2u b = Draining t; c_rx b = i # r\<rbrakk>
     \<Longrightarrow> bridge_step J mock_enabled b (drain_pair (b\<lparr>c_rx := r, c2u := Finished\<rparr>))"
| u2c_message:
    "\<lbrakk>u2c b = Running; u_rx b = Inr m # r; forward_item m (c_tx b) = (ctl, cs)\<rbrakk>
     \<Longrightarrow> bridge_step J mock_enabled b
           (drain_pair (b\<lparr>u_rx := r, c_tx := cs, u2c := phase_after (bridge_clock b) ctl\<rparr>))"
| u2c_ends:
    "\<lbrakk>u2c b = Running; u_rx b = Inl e # r\<rbrakk>
     \<Longrightarrow> bridge_step J mock_enabled b (drain_pair (b\<lparr>u2c := Finished\<rparr>))"
| u2c_drained:
    "\<lbrakk>u2c b = Draining t; u_rx b = i # r\<rbrakk>
     \<Longrightarrow> bridge_step J mock_enabled b (drain_pair (b\<lparr>u_rx := r, u2c := Finished\<rparr>))"
| silent: "silent_step b b' \<Longrightarrow> bridge_step J mock_enabled b b'"

inductive_cases timer_stepE [consumes 1, case_names c2u_drain_over u2c_drain_over c2u_grace_over
    u2c_grace_over]: "timer_step b b'"

inductive_cases silent_stepE [consumes 1, case_names timer time_passes]: "silent_step b b'"

inductive_cases bridge_stepE [consumes 1, case_names c2u_message c2u_ends c2u_drained
    u2c_message u2c_ends u2c_drained silent]: "bridge_step J mock_enabled b b'"

lemma drain_pair_simps [simp]:
  "c_rx (drain_pair b) = c_rx b" "u_rx (drain_pair b) = u_rx b" "c_tx (drain_pair b) = c_tx b"
  "u_tx (drain_pair b) = u_tx b" "c2u (drain_pair b) = c2u b" "u2c (drain_pair b) = u2c b"
  "bridge_clock (drain_pair b) = bridge_clock b"
  by (simp_all add: drain_pair_def)

lemma over_simps [simp]: "\<not> over Running" "\<not> over (Draining t)" "over Finished" "over Dropped"
  by (simp_all add: over_def)

section \<open>What a direction should have done\<close>

text \<open>The messages of a stream: those before its end or first error, up to and including a close.\<close>

fun messages :: "items \<Rightarrow> Message list" where
  "messages [] = []"
| "messages (Inl e # r) = []"
| "messages (Inr m # r) = m # (if is_close m then [] else messages r)"

definition inspected :: "json_api \<Rightarrow> bool \<Rightarrow> Message \<Rightarrow> MockResult" where
  "inspected J mock_enabled m =
     (case m of Text text \<Rightarrow> if mock_enabled then mock_syncing J text else Forward | _ \<Rightarrow> Forward)"

text \<open>What of the client's messages must go upstream, and what must be answered here.\<close>

definition outgoing :: "json_api \<Rightarrow> bool \<Rightarrow> Message list \<Rightarrow> Message list" where
  "outgoing J mock_enabled ms = filter (\<lambda>m. inspected J mock_enabled m = Forward) ms"

definition answers :: "json_api \<Rightarrow> bool \<Rightarrow> Message list \<Rightarrow> Message list" where
  "answers J mock_enabled ms =
     List.map_filter (\<lambda>m. case inspected J mock_enabled m of Reply r \<Rightarrow> Some (Text r) | _ \<Rightarrow> None) ms"

section \<open>Progress of a direction\<close>

text \<open>
  A relay function maps the messages read to the messages written, message by message; \<open>half_ok\<close>
  says how far a direction has come: exactly so far while it runs, everything once it ended by
  itself and no sink failed, and never more or anything else in any case.
\<close>

definition half_ok ::
  "('a list \<Rightarrow> 'b list) \<Rightarrow> Phase \<Rightarrow> bool \<Rightarrow> 'a list \<Rightarrow> 'a list \<Rightarrow> 'b list \<Rightarrow> bool" where
  "half_ok f phase good full rest written \<longleftrightarrow>
     (case phase of
        Running \<Rightarrow> \<exists>ms. full = ms @ rest \<and> written = f ms
      | Dropped \<Rightarrow> prefix written (f full)
      | _ \<Rightarrow> prefix written (f full) \<and> (good \<longrightarrow> written = f full))"

locale per_message =
  fixes f :: "'a list \<Rightarrow> 'b list"
  assumes f_append: "f (xs @ ys) = f xs @ f ys"
begin

lemma f_Nil: "f [] = []"
  using f_append [of "[]" "[]"] by simp

lemma half_ok_start: "half_ok f Running good full full []"
  by (auto simp: half_ok_def f_Nil)

lemma half_ok_prefix: "half_ok f phase good full rest written \<Longrightarrow> prefix written (f full)"
  by (auto simp: half_ok_def f_append split: Phase.splits)

lemma half_ok_good: "half_ok f phase good full rest written \<Longrightarrow> (good' \<longrightarrow> good) \<Longrightarrow>
    half_ok f phase good' full rest written"
  by (auto simp: half_ok_def split: Phase.splits)

lemma half_ok_drop: "half_ok f phase good full rest written \<Longrightarrow> half_ok f Dropped good full rest' written"
  using half_ok_prefix by (auto simp: half_ok_def)

lemma half_ok_next:
  "half_ok f Running good full (m # rest) written \<Longrightarrow> half_ok f Running good' full rest (written @ f [m])"
  by (auto simp: half_ok_def) (metis append.assoc append_Cons append_Nil f_append)

lemma half_ok_end:
  "half_ok f Running good full [] written \<Longrightarrow> phase \<noteq> Running \<Longrightarrow> half_ok f phase good' full rest' written"
  by (auto simp: half_ok_def split: Phase.splits)

lemma half_ok_failed:
  "half_ok f Running good full rest written \<Longrightarrow> phase \<noteq> Running \<Longrightarrow> half_ok f phase False full rest' written"
  by (auto simp: half_ok_def f_append split: Phase.splits)

lemma half_ok_drained:
  "half_ok f (Draining t) good full rest written \<Longrightarrow> half_ok f Finished good full rest' written"
  by (auto simp: half_ok_def)

end

interpretation outgoing: per_message "outgoing J mock" for J mock
  by unfold_locales (simp add: outgoing_def)

interpretation answers: per_message "answers J mock" for J mock
  by unfold_locales (simp add: answers_def map_filter_def)

interpretation unchanged: per_message "\<lambda>ms. ms"
  by unfold_locales simp

lemma shuffles_single: "ys @ [x] \<in> shuffles [x] ys" "ys @ [x] \<in> shuffles ys [x]"
  by (induction ys) (auto simp: Cons_in_shuffles_iff)

lemma shuffles_snoc:
  "xs \<in> shuffles a b \<Longrightarrow> xs @ [x] \<in> shuffles (a @ [x]) b \<and> xs @ [x] \<in> shuffles a (b @ [x])"
proof (induction a b arbitrary: xs rule: shuffles.induct)
  case (3 y ys z zs)
  then show ?case by (auto simp: Cons_in_shuffles_iff)
qed (auto simp: Cons_in_shuffles_iff shuffles_single)

section \<open>The invariant of a bridge\<close>

text \<open>
  \<open>A\<close> are the answers of the mock and \<open>U\<close> the upstream's messages among what the client was
  sent; the two are interleaved as the sink's lock was taken. The client's direction writes to the
  client only under the mock.
\<close>

definition takes_all :: "bool \<Rightarrow> Bridge \<Rightarrow> bool" where
  "takes_all mock b \<longleftrightarrow> room (u_tx b) > 0 \<and> (mock \<longrightarrow> room (c_tx b) > 0)"

definition bridge_inv :: "json_api \<Rightarrow> bool \<Rightarrow> items \<Rightarrow> items \<Rightarrow> Bridge \<Rightarrow> bool" where
  "bridge_inv J mock cs us b \<longleftrightarrow>
     (\<exists>A U. delivered (c_tx b) \<in> shuffles A U
        \<and> half_ok (outgoing J mock) (c2u b) (takes_all mock b)
            (messages cs) (messages (c_rx b)) (delivered (u_tx b))
        \<and> half_ok (answers J mock) (c2u b) (takes_all mock b)
            (messages cs) (messages (c_rx b)) A
        \<and> half_ok (\<lambda>ms. ms) (u2c b) (room (c_tx b) > 0) (messages us) (messages (u_rx b)) U)"

lemma send_cases:
  obtains (failed) "room w = 0" "send m w = (False, w)"
  | (sent) w' where "room w > 0" "send m w = (True, w')" "delivered w' = delivered w @ [m]"
      "room w = Suc (room w')"
proof (cases "room w")
  case (Suc k)
  show ?thesis
    by (rule sent [of "\<lparr>delivered = delivered w @ [m], room = k\<rparr>"]) (simp_all add: send_def Suc)
qed (auto simp: send_def intro: failed)

lemma forward_item_cases:
  obtains (failed) "room w = 0" "forward_item m w = (if is_close m then Drain else Break, w)"
  | (sent) w' where "room w > 0" "forward_item m w = (if is_close m then Drain else Continue, w')"
      "delivered w' = delivered w @ [m]" "room w = Suc (room w')"
  by (cases rule: send_cases [of w m]) (auto simp: forward_item_def Let_def)

lemma inspected_close: "is_close m \<Longrightarrow> inspected J mock m = Forward"
  by (auto simp: inspected_def is_close_def split: Message.splits)

lemma inspected_mock: "inspected J mock m \<noteq> Forward \<Longrightarrow> mock"
  by (auto simp: inspected_def split: Message.splits if_splits)

lemma c2u_item_inspected:
  "c2u_item J mock m c u =
     (case inspected J mock m of
        Silent \<Rightarrow> (Continue, c, u)
      | Reply r \<Rightarrow> (case send (Text r) c of (sent, c) \<Rightarrow> (if sent then Continue else Break, c, u))
      | Forward \<Rightarrow> (case forward_item m u of (ctl, u) \<Rightarrow> (ctl, c, u)))"
  by (auto simp: c2u_item_def mock_item_def inspected_def split: Message.splits MockResult.splits)

lemma outgoing_single: "outgoing J mock [m] = (if inspected J mock m = Forward then [m] else [])"
  by (simp add: outgoing_def)

lemma answers_single: "answers J mock [m] = (case inspected J mock m of Reply r \<Rightarrow> [Text r] | _ \<Rightarrow> [])"
  by (simp add: answers_def map_filter_simps split: MockResult.splits)

lemma phase_after_simps [simp]:
  "phase_after n Continue = Running" "phase_after n Drain = Draining (n + drain_grace)"
  "phase_after n Break = Finished"
  by (simp_all add: phase_after_def)

text \<open>One message in either direction keeps its half of the invariant.\<close>

lemma half_forwarded:
  assumes f: "per_message f" and h: "half_ok f Running good full (messages (Inr m # r)) written"
    and fm: "f [m] = [m]" and i: "forward_item m w = (ctl, w')"
    and g: "good' \<longrightarrow> room w > 0" and d: "written' = written @ drop (length (delivered w)) (delivered w')"
  shows "half_ok f (phase_after n ctl) good' full (messages r) written'"
proof (cases rule: forward_item_cases [of w m])
  case failed
  with i d have "w' = w" "written' = written" by auto
  moreover have "phase_after n ctl \<noteq> Running" using failed i by (auto split: if_splits)
  moreover have "\<not> good'" using g failed by simp
  ultimately show ?thesis
    using per_message.half_ok_failed [OF f h, of "phase_after n ctl"] by simp
next
  case (sent w'')
  with i d have w: "written' = written @ f [m]" by (auto simp: fm)
  show ?thesis
  proof (cases "is_close m")
    case True
    with h have "half_ok f Running good full [] written'"
      using per_message.half_ok_next [OF f, of good full m "[]" written good] w by simp
    then show ?thesis
      using per_message.half_ok_end [OF f] sent i True by (auto split: if_splits)
  next
    case False
    with h have "half_ok f Running good' full (messages r) written'"
      using per_message.half_ok_next [OF f, of good full m "messages r" written good'] w by simp
    then show ?thesis using sent i False by (auto split: if_splits)
  qed
qed

lemma half_quiet:
  assumes f: "per_message f" and h: "half_ok f Running good full (messages (Inr m # r)) written"
    and fm: "f [m] = []"
    and c: "ctl = Continue \<and> \<not> is_close m \<or> ctl \<noteq> Continue \<and> (is_close m \<or> \<not> good')"
  shows "half_ok f (phase_after n ctl) good' full (messages r) written"
proof -
  note step = per_message.half_ok_next [OF f, of good full m _ written, unfolded fm, simplified]
  from c consider "ctl = Continue" "\<not> is_close m" | "ctl \<noteq> Continue" "is_close m"
    | "ctl \<noteq> Continue" "\<not> good'" by blast
  then show ?thesis
  proof cases
    case 1
    with step [of "messages r" good'] h show ?thesis by simp
  next
    case 2
    then have "phase_after n ctl \<noteq> Running" by (simp add: phase_after_def split: Control.splits)
    moreover have "half_ok f Running good' full [] written"
      using step [of "[]" good'] h 2 by simp
    ultimately show ?thesis
      using per_message.half_ok_end [OF f] by blast
  next
    case 3
    then have "phase_after n ctl \<noteq> Running" by (simp add: phase_after_def split: Control.splits)
    with 3 show ?thesis
      using per_message.half_ok_failed [OF f h, of "phase_after n ctl"] by simp
  qed
qed

lemmas relay_functions =
  outgoing.per_message_axioms answers.per_message_axioms unchanged.per_message_axioms

lemma c2u_reply_inv:
  assumes reply: "inspected J mock m = Reply t" and item: "c2u_item J mock m c u = (ctl, c', u')"
    and sh: "delivered c \<in> shuffles A U"
    and out: "half_ok (outgoing J mock) Running good full (messages (Inr m # r)) (delivered u)"
    and ans: "half_ok (answers J mock) Running good full (messages (Inr m # r)) A"
  shows "\<exists>A'. delivered c' \<in> shuffles A' U
     \<and> half_ok (outgoing J mock) (phase_after n ctl) (room u' > 0 \<and> (mock \<longrightarrow> room c' > 0)) full (messages r) (delivered u')
     \<and> half_ok (answers J mock) (phase_after n ctl) (room u' > 0 \<and> (mock \<longrightarrow> room c' > 0)) full (messages r) A'
     \<and> room c' \<le> room c"
proof (cases rule: send_cases [of c "Text t"])
  case failed
  have "mock" using reply inspected_mock [of J mock m] by simp
  from failed reply item have i: "ctl = Break" "c' = c" "u' = u" by (auto simp: c2u_item_inspected)
  with \<open>mock\<close> failed have ng: "(room u' > 0 \<and> (mock \<longrightarrow> room c' > 0)) = False" by simp
  have "half_ok (answers J mock) Finished (room u' > 0 \<and> (mock \<longrightarrow> room c' > 0)) full (messages r) A"
    unfolding ng using per_message.half_ok_failed [OF relay_functions(2) ans] by simp
  with sh half_quiet [OF relay_functions(1) out, of ctl "room u' > 0 \<and> (mock \<longrightarrow> room c' > 0)"] i ng show ?thesis
    by (intro exI [of _ A]) (simp add: outgoing_single reply)
next
  case (sent c'')
  have nc: "\<not> is_close m" using reply inspected_close [of m J mock] by auto
  from sent reply item have i: "ctl = Continue" "c' = c''" "u' = u" by (auto simp: c2u_item_inspected)
  have "half_ok (answers J mock) Running (room u' > 0 \<and> (mock \<longrightarrow> room c' > 0)) full (messages r) (A @ [Text t])"
    using per_message.half_ok_next [OF relay_functions(2), of J mock good full m "messages r" A] ans nc
    by (simp add: answers_single reply)
  moreover have "delivered c' \<in> shuffles (A @ [Text t]) U"
    using shuffles_snoc [OF sh, of "Text t"] sent i by simp
  ultimately show ?thesis
    using half_quiet [OF relay_functions(1) out, of ctl "room u' > 0 \<and> (mock \<longrightarrow> room c' > 0)"] sent i nc
    by (intro exI [of _ "A @ [Text t]"]) (simp add: outgoing_single reply)
qed

lemma c2u_item_inv:
  assumes item: "c2u_item J mock m c u = (ctl, c', u')"
    and sh: "delivered c \<in> shuffles A U"
    and out: "half_ok (outgoing J mock) Running good full (messages (Inr m # r)) (delivered u)"
    and ans: "half_ok (answers J mock) Running good full (messages (Inr m # r)) A"
  shows "\<exists>A'. delivered c' \<in> shuffles A' U
     \<and> half_ok (outgoing J mock) (phase_after n ctl) (room u' > 0 \<and> (mock \<longrightarrow> room c' > 0)) full (messages r) (delivered u')
     \<and> half_ok (answers J mock) (phase_after n ctl) (room u' > 0 \<and> (mock \<longrightarrow> room c' > 0)) full (messages r) A'
     \<and> room c' \<le> room c"
proof (cases "inspected J mock m")
  case Forward
  then have i: "forward_item m u = (ctl, u')" and c': "c' = c"
    using item by (auto simp: c2u_item_inspected split: prod.splits)
  have room: "room u' > 0 \<longrightarrow> room u > 0"
    using i by (cases rule: forward_item_cases [of u m]) auto
  have del: "delivered u' = delivered u @ drop (length (delivered u)) (delivered u')"
    using i by (cases rule: forward_item_cases [of u m]) auto
  have ctl: "ctl = Continue \<and> \<not> is_close m
      \<or> ctl \<noteq> Continue \<and> (is_close m \<or> \<not> (room u' > 0 \<and> (mock \<longrightarrow> room c' > 0)))"
    using i by (cases rule: forward_item_cases [of u m]) (auto split: if_splits)
  show ?thesis
    using sh half_forwarded [OF relay_functions(1) out _ i _ del] room
      half_quiet [OF relay_functions(2) ans _ ctl]
    by (intro exI [of _ A]) (simp add: outgoing_single answers_single Forward c')
next
  case Silent
  then have i: "ctl = Continue" "c' = c" "u' = u" and nc: "\<not> is_close m"
    using item inspected_close [of m J mock] by (auto simp: c2u_item_inspected)
  then show ?thesis
    using sh half_quiet [OF relay_functions(1) out, of ctl "room u' > 0 \<and> (mock \<longrightarrow> room c' > 0)"]
      half_quiet [OF relay_functions(2) ans, of ctl "room u' > 0 \<and> (mock \<longrightarrow> room c' > 0)"]
    by (intro exI [of _ A]) (simp add: outgoing_single answers_single Silent)
next
  case (Reply reply)
  then show ?thesis using c2u_reply_inv [OF _ item sh out ans] by blast
qed

lemma u2c_item_inv:
  assumes item: "forward_item m c = (ctl, c')" and sh: "delivered c \<in> shuffles A U"
    and down: "half_ok (\<lambda>ms. ms) Running good full (messages (Inr m # r)) U"
  shows "\<exists>U'. delivered c' \<in> shuffles A U' \<and> room c' \<le> room c
     \<and> half_ok (\<lambda>ms. ms) (phase_after n ctl) (room c' > 0) full (messages r) U'"
proof -
  obtain x where x: "delivered c' = delivered c @ x" "x = [] \<or> x = [m]" and room: "room c' \<le> room c"
    using item by (cases rule: forward_item_cases [of c m]) auto
  from x have "delivered c' \<in> shuffles A (U @ x)"
    using shuffles_snoc [OF sh, of m] sh by auto
  moreover have "half_ok (\<lambda>ms. ms) (phase_after n ctl) (room c' > 0) full (messages r) (U @ x)"
    using half_forwarded [OF relay_functions(3) down _ item, of "room c' > 0" "U @ x"] room x by simp
  ultimately show ?thesis using room by blast
qed

lemma bridge_invI:
  "\<lbrakk>delivered (c_tx b) \<in> shuffles A U;
    half_ok (outgoing J mock) (c2u b) (takes_all mock b)
      (messages cs) (messages (c_rx b)) (delivered (u_tx b));
    half_ok (answers J mock) (c2u b) (takes_all mock b)
      (messages cs) (messages (c_rx b)) A;
    half_ok (\<lambda>ms. ms) (u2c b) (room (c_tx b) > 0) (messages us) (messages (u_rx b)) U\<rbrakk>
   \<Longrightarrow> bridge_inv J mock cs us b"
  unfolding bridge_inv_def by blast

lemma bridge_inv_start: "bridge_inv J mock cs us (bridge_start cs us c_room u_room)"
  by (auto simp: bridge_inv_def bridge_start_def outgoing.half_ok_start answers.half_ok_start
      unchanged.half_ok_start)

lemma bridge_inv_frame:
  "bridge_inv J mock cs us b \<Longrightarrow> c_rx b' = c_rx b \<Longrightarrow> u_rx b' = u_rx b \<Longrightarrow> c_tx b' = c_tx b \<Longrightarrow>
     u_tx b' = u_tx b \<Longrightarrow> c2u b' = c2u b \<Longrightarrow> u2c b' = u2c b \<Longrightarrow> bridge_inv J mock cs us b'"
  by (simp add: bridge_inv_def takes_all_def)

lemma bridge_inv_drain_pair [simp]: "bridge_inv J mock cs us (drain_pair b) = bridge_inv J mock cs us b"
  by (simp add: bridge_inv_def takes_all_def)

text \<open>A direction may finish when it has read all its messages, has passed on a close, or is dropped.\<close>

lemma bridge_inv_c2u:
  assumes inv: "bridge_inv J mock cs us b"
    and p: "c2u b = Running \<and> messages (c_rx b) = [] \<and> phase = Finished
      \<or> (\<exists>t. c2u b = Draining t) \<and> phase = Finished \<or> phase = Dropped"
  shows "bridge_inv J mock cs us (b\<lparr>c_rx := r, c2u := phase\<rparr>)"
proof -
  from inv obtain A U where sh: "delivered (c_tx b) \<in> shuffles A U"
    and out: "half_ok (outgoing J mock) (c2u b) (takes_all mock b) (messages cs) (messages (c_rx b)) (delivered (u_tx b))"
    and ans: "half_ok (answers J mock) (c2u b) (takes_all mock b) (messages cs) (messages (c_rx b)) A"
    and down: "half_ok (\<lambda>ms. ms) (u2c b) (room (c_tx b) > 0) (messages us) (messages (u_rx b)) U"
    by (auto simp: bridge_inv_def)
  have "half_ok f phase (takes_all mock b) (messages cs) (messages r) w"
    if "per_message f" "half_ok f (c2u b) (takes_all mock b) (messages cs) (messages (c_rx b)) w" for f :: "Message list \<Rightarrow> Message list" and w
    using p that(2) per_message.half_ok_end [OF that(1), of "takes_all mock b" "messages cs" w phase]
      per_message.half_ok_drained [OF that(1)] per_message.half_ok_drop [OF that(1,2)] by auto
  from this [OF relay_functions(1) out] this [OF relay_functions(2) ans] sh down show ?thesis
    by (intro bridge_invI [of _ A U]) (simp_all add: takes_all_def)
qed

lemma bridge_inv_u2c:
  assumes inv: "bridge_inv J mock cs us b"
    and p: "u2c b = Running \<and> messages (u_rx b) = [] \<and> phase = Finished
      \<or> (\<exists>t. u2c b = Draining t) \<and> phase = Finished \<or> phase = Dropped"
  shows "bridge_inv J mock cs us (b\<lparr>u_rx := r, u2c := phase\<rparr>)"
proof -
  from inv obtain A U where sh: "delivered (c_tx b) \<in> shuffles A U"
    and out: "half_ok (outgoing J mock) (c2u b) (takes_all mock b) (messages cs) (messages (c_rx b)) (delivered (u_tx b))"
    and ans: "half_ok (answers J mock) (c2u b) (takes_all mock b) (messages cs) (messages (c_rx b)) A"
    and down: "half_ok (\<lambda>ms. ms) (u2c b) (room (c_tx b) > 0) (messages us) (messages (u_rx b)) U"
    by (auto simp: bridge_inv_def)
  have "half_ok (\<lambda>ms. ms) phase (room (c_tx b) > 0) (messages us) (messages r) U"
    using p down unchanged.half_ok_end [of _ "messages us" U phase] unchanged.half_ok_drained
      unchanged.half_ok_drop [OF down] by auto
  with sh out ans show ?thesis
    by (intro bridge_invI [of _ A U]) (simp_all add: takes_all_def)
qed

lemma bridge_inv_stop:
  assumes "bridge_inv J mock cs us b"
  shows "c2u b = Running \<and> messages (c_rx b) = [] \<and> phase = Finished
      \<or> (\<exists>t. c2u b = Draining t) \<and> phase = Finished \<or> phase = Dropped \<Longrightarrow>
      bridge_inv J mock cs us (b\<lparr>c2u := phase\<rparr>)"
    and "u2c b = Running \<and> messages (u_rx b) = [] \<and> phase = Finished
      \<or> (\<exists>t. u2c b = Draining t) \<and> phase = Finished \<or> phase = Dropped \<Longrightarrow>
      bridge_inv J mock cs us (b\<lparr>u2c := phase\<rparr>)"
  using bridge_inv_c2u [OF assms, of phase "c_rx b"] bridge_inv_u2c [OF assms, of phase "u_rx b"] by simp_all

lemma bridge_inv_silent:
  assumes "silent_step b b'" and inv: "bridge_inv J mock cs us b"
  shows "bridge_inv J mock cs us b'"
  using assms(1)
proof (cases rule: silent_stepE)
  case timer
  then show ?thesis
  proof (cases rule: timer_stepE)
    case (c2u_drain_over t)
    with bridge_inv_stop(1) [OF inv, of Finished] show ?thesis by simp
  next
    case (u2c_drain_over t)
    with bridge_inv_stop(2) [OF inv, of Finished] show ?thesis by simp
  next
    case (c2u_grace_over t)
    with bridge_inv_stop(1) [OF inv, of Dropped] show ?thesis by simp
  next
    case (u2c_grace_over t)
    with bridge_inv_stop(2) [OF inv, of Dropped] show ?thesis by simp
  qed
next
  case time_passes
  then show ?thesis by (intro bridge_inv_frame [OF inv]) simp_all
qed

lemma bridge_inv_step:
  assumes "bridge_step J mock b b'" and inv: "bridge_inv J mock cs us b"
  shows "bridge_inv J mock cs us b'"
proof -
  from inv obtain A U where sh: "delivered (c_tx b) \<in> shuffles A U"
    and out: "half_ok (outgoing J mock) (c2u b) (takes_all mock b) (messages cs) (messages (c_rx b)) (delivered (u_tx b))"
    and ans: "half_ok (answers J mock) (c2u b) (takes_all mock b) (messages cs) (messages (c_rx b)) A"
    and down: "half_ok (\<lambda>ms. ms) (u2c b) (room (c_tx b) > 0) (messages us) (messages (u_rx b)) U"
    by (auto simp: bridge_inv_def)
  from assms(1) show ?thesis
  proof (cases rule: bridge_stepE)
    case (c2u_message m r ctl cs' us')
    then obtain A' where A': "delivered cs' \<in> shuffles A' U" "room cs' \<le> room (c_tx b)"
      and h: "half_ok (outgoing J mock) (phase_after (bridge_clock b) ctl) (room us' > 0 \<and> (mock \<longrightarrow> room cs' > 0))
                (messages cs) (messages r) (delivered us')"
        "half_ok (answers J mock) (phase_after (bridge_clock b) ctl) (room us' > 0 \<and> (mock \<longrightarrow> room cs' > 0))
                (messages cs) (messages r) A'"
      using c2u_item_inv [OF c2u_message(4) sh, of "takes_all mock b" "messages cs" r "bridge_clock b"] out ans by auto
    then have "half_ok (\<lambda>ms. ms) (u2c b) (room cs' > 0) (messages us) (messages (u_rx b)) U"
      using unchanged.half_ok_good [OF down] by simp
    with A' h show ?thesis
      unfolding c2u_message(1) by (intro bridge_invI [of _ A' U]) (simp_all add: takes_all_def)
  next
    case (u2c_message m r ctl cs')
    then obtain U' where "delivered cs' \<in> shuffles A U'" and room: "room cs' \<le> room (c_tx b)"
      and "half_ok (\<lambda>ms. ms) (phase_after (bridge_clock b) ctl) (room cs' > 0) (messages us) (messages r) U'"
      using u2c_item_inv [OF u2c_message(4) sh, of "room (c_tx b) > 0" "messages us" r "bridge_clock b"] down by auto
    moreover have "half_ok (outgoing J mock) (c2u b) (room (u_tx b) > 0 \<and> (mock \<longrightarrow> room cs' > 0))
        (messages cs) (messages (c_rx b)) (delivered (u_tx b))"
      "half_ok (answers J mock) (c2u b) (room (u_tx b) > 0 \<and> (mock \<longrightarrow> room cs' > 0))
        (messages cs) (messages (c_rx b)) A"
      using room by (auto intro!: outgoing.half_ok_good [OF out] answers.half_ok_good [OF ans]
          simp: takes_all_def)
    ultimately show ?thesis
      unfolding u2c_message(1) by (intro bridge_invI [of _ A U']) (simp_all add: takes_all_def)
  next
    case (c2u_ends e r)
    with bridge_inv_stop(1) [OF inv, of Finished] show ?thesis by simp
  next
    case (c2u_drained t i r)
    with bridge_inv_c2u [OF inv, of Finished r] show ?thesis by simp
  next
    case (u2c_ends e r)
    with bridge_inv_stop(2) [OF inv, of Finished] show ?thesis by simp
  next
    case (u2c_drained t i r)
    with bridge_inv_u2c [OF inv, of Finished r] show ?thesis by simp
  next
    case silent
    then show ?thesis using bridge_inv_silent inv by blast
  qed
qed

interpretation bridge: invariant_system
  "\<lambda>b. b = bridge_start cs us c_room u_room" "bridge_step J mock" "bridge_inv J mock cs us"
  for cs us c_room u_room J mock
  using bridge_inv_start bridge_inv_step by unfold_locales blast+

lemma bridge_reachable:
  "(bridge_step J mock)\<^sup>*\<^sup>* (bridge_start cs us c_room u_room) b \<Longrightarrow> bridge_inv J mock cs us b"
  by (rule bridge.inv_reachable [OF refl])

lemma bridge_prefix:
  "(bridge_step J mock)\<^sup>*\<^sup>* (bridge_start cs us c_room u_room) b \<Longrightarrow>
     prefix (delivered (u_tx b)) (outgoing J mock (messages cs))"
  using bridge_reachable [of J mock cs us c_room u_room b] unfolding bridge_inv_def
  by (blast dest: outgoing.half_ok_prefix)

text \<open>How far the client's direction has come, and that it can handle what it reads next.\<close>

lemma bridge_upstream:
  assumes "(bridge_step J mock)\<^sup>*\<^sup>* (bridge_start cs us c_room u_room) b"
  shows "c2u b = Running \<Longrightarrow> \<exists>ms. messages cs = ms @ messages (c_rx b) \<and> delivered (u_tx b) = outgoing J mock ms"
    and "c2u b \<notin> {Running, Dropped} \<Longrightarrow> takes_all mock b \<Longrightarrow> delivered (u_tx b) = outgoing J mock (messages cs)"
proof -
  have h: "half_ok (outgoing J mock) (c2u b) (takes_all mock b) (messages cs) (messages (c_rx b)) (delivered (u_tx b))"
    using bridge_reachable [OF assms] unfolding bridge_inv_def by blast
  then show "c2u b = Running \<Longrightarrow> \<exists>ms. messages cs = ms @ messages (c_rx b) \<and> delivered (u_tx b) = outgoing J mock ms"
    by (simp add: half_ok_def)
  from h show "c2u b \<notin> {Running, Dropped} \<Longrightarrow> takes_all mock b \<Longrightarrow> delivered (u_tx b) = outgoing J mock (messages cs)"
    by (cases "c2u b") (simp_all add: half_ok_def)
qed

lemma bridge_handles_next:
  assumes "c2u b = Running" and "c_rx b = Inr m # r" and room: "takes_all mock b"
  shows "\<exists>b'. bridge_step J mock b b' \<and> c_rx b' = r \<and> delivered (u_tx b') = delivered (u_tx b) @ outgoing J mock [m]"
proof -
  obtain ctl c u where i: "c2u_item J mock m (c_tx b) (u_tx b) = (ctl, c, u)"
    by (cases "c2u_item J mock m (c_tx b) (u_tx b)") auto
  have "delivered u = delivered (u_tx b) @ outgoing J mock [m]"
  proof (cases "inspected J mock m")
    case Forward
    with i room show ?thesis
      by (cases rule: forward_item_cases [of "u_tx b" m])
        (auto simp: c2u_item_inspected outgoing_single takes_all_def)
  qed (use i in \<open>auto simp: c2u_item_inspected outgoing_single split: prod.splits\<close>)
  with bridge_step.c2u_message [OF assms(1,2) i] show ?thesis by (intro exI conjI) (assumption, simp_all)
qed

lemma outgoing_plain: "outgoing J False ms = ms"
  by (auto simp: outgoing_def inspected_def intro!: filter_True split: Message.splits)

lemma answers_plain: "answers J False ms = []"
proof -
  have "inspected J False m = Forward" for m by (auto simp: inspected_def split: Message.splits)
  then show ?thesis by (induction ms) (simp_all add: answers_def map_filter_simps)
qed

section \<open>Timers and the end of a tunnel\<close>

text \<open>
  The timers of a reachable bridge: each runs for a second at most, the grace runs exactly when a
  direction is over, and a direction is dropped only for one that finished.
\<close>

definition timers_ok :: "Bridge \<Rightarrow> bool" where
  "timers_ok b \<longleftrightarrow>
     (\<forall>t. c2u b = Draining t \<or> u2c b = Draining t \<or> grace_until b = Some t \<longrightarrow> t \<le> bridge_clock b + drain_grace)
     \<and> (grace_until b = None \<longleftrightarrow> \<not> over (c2u b) \<and> \<not> over (u2c b))
     \<and> (c2u b = Dropped \<longrightarrow> u2c b = Finished) \<and> (u2c b = Dropped \<longrightarrow> c2u b = Finished)"

lemma timers_ok_start: "timers_ok (bridge_start cs us c_room u_room)"
  by (simp add: timers_ok_def bridge_start_def)

lemma timers_ok_c2u:
  assumes "timers_ok b" and "\<not> over (c2u b)"
    and "phase \<noteq> Dropped" and "\<forall>t. phase = Draining t \<longrightarrow> t \<le> bridge_clock b + drain_grace"
    and "c2u b' = phase" "u2c b' = u2c b" "bridge_clock b' = bridge_clock b" "grace_until b' = grace_until b"
  shows "timers_ok (drain_pair b')"
  using assms by (auto simp: timers_ok_def drain_pair_def)

lemma timers_ok_u2c:
  assumes "timers_ok b" and "\<not> over (u2c b)"
    and "phase \<noteq> Dropped" and "\<forall>t. phase = Draining t \<longrightarrow> t \<le> bridge_clock b + drain_grace"
    and "u2c b' = phase" "c2u b' = c2u b" "bridge_clock b' = bridge_clock b" "grace_until b' = grace_until b"
  shows "timers_ok (drain_pair b')"
  using assms by (auto simp: timers_ok_def drain_pair_def)

lemma phase_after_bounds:
  "phase_after n ctl \<noteq> Dropped" "\<forall>t. phase_after n ctl = Draining t \<longrightarrow> t \<le> n + drain_grace"
  by (simp_all add: phase_after_def split: Control.splits)

lemma timers_ok_silent:
  assumes "silent_step b b'" and ok: "timers_ok b"
  shows "timers_ok b'"
  using assms(1)
proof (cases rule: silent_stepE)
  case timer
  then show ?thesis
  proof (cases rule: timer_stepE)
    case (c2u_drain_over t)
    with timers_ok_c2u [OF ok, of Finished "b\<lparr>c2u := Finished\<rparr>"] show ?thesis by simp
  next
    case (u2c_drain_over t)
    with timers_ok_u2c [OF ok, of Finished "b\<lparr>u2c := Finished\<rparr>"] show ?thesis by simp
  next
    case (c2u_grace_over t)
    with ok show ?thesis by (auto simp: timers_ok_def)
  next
    case (u2c_grace_over t)
    with ok show ?thesis by (auto simp: timers_ok_def)
  qed
next
  case time_passes
  then have later: "t \<le> bridge_clock b + drain_grace \<longrightarrow> t \<le> bridge_clock b' + drain_grace" for t by simp
  from time_passes have same: "c2u b' = c2u b" "u2c b' = u2c b" "grace_until b' = grace_until b" by simp_all
  from ok later show ?thesis unfolding timers_ok_def same by metis
qed

lemma timers_ok_step:
  assumes "bridge_step J mock b b'" and ok: "timers_ok b"
  shows "timers_ok b'"
  using assms(1)
proof (cases rule: bridge_stepE)
  case (c2u_message m r ctl cs us)
  show ?thesis
    unfolding c2u_message(1) by (rule timers_ok_c2u [OF ok _ phase_after_bounds]) (simp_all add: c2u_message(2))
next
  case (u2c_message m r ctl cs)
  show ?thesis
    unfolding u2c_message(1) by (rule timers_ok_u2c [OF ok _ phase_after_bounds]) (simp_all add: u2c_message(2))
next
  case (c2u_ends e r)
  then show ?thesis by (simp add: timers_ok_c2u [OF ok, of Finished])
next
  case (c2u_drained t i r)
  then show ?thesis by (simp add: timers_ok_c2u [OF ok, of Finished])
next
  case (u2c_ends e r)
  then show ?thesis by (simp add: timers_ok_u2c [OF ok, of Finished])
next
  case (u2c_drained t i r)
  then show ?thesis by (simp add: timers_ok_u2c [OF ok, of Finished])
next
  case silent
  then show ?thesis using timers_ok_silent ok by blast
qed

interpretation timers: invariant_system
  "\<lambda>b. b = bridge_start cs us c_room u_room" "bridge_step J mock" timers_ok
  for cs us c_room u_room J mock
  using timers_ok_start timers_ok_step by unfold_locales blast+

text \<open>
  Time left to a bridge of which a direction has ended or is on its last read. Until then it has all
  the time in the world.
\<close>

definition closing_time :: "Phase \<Rightarrow> nat \<Rightarrow> nat \<Rightarrow> nat" where
  "closing_time p n other = (case p of Draining t \<Rightarrow> min (t - n) other | _ \<Rightarrow> other)"

definition time_left :: "Bridge \<Rightarrow> nat" where
  "time_left b =
     (case grace_until b of
        Some t \<Rightarrow> t - bridge_clock b
      | None \<Rightarrow> closing_time (c2u b) (bridge_clock b) (closing_time (u2c b) (bridge_clock b) drain_grace) + drain_grace)"

definition phase_rank :: "Phase \<Rightarrow> nat" where
  "phase_rank p = (case p of Running \<Rightarrow> 2 | Draining t \<Rightarrow> 1 | _ \<Rightarrow> 0)"

definition bridge_measure :: "Bridge \<Rightarrow> nat" where
  "bridge_measure b =
     length (c_rx b) + length (u_rx b) + phase_rank (c2u b) + phase_rank (u2c b) + time_left b"

text \<open>A bridge in which a direction has ended or is on its last read.\<close>

definition closing_down :: "Bridge \<Rightarrow> bool" where
  "closing_down b \<longleftrightarrow> c2u b \<noteq> Running \<or> u2c b \<noteq> Running"

lemma phase_rank_simps [simp]:
  "phase_rank Running = 2" "phase_rank (Draining t) = 1" "phase_rank Finished = 0" "phase_rank Dropped = 0"
  "phase_rank (phase_after n ctl) < 3"
  by (simp_all add: phase_rank_def split: Phase.splits)

lemma closing_time_le: "closing_time p n x \<le> x"
  by (simp add: closing_time_def split: Phase.split)

lemma closing_time_strict:
  assumes "\<forall>t. p = Draining t \<longrightarrow> n < t \<and> t \<le> n + g" and "\<forall>t. q = Draining t \<longrightarrow> n < t \<and> t \<le> n + g"
    and "\<not> over p" "\<not> over q" "p \<noteq> Running \<or> q \<noteq> Running"
  shows "closing_time p (Suc n) (closing_time q (Suc n) g) < closing_time p n (closing_time q n g)"
  using assms by (cases p; cases q) (simp_all add: closing_time_def, arith+)

lemma time_left_c2u:
  assumes ok: "timers_ok b" and "\<not> over (c2u b)"
    and phase: "phase = Finished \<or> c2u b = Running \<and> (phase = Running \<or> phase = Draining (bridge_clock b + drain_grace))"
    and b': "c2u b' = phase" "u2c b' = u2c b" "bridge_clock b' = bridge_clock b" "grace_until b' = grace_until b"
  shows "time_left (drain_pair b') \<le> time_left b"
proof (cases "grace_until b")
  case None
  with ok have "\<not> over (u2c b)" by (simp add: timers_ok_def)
  with phase b' None closing_time_le [of "u2c b" "bridge_clock b" drain_grace] show ?thesis
    by (elim disjE conjE) (simp_all add: time_left_def drain_pair_def closing_time_def)
next
  case Some
  with b' show ?thesis by (simp add: time_left_def drain_pair_def)
qed

lemma time_left_u2c:
  assumes ok: "timers_ok b" and "\<not> over (u2c b)"
    and phase: "phase = Finished \<or> u2c b = Running \<and> (phase = Running \<or> phase = Draining (bridge_clock b + drain_grace))"
    and b': "u2c b' = phase" "c2u b' = c2u b" "bridge_clock b' = bridge_clock b" "grace_until b' = grace_until b"
  shows "time_left (drain_pair b') \<le> time_left b"
proof (cases "grace_until b")
  case None
  with ok have "\<not> over (c2u b)" by (simp add: timers_ok_def)
  with phase b' None closing_time_le [of "c2u b" "bridge_clock b" drain_grace] show ?thesis
    by (elim disjE conjE) (simp_all add: time_left_def drain_pair_def closing_time_def split: Phase.split)
next
  case Some
  with b' show ?thesis by (simp add: time_left_def drain_pair_def)
qed

lemma phase_after_cases:
  "phase_after n ctl = Finished \<or> phase_after n ctl = Running \<or> phase_after n ctl = Draining (n + drain_grace)"
  by (simp add: phase_after_def split: Control.split)

text \<open>Where a timer is due, time stands still; so a bridge that is closing down comes closer to its end.\<close>

lemma time_left_passes:
  assumes quiet: "\<nexists>b'. timer_step b b'" and open_: "\<not> bridge_over b" and ok: "timers_ok b"
    and "closing_down b"
  shows "time_left (b\<lparr>bridge_clock := Suc (bridge_clock b)\<rparr>) < time_left b"
proof (cases "grace_until b")
  case None
  with ok have run: "\<not> over (c2u b)" "\<not> over (u2c b)" by (auto simp: timers_ok_def)
  have due: "bridge_clock b < t \<and> t \<le> bridge_clock b + drain_grace" if "c2u b = Draining t \<or> u2c b = Draining t" for t
  proof
    show "bridge_clock b < t"
      using that quiet timer_step.c2u_drain_over [of b t] timer_step.u2c_drain_over [of b t] by (meson not_le)
    show "t \<le> bridge_clock b + drain_grace" using that ok unfolding timers_ok_def by blast
  qed
  have "closing_time (c2u b) (Suc (bridge_clock b)) (closing_time (u2c b) (Suc (bridge_clock b)) drain_grace)
      < closing_time (c2u b) (bridge_clock b) (closing_time (u2c b) (bridge_clock b) drain_grace)"
    using run due \<open>closing_down b\<close> by (intro closing_time_strict) (auto simp: closing_down_def)
  with None show ?thesis by (simp add: time_left_def)
next
  case (Some t)
  with ok open_ have "\<not> over (c2u b) \<and> u2c b = Finished \<or> \<not> over (u2c b) \<and> c2u b = Finished"
    by (auto simp: timers_ok_def bridge_over_def over_def)
  then have "bridge_clock b < t"
    using quiet Some timer_step.c2u_grace_over [of b t] timer_step.u2c_grace_over [of b t] by (meson not_le)
  with Some show ?thesis by (simp add: time_left_def)
qed

definition comes_closer :: "Bridge \<Rightarrow> Bridge \<Rightarrow> bool" where
  "comes_closer b b' \<longleftrightarrow> bridge_measure b' < bridge_measure b \<and> bridge_clock b' + time_left b' \<le> bridge_clock b + time_left b
     \<and> closing_down b' \<and> (grace_until b \<noteq> None \<longrightarrow> grace_until b' = grace_until b)"

lemma drain_pair_grace: "grace_until b \<noteq> None \<Longrightarrow> grace_until (drain_pair b) = grace_until b"
  by (simp add: drain_pair_def)

lemma comes_closer_c2u:
  assumes "timers_ok b" and "closing_down b" and "\<not> over (c2u b)"
    and "phase = Finished \<or> c2u b = Running \<and> (phase = Running \<or> phase = Draining (bridge_clock b + drain_grace))"
    and "b' = drain_pair b''"
    and "c2u b'' = phase" "u2c b'' = u2c b" "bridge_clock b'' = bridge_clock b" "grace_until b'' = grace_until b" "u_rx b'' = u_rx b"
    and "length (c_rx b'') + phase_rank phase < length (c_rx b) + phase_rank (c2u b)"
  shows "comes_closer b b'"
proof -
  have "time_left b' \<le> time_left b" using time_left_c2u [OF assms(1,3,4,6-9)] assms(5) by simp
  moreover have "closing_down b'" using assms(2,4-7) by (auto simp: closing_down_def)
  ultimately show ?thesis
    using assms(5-11) drain_pair_grace [of b''] by (simp add: comes_closer_def bridge_measure_def)
qed

lemma comes_closer_u2c:
  assumes "timers_ok b" and "closing_down b" and "\<not> over (u2c b)"
    and "phase = Finished \<or> u2c b = Running \<and> (phase = Running \<or> phase = Draining (bridge_clock b + drain_grace))"
    and "b' = drain_pair b''"
    and "u2c b'' = phase" "c2u b'' = c2u b" "bridge_clock b'' = bridge_clock b" "grace_until b'' = grace_until b" "c_rx b'' = c_rx b"
    and "length (u_rx b'') + phase_rank phase < length (u_rx b) + phase_rank (u2c b)"
  shows "comes_closer b b'"
proof -
  have "time_left b' \<le> time_left b" using time_left_u2c [OF assms(1,3,4,6-9)] assms(5) by simp
  moreover have "closing_down b'" using assms(2,4-7) by (auto simp: closing_down_def)
  ultimately show ?thesis
    using assms(5-11) drain_pair_grace [of b''] by (simp add: comes_closer_def bridge_measure_def)
qed

lemma phase_rank_pos: "\<not> over p \<Longrightarrow> phase_rank p > 0"
  by (cases p) simp_all

lemma silent_comes_closer:
  assumes "silent_step b b'" and ok: "timers_ok b" and cl: "closing_down b"
  shows "comes_closer b b'"
  using assms(1)
proof (cases rule: silent_stepE)
  case timer
  then show ?thesis
  proof (cases rule: timer_stepE)
    case (c2u_drain_over t)
    then show ?thesis by (intro comes_closer_c2u [OF ok cl _ _ c2u_drain_over(1), of Finished]) simp_all
  next
    case (u2c_drain_over t)
    then show ?thesis by (intro comes_closer_u2c [OF ok cl _ _ u2c_drain_over(1), of Finished]) simp_all
  next
    case (c2u_grace_over t)
    then show ?thesis
      using phase_rank_pos [OF c2u_grace_over(3)]
      by (simp add: comes_closer_def bridge_measure_def time_left_def closing_down_def)
  next
    case (u2c_grace_over t)
    then show ?thesis
      using phase_rank_pos [OF u2c_grace_over(3)]
      by (simp add: comes_closer_def bridge_measure_def time_left_def closing_down_def)
  qed
next
  case time_passes
  then have "time_left b' < time_left b" using time_left_passes [OF _ _ ok cl] by simp
  with time_passes cl show ?thesis by (simp add: comes_closer_def bridge_measure_def closing_down_def)
qed

lemma step_comes_closer:
  assumes "bridge_step J mock b b'" and ok: "timers_ok b" and cl: "closing_down b"
  shows "comes_closer b b'"
  using assms(1)
proof (cases rule: bridge_stepE)
  case (c2u_message m r ctl cs us)
  then show ?thesis
    using phase_after_cases [of "bridge_clock b" ctl] phase_rank_simps(5) [of "bridge_clock b" ctl]
    by (intro comes_closer_c2u [OF ok cl _ _ c2u_message(1), of "phase_after (bridge_clock b) ctl"]) simp_all
next
  case (u2c_message m r ctl cs)
  then show ?thesis
    using phase_after_cases [of "bridge_clock b" ctl] phase_rank_simps(5) [of "bridge_clock b" ctl]
    by (intro comes_closer_u2c [OF ok cl _ _ u2c_message(1), of "phase_after (bridge_clock b) ctl"]) simp_all
next
  case silent
  then show ?thesis using silent_comes_closer ok cl by blast
next
  case (c2u_ends e r)
  then show ?thesis by (intro comes_closer_c2u [OF ok cl _ _ c2u_ends(1), of Finished]) simp_all
next
  case (c2u_drained t i r)
  then show ?thesis by (intro comes_closer_c2u [OF ok cl _ _ c2u_drained(1), of Finished]) simp_all
next
  case (u2c_ends e r)
  then show ?thesis by (intro comes_closer_u2c [OF ok cl _ _ u2c_ends(1), of Finished]) simp_all
next
  case (u2c_drained t i r)
  then show ?thesis by (intro comes_closer_u2c [OF ok cl _ _ u2c_drained(1), of Finished]) simp_all
qed

lemma closing_run:
  assumes "(bridge_step J mock ^^ n) b b'" and "timers_ok b" and "closing_down b"
  shows "timers_ok b' \<and> closing_down b' \<and> n + bridge_measure b' \<le> bridge_measure b
     \<and> bridge_clock b' + time_left b' \<le> bridge_clock b + time_left b"
  using assms(1)
proof (induction n arbitrary: b')
  case (Suc n)
  then obtain b'' where b'': "(bridge_step J mock ^^ n) b b''" "bridge_step J mock b'' b'" by auto
  with Suc.IH have "timers_ok b''" "closing_down b''" "n + bridge_measure b'' \<le> bridge_measure b"
    "bridge_clock b'' + time_left b'' \<le> bridge_clock b + time_left b" by simp_all
  with step_comes_closer [OF b''(2)] timers_ok_step [OF b''(2)] show ?case by (simp add: comes_closer_def)
qed (use assms in simp)

lemma time_left_bound:
  "timers_ok b \<Longrightarrow> time_left b \<le> (if over (c2u b) \<or> over (u2c b) then drain_grace else 2 * drain_grace)"
proof (cases "grace_until b")
  case None
  assume "timers_ok b"
  with None have "\<not> over (c2u b)" "\<not> over (u2c b)" by (simp_all add: timers_ok_def)
  moreover have "closing_time (c2u b) (bridge_clock b) (closing_time (u2c b) (bridge_clock b) drain_grace) \<le> drain_grace"
    using closing_time_le order_trans by blast
  ultimately show ?thesis using None by (simp add: time_left_def)
qed (force simp: timers_ok_def time_left_def)

text \<open>Without the peers a bridge still goes on, unless it is over.\<close>

lemma silent_progress: "\<not> bridge_over b \<Longrightarrow> \<exists>b'. silent_step b b'"
  using silent_step.intros by blast

lemma bridge_over_final: "bridge_over b \<Longrightarrow> \<not> bridge_step J mock b b'"
  by (auto simp: bridge_over_def over_def elim!: bridge_stepE silent_stepE timer_stepE)

lemma closing_ends:
  "timers_ok b \<Longrightarrow> closing_down b \<Longrightarrow> \<exists>b'. silent_step\<^sup>*\<^sup>* b b' \<and> bridge_over b'"
proof (induction "bridge_measure b" arbitrary: b rule: less_induct)
  case less
  show ?case
  proof (cases "bridge_over b")
    case False
    then obtain b' where b': "silent_step b b'" using silent_progress by blast
    with less.prems have "timers_ok b'" "comes_closer b b'"
      using timers_ok_silent silent_comes_closer by blast+
    with less.hyps [of b'] obtain b'' where "silent_step\<^sup>*\<^sup>* b' b''" "bridge_over b''"
      by (auto simp: comes_closer_def)
    with b' show ?thesis by (blast intro: converse_rtranclp_into_rtranclp)
  qed blast
qed

lemma silent_run: "silent_step\<^sup>*\<^sup>* b b' \<Longrightarrow> (bridge_step J mock)\<^sup>*\<^sup>* b b'"
  by (erule mono_rtranclp [rule_format, rotated]) (rule bridge_step.silent)

text \<open>While both directions run, nothing but time passes.\<close>

lemma running_timer: "c2u b = Running \<Longrightarrow> u2c b = Running \<Longrightarrow> \<not> timer_step b b'"
  by (auto elim: timer_stepE)

lemma idle_step:
  "c2u b = Running \<Longrightarrow> u2c b = Running \<Longrightarrow> silent_step b b' \<longleftrightarrow> b' = b\<lparr>bridge_clock := Suc (bridge_clock b)\<rparr>"
  using running_timer [of b] silent_step.time_passes [of b]
  by (auto simp: bridge_over_def elim: silent_stepE)

lemma idle_run:
  "c2u b = Running \<Longrightarrow> u2c b = Running \<Longrightarrow> (silent_step ^^ k) b b' \<longleftrightarrow> b' = b\<lparr>bridge_clock := bridge_clock b + k\<rparr>"
proof (induction k arbitrary: b')
  case (Suc k)
  have "(silent_step ^^ Suc k) b b' \<longleftrightarrow> (\<exists>x. (silent_step ^^ k) b x \<and> silent_step x b')" by auto
  also have "\<dots> \<longleftrightarrow> silent_step (b\<lparr>bridge_clock := bridge_clock b + k\<rparr>) b'" using Suc.IH [OF Suc.prems] by simp
  also have "\<dots> \<longleftrightarrow> b' = b\<lparr>bridge_clock := bridge_clock b + Suc k\<rparr>"
    using idle_step [of "b\<lparr>bridge_clock := bridge_clock b + k\<rparr>"] Suc.prems by simp
  finally show ?case .
qed auto

section \<open>Properties\<close>

text \<open>C13: the relay is faithful at every moment. Whatever arrives on either side and in whatever order
  the two directions run, what was written upstream is a prefix of the client's messages (up to
  its first error or close) without those the mock handled, in order and unchanged; and what was
  written to the client is an interleaving of a prefix of the mock's answers, in the order of
  their requests, and a prefix of the upstream's messages.\<close>

theorem relay_faithful:
  assumes "(bridge_step J mock)\<^sup>*\<^sup>* (bridge_start cs us c_room u_room) b"
  shows "prefix (delivered (u_tx b)) (outgoing J mock (messages cs))
     \<and> (\<exists>A U. delivered (c_tx b) \<in> shuffles A U
          \<and> prefix A (answers J mock (messages cs)) \<and> prefix U (messages us))"
  using bridge_reachable [OF assms] unfolding bridge_inv_def
  by (blast dest: outgoing.half_ok_prefix answers.half_ok_prefix unchanged.half_ok_prefix)

definition sample_items :: items where
  "sample_items = [Inr (Text ''a''), Inr (Binary ''b''), Inr (Close []), Inr (Text ''late'')]"

definition sample_bridge :: "items \<Rightarrow> Message list \<Rightarrow> nat \<Rightarrow> Phase \<Rightarrow> nat option \<Rightarrow> Bridge" where
  "sample_bridge r d k p g = \<lparr>c_rx = r, u_rx = [], c_tx = \<lparr>delivered = [], room = 9\<rparr>,
      u_tx = \<lparr>delivered = d, room = k\<rparr>, c2u = p, u2c = Running, bridge_clock = 0, grace_until = g\<rparr>"

lemma sample_step:
  "bridge_step J False (sample_bridge (Inr m # r) d (Suc k) Running None)
     (sample_bridge r (d @ [m]) k (if is_close m then Draining 1000 else Running) None)"
  using bridge_step.c2u_message [of "sample_bridge (Inr m # r) d (Suc k) Running None" m r J False]
  by (cases "is_close m")
    (simp_all add: sample_bridge_def c2u_item_def forward_item_def send_def Let_def drain_pair_def drain_grace_def)

text \<open>The client sends two messages and a close; the upstream stays silent.\<close>

lemma sample_run:
  "(bridge_step J False)\<^sup>*\<^sup>* (bridge_start sample_items [] 9 9)
     (sample_bridge [Inr (Text ''late'')] [Text ''a'', Binary ''b'', Close []] 6 (Draining 1000) None)"
proof -
  have "bridge_start sample_items [] 9 9 = sample_bridge sample_items [] (Suc 8) Running None"
    by (simp add: bridge_start_def sample_bridge_def)
  moreover have "bridge_step J False (sample_bridge sample_items [] (Suc 8) Running None)
      (sample_bridge (drop 1 sample_items) [Text ''a''] (Suc 7) Running None)"
    using sample_step [of J "Text ''a''" _ "[]" 8] by (simp add: sample_items_def is_close_def)
  moreover have "bridge_step J False (sample_bridge (drop 1 sample_items) [Text ''a''] (Suc 7) Running None)
      (sample_bridge (drop 2 sample_items) [Text ''a'', Binary ''b''] (Suc 6) Running None)"
    using sample_step [of J "Binary ''b''" _ "[Text ''a'']" 7] by (simp add: sample_items_def is_close_def)
  moreover have "bridge_step J False (sample_bridge (drop 2 sample_items) [Text ''a'', Binary ''b''] (Suc 6) Running None)
      (sample_bridge [Inr (Text ''late'')] [Text ''a'', Binary ''b'', Close []] 6 (Draining 1000) None)"
    using sample_step [of J "Close []" _ "[Text ''a'', Binary ''b'']" 6] by (simp add: sample_items_def is_close_def)
  ultimately show ?thesis
    by (auto intro: converse_rtranclp_into_rtranclp)
qed

theorem relay_faithful_witness:
  "prefix [Text ''a'', Binary ''b'', Close []] (outgoing sample_json False (messages sample_items))"
  using relay_faithful [OF sample_run, of sample_json] by (simp add: sample_bridge_def)

text \<open>C14: nothing is lost, direction by direction. Once the client's direction has ended by itself, or is
  on its last read after a close, and the sinks it writes to (the upstream's, under the mock also
  the client's) still take messages, every client message the mock does not handle was written
  upstream and every request the mock answers was answered, whatever the other direction is doing;
  likewise all messages of the upstream were written to the client once the upstream's direction
  has ended and the client still takes messages.\<close>

theorem relay_complete:
  assumes "(bridge_step J mock)\<^sup>*\<^sup>* (bridge_start cs us c_room u_room) b"
  shows "\<exists>A U. delivered (c_tx b) \<in> shuffles A U
     \<and> prefix A (answers J mock (messages cs)) \<and> prefix U (messages us)
     \<and> (c2u b \<notin> {Running, Dropped} \<and> room (u_tx b) > 0 \<and> (mock \<longrightarrow> room (c_tx b) > 0) \<longrightarrow>
          delivered (u_tx b) = outgoing J mock (messages cs) \<and> A = answers J mock (messages cs))
     \<and> (u2c b \<notin> {Running, Dropped} \<and> room (c_tx b) > 0 \<longrightarrow> U = messages us)"
proof -
  from bridge_reachable [OF assms] obtain A U where "delivered (c_tx b) \<in> shuffles A U"
    and out: "half_ok (outgoing J mock) (c2u b) (takes_all mock b) (messages cs) (messages (c_rx b)) (delivered (u_tx b))"
    and ans: "half_ok (answers J mock) (c2u b) (takes_all mock b) (messages cs) (messages (c_rx b)) A"
    and down: "half_ok (\<lambda>ms. ms) (u2c b) (room (c_tx b) > 0) (messages us) (messages (u_rx b)) U"
    unfolding bridge_inv_def by blast
  moreover have "c2u b \<notin> {Running, Dropped} \<and> takes_all mock b \<longrightarrow>
      delivered (u_tx b) = outgoing J mock (messages cs) \<and> A = answers J mock (messages cs)"
    "u2c b \<notin> {Running, Dropped} \<and> room (c_tx b) > 0 \<longrightarrow> U = messages us"
    using out ans down by (auto simp: half_ok_def split: Phase.splits)
  ultimately show ?thesis
    using answers.half_ok_prefix [OF ans] unchanged.half_ok_prefix [OF down]
    unfolding takes_all_def by blast
qed

text \<open>The client's direction has finished while the upstream's is still open and idle.\<close>

lemma sample_run_finished:
  "(bridge_step J False)\<^sup>*\<^sup>* (bridge_start sample_items [] 9 9)
     (sample_bridge [] [Text ''a'', Binary ''b'', Close []] 6 Finished (Some 1000))"
proof -
  let ?b = "sample_bridge [Inr (Text ''late'')] [Text ''a'', Binary ''b'', Close []] 6 (Draining 1000) None"
  have "bridge_step J False ?b (sample_bridge [] [Text ''a'', Binary ''b'', Close []] 6 Finished (Some 1000))"
    using bridge_step.c2u_drained [of ?b 1000 "Inr (Text ''late'')" "[]" J False]
    by (simp add: sample_bridge_def drain_pair_def drain_grace_def)
  with sample_run [of J] show ?thesis by (rule rtranclp.rtrancl_into_rtrancl)
qed

theorem relay_complete_witness:
  "[Text ''a'', Binary ''b'', Close []] = outgoing sample_json False (messages sample_items)"
  using relay_complete [OF sample_run_finished, of sample_json] by (auto simp: sample_bridge_def)

text \<open>Nothing is written in a direction after a close: if a close frame was written upstream, it
  is the last thing written there.\<close>

lemma nothing_after_close:
  assumes "(bridge_step J mock)\<^sup>*\<^sup>* (bridge_start cs us c_room u_room) b"
  shows "list_all (\<lambda>m. \<not> is_close m) (butlast (delivered (u_tx b)))"
proof -
  have "prefix (delivered (u_tx b)) (outgoing J mock (messages cs))"
    by (rule bridge_prefix [OF assms])
  moreover have "list_all (\<lambda>m. \<not> is_close m) (butlast (outgoing J mock (messages cs)))"
    unfolding outgoing_def by (induction cs rule: messages.induct) auto
  ultimately show ?thesis
    using in_set_butlastD
    by (fastforce simp: prefix_def butlast_append list_all_iff split: if_splits)
qed

text \<open>The mock shields the upstream and nothing else. A text that the mock answers or swallows
  never reaches the upstream.\<close>

lemma mock_shields_upstream:
  assumes "(bridge_step J True)\<^sup>*\<^sup>* (bridge_start cs us c_room u_room) b"
    and "mock_syncing J t \<noteq> Forward"
  shows "Text t \<notin> set (delivered (u_tx b))"
proof
  assume t: "Text t \<in> set (delivered (u_tx b))"
  have "prefix (delivered (u_tx b)) (outgoing J True (messages cs))"
    by (rule bridge_prefix [OF assms(1)])
  then have "Text t \<in> set (outgoing J True (messages cs))"
    using t by (auto simp: prefix_def)
  then show False using assms(2) by (simp add: outgoing_def inspected_def)
qed

lemma mock_transparent_step:
  assumes "bridge_step J m1 b b'" and "\<forall>t. Inr (Text t) \<in> set (c_rx b) \<longrightarrow> \<not> all_local J t"
  shows "bridge_step J m2 b b' \<and> set (c_rx b') \<subseteq> set (c_rx b)"
  using assms(1)
proof (cases rule: bridge_stepE)
  case (c2u_message m r ctl cs us)
  then have "inspected J mock m = Forward" for mock
    using assms(2) mock.not_handled_forward [of J] by (auto simp: inspected_def split: Message.splits)
  then have "c2u_item J m2 m (c_tx b) (u_tx b) = (ctl, cs, us)"
    using c2u_message(4) by (simp add: c2u_item_inspected)
  with c2u_message show ?thesis
    using bridge_step.c2u_message [of b m r J m2] by auto
next
  case (c2u_drained t i r)
  then show ?thesis
    using bridge_step.c2u_drained [of b t i r J m2] by auto
next
  case silent
  then have "c_rx b' = c_rx b" by (auto elim!: silent_stepE timer_stepE)
  with silent show ?thesis using bridge_step.silent by auto
qed (auto intro: bridge_step.intros)

lemma mock_transparent_run:
  assumes "\<forall>t. Inr (Text t) \<in> set cs \<longrightarrow> \<not> all_local J t"
  shows "(bridge_step J m1)\<^sup>*\<^sup>* (bridge_start cs us c_room u_room) b \<Longrightarrow>
    (bridge_step J m2)\<^sup>*\<^sup>* (bridge_start cs us c_room u_room) b \<and> set (c_rx b) \<subseteq> set cs"
proof (induction rule: rtranclp_induct)
  case base
  show ?case by (simp add: bridge_start_def)
next
  case (step b b')
  with assms have "\<forall>t. Inr (Text t) \<in> set (c_rx b) \<longrightarrow> \<not> all_local J t" by blast
  with mock_transparent_step [OF step(2) this, of m2] step show ?case
    by (meson order_trans rtranclp.rtrancl_into_rtrancl)
qed

text \<open>C17: transparency of the mock. As long as none of the client's texts consists of local calls
  only, a bridge with the mock can do exactly what a bridge without can, although it runs different
  code with one sink behind a lock: it reaches the same states.\<close>

theorem mock_transparent:
  assumes "\<forall>t. Inr (Text t) \<in> set cs \<longrightarrow> \<not> all_local J t"
  shows "(bridge_step J True)\<^sup>*\<^sup>* (bridge_start cs us c_room u_room) b
     \<longleftrightarrow> (bridge_step J False)\<^sup>*\<^sup>* (bridge_start cs us c_room u_room) b"
  using mock_transparent_run [OF assms] by blast

theorem mock_transparent_witness:
  "(bridge_step sample_json True)\<^sup>*\<^sup>* (bridge_start sample_items [] 9 9)
     (sample_bridge [] [Text ''a'', Binary ''b'', Close []] 6 Finished (Some 1000))"
proof -
  have "\<not> all_local sample_json ''a''" "\<not> all_local sample_json ''late''" by code_simp+
  then have "\<forall>t. Inr (Text t) \<in> set sample_items \<longrightarrow> \<not> all_local sample_json t"
    by (auto simp: sample_items_def)
  from mock_transparent [OF this] sample_run_finished show ?thesis by blast
qed

text \<open>C15: a tunnel ends when one of its directions does, and only then. While both directions run,
  silence of both peers changes nothing but the time, for however long. As soon as one direction
  has ended or is on its last read, whatever the peers do or fail to do, every run of the tunnel is
  finite and takes at most two seconds more, at most one once a direction is over; and the tunnel
  gets to its end without the help of the peers. It never gets stuck before: a tunnel takes no step
  exactly when both directions are over.\<close>

theorem bridge_terminates:
  assumes "(bridge_step J mock)\<^sup>*\<^sup>* (bridge_start cs us c_room u_room) b"
  shows "(c2u b = Running \<and> u2c b = Running \<longrightarrow>
       (\<forall>k b'. (silent_step ^^ k) b b' \<longleftrightarrow> b' = b\<lparr>bridge_clock := bridge_clock b + k\<rparr>))
     \<and> (c2u b \<noteq> Running \<or> u2c b \<noteq> Running \<longrightarrow>
       (\<forall>n b'. (bridge_step J mock ^^ n) b b' \<longrightarrow> n \<le> bridge_measure b
          \<and> bridge_clock b' \<le> bridge_clock b + (if over (c2u b) \<or> over (u2c b) then 1000 else 2000))
       \<and> (\<exists>b'. silent_step\<^sup>*\<^sup>* b b' \<and> bridge_over b'))
     \<and> (bridge_over b \<longleftrightarrow> (\<nexists>b'. bridge_step J mock b b'))
     \<and> (bridge_over b \<longleftrightarrow> (\<nexists>b'. silent_step b b'))"
proof (intro conjI impI allI)
  have ok: "timers_ok b" by (rule timers.inv_reachable [OF refl assms])
  show "(silent_step ^^ k) b b' \<longleftrightarrow> b' = b\<lparr>bridge_clock := bridge_clock b + k\<rparr>" if "c2u b = Running \<and> u2c b = Running" for k b'
    using that by (intro idle_run) simp_all
  show "\<exists>b'. silent_step\<^sup>*\<^sup>* b b' \<and> bridge_over b'" if "c2u b \<noteq> Running \<or> u2c b \<noteq> Running"
    using that by (intro closing_ends ok) (simp add: closing_down_def)
  show "bridge_over b \<longleftrightarrow> (\<nexists>b'. bridge_step J mock b b')"
    using bridge_over_final silent_progress bridge_step.silent by metis
  show "bridge_over b \<longleftrightarrow> (\<nexists>b'. silent_step b b')"
    using bridge_over_final silent_progress bridge_step.silent by metis
  fix n b'
  assume "c2u b \<noteq> Running \<or> u2c b \<noteq> Running" and run: "(bridge_step J mock ^^ n) b b'"
  then have r: "n + bridge_measure b' \<le> bridge_measure b" "bridge_clock b' + time_left b' \<le> bridge_clock b + time_left b"
    using closing_run [OF run ok] by (simp_all add: closing_down_def)
  then show "n \<le> bridge_measure b" by simp
  show "bridge_clock b' \<le> bridge_clock b + (if over (c2u b) \<or> over (u2c b) then 1000 else 2000)"
    using r(2) time_left_bound [OF ok] by (simp add: drain_grace_def split: if_splits)
qed

theorem bridge_terminates_witness:
  "let b = sample_bridge [] [Text ''a'', Binary ''b'', Close []] 6 Finished (Some 1000) in
     (\<exists>b'. silent_step\<^sup>*\<^sup>* b b' \<and> bridge_over b')
     \<and> (\<nexists>b'. (bridge_step sample_json False ^^ Suc (bridge_measure b)) b b')"
  unfolding Let_def
proof
  note ends = bridge_terminates [OF sample_run_finished, of sample_json]
  let ?b = "sample_bridge [] [Text ''a'', Binary ''b'', Close []] 6 Finished (Some 1000)"
  have p: "c2u ?b \<noteq> Running \<or> u2c ?b \<noteq> Running" by (simp add: sample_bridge_def)
  from ends p show "\<exists>b'. silent_step\<^sup>*\<^sup>* ?b b' \<and> bridge_over b'" by blast
  from ends p have "n \<le> bridge_measure ?b" if "(bridge_step sample_json False ^^ n) ?b b'" for n b'
    using that by blast
  then show "\<nexists>b'. (bridge_step sample_json False ^^ Suc (bridge_measure ?b)) ?b b'"
    using Suc_n_not_le_n by blast
qed

text \<open>One direction on its own, as a function: it writes exactly the messages of its stream, in
  order, as far as the writer takes them.\<close>

lemma forward_writes:
  "forward items w = \<lparr>delivered = delivered w @ take (room w) (messages items),
     room = room w - length (messages items)\<rparr>"
proof (induction items w rule: forward.induct)
  case (3 m r w)
  show ?case
  proof (cases rule: forward_item_cases [of w m])
    case failed
    then show ?thesis by (cases "is_close m") auto
  next
    case (sent w')
    then show ?thesis using 3 by (cases "is_close m") auto
  qed
qed auto

end
