(* ===== verification/Otel.thy ===== *)
theory Otel
  imports Websocket
begin

text \<open>
  \<open>src/otel.rs\<close>: the headers that carry the trace context upstream (\<open>propagate_context\<close>), the
  endpoints of the exporters (\<open>signal_endpoint\<close>, \<open>init_otel\<close>), the registries that give one instrument
  per metric key, and the gauge operations. The OpenTelemetry SDK is the fields of \<open>otel_api\<close>:
  a context is the list of fields it stands for, \<open>build_exporter\<close> is the building of an exporter.
\<close>

section \<open>Trace context\<close>

type_synonym OtelContext = "(string \<times> string) list"

record otel_api =
  extract_context :: "(string \<Rightarrow> string option) \<Rightarrow> OtelContext"
  current_span :: "(OtelContext \<Rightarrow> OtelContext) option"
  inject_context :: "OtelContext \<Rightarrow> (string \<times> string) list"
  build_exporter :: "string \<Rightarrow> string + unit"

definition injector_set :: "http_api \<Rightarrow> string \<Rightarrow> string \<Rightarrow> HeaderMap \<Rightarrow> HeaderMap" where
  "injector_set A key v headers =
     (case (header_name A key, header_value A v) of
        (Some name, Inr x) \<Rightarrow> insert_header headers name x
      | _ \<Rightarrow> headers)"

definition extractor_get :: "http_api \<Rightarrow> HeaderMap \<Rightarrow> string \<Rightarrow> string option" where
  "extractor_get A headers key =
     Option.bind (Option.bind (header_name A key) (get_header headers)) (\<lambda>v. result_ok (to_str A v))"

definition propagate_context :: "http_api \<Rightarrow> otel_api \<Rightarrow> HeaderMap \<Rightarrow> HeaderMap" where
  "propagate_context A T headers =
     (let parent_cx = extract_context T (extractor_get A headers);
          cx = (case current_span T of None \<Rightarrow> parent_cx | Some set_parent \<Rightarrow> set_parent parent_cx)
      in fold (\<lambda>(key, v) h. injector_set A key v h) (inject_context T cx) headers)"

section \<open>Exporters\<close>

definition signal_endpoint :: "http_api \<Rightarrow> string \<Rightarrow> string \<Rightarrow> string + string" where
  "signal_endpoint A endpoint signal =
     and_then (parse_uri A endpoint) (\<lambda>uri.
       if scheme_str uri \<notin> {Some ''http'', Some ''https''} \<or> authority uri = None
          \<or> uri_query uri \<noteq> None \<or> CHR ''#'' \<in> set endpoint
       then Inl ''OTLP endpoint must be an HTTP(S) base URL without a query or fragment''
       else Inr (trim_end_by (\<lambda>c. c = CHR ''/'') endpoint @ ''/v1/'' @ signal))"

text \<open>\<open>init_otel\<close>: the endpoints of the two exporters, and the globals it installed, in order.\<close>

datatype OtelGlobal = Propagator | TracerProvider string | MeterProvider string

definition init_otel :: "http_api \<Rightarrow> otel_api \<Rightarrow> string \<Rightarrow> (string + string \<times> string) \<times> OtelGlobal list" where
  "init_otel A T endpoint =
     (case and_then (signal_endpoint A endpoint ''traces'') (\<lambda>e.
             and_then (build_exporter T e) (\<lambda>_. Inr e)) of
        Inl e \<Rightarrow> (Inl e, [Propagator])
      | Inr traces \<Rightarrow>
          (case and_then (signal_endpoint A endpoint ''metrics'') (\<lambda>e.
                  and_then (build_exporter T e) (\<lambda>_. Inr e)) of
             Inl e \<Rightarrow> (Inl e, [Propagator, TracerProvider traces])
           | Inr metrics \<Rightarrow>
               (Inr (traces, metrics), [Propagator, TracerProvider traces, MeterProvider metrics])))"

definition start :: "http_api \<Rightarrow> otel_api \<Rightarrow> string option \<Rightarrow> (string + (string \<times> string) option) \<times> OtelGlobal list"
where
  "start A T endpoint =
     (case endpoint of
        None \<Rightarrow> (Inr None, [])
      | Some endpoint \<Rightarrow>
          (case init_otel A T endpoint of
             (Inl e, globals) \<Rightarrow> (Inl e, globals)
           | (Inr t, globals) \<Rightarrow> (Inr (Some t), globals)))"

section \<open>Instruments\<close>

record Key =
  key_name :: string
  key_labels :: "(string \<times> string) list"

definition convert_labels :: "Key \<Rightarrow> (string \<times> string) list" where
  "convert_labels key = map (\<lambda>(k, v). (k, v)) (key_labels key)"

datatype GaugeBackend = PlainGauge | UpDown

text \<open>An instrument carries the number under which the meter created it.\<close>

record Instrument =
  inst_id :: nat
  inst_name :: string
  inst_labels :: "(string \<times> string) list"

record GaugeInstrument = Instrument +
  backend :: GaugeBackend

record 'i Registry =
  instruments :: "Key \<rightharpoonup> 'i"
  meter_next :: nat

definition empty_registry :: "'i Registry" where
  "empty_registry = \<lparr>instruments = Map.empty, meter_next = 0\<rparr>"

text \<open>
  The first critical section only reads. The second, under the write lock, looks again and
  creates the instrument only when it is still missing; between the two, other threads may have
  registered anything.
\<close>

definition read_locked :: "Key \<Rightarrow> 'i Registry \<Rightarrow> 'i option" where
  "read_locked key reg = instruments reg key"

definition write_locked :: "(nat \<Rightarrow> Key \<Rightarrow> 'i) \<Rightarrow> Key \<Rightarrow> 'i Registry \<Rightarrow> 'i \<times> 'i Registry" where
  "write_locked build key reg =
     (case instruments reg key of
        Some i \<Rightarrow> (i, reg)
      | None \<Rightarrow>
          (let i = build (meter_next reg) key
           in (i, \<lparr>instruments = (instruments reg)(key \<mapsto> i), meter_next = Suc (meter_next reg)\<rparr>)))"

text \<open>A registration: \<open>others\<close> is what other threads did between the two sections.\<close>

definition register :: "(nat \<Rightarrow> Key \<Rightarrow> 'i) \<Rightarrow> ('i Registry \<Rightarrow> 'i Registry) \<Rightarrow> Key \<Rightarrow> 'i Registry \<Rightarrow> 'i \<times> 'i Registry"
where
  "register build others key reg =
     (case read_locked key reg of
        Some i \<Rightarrow> (i, reg)
      | None \<Rightarrow> write_locked build key (others reg))"

definition build_counter :: "nat \<Rightarrow> Key \<Rightarrow> Instrument" where
  "build_counter i key = \<lparr>inst_id = i, inst_name = key_name key, inst_labels = convert_labels key\<rparr>"

definition build_gauge :: "nat \<Rightarrow> Key \<Rightarrow> GaugeInstrument" where
  "build_gauge i key =
     \<lparr>inst_id = i, inst_name = key_name key, inst_labels = convert_labels key,
      backend = (if key_name key = ''ethryx_active_connections'' then UpDown else PlainGauge)\<rparr>"

definition build_histogram :: "nat \<Rightarrow> Key \<Rightarrow> Instrument" where
  "build_histogram i key = \<lparr>inst_id = i, inst_name = key_name key, inst_labels = convert_labels key\<rparr>"

definition register_counter where "register_counter = register build_counter"
definition register_gauge where "register_gauge = register build_gauge"
definition register_histogram where "register_histogram = register build_histogram"

section \<open>Gauge operations\<close>

text \<open>
  The series a backend exports: what was recorded last, or the running sum. Values are integers;
  the program adds and subtracts 1 only.
\<close>

fun gauge_increment :: "GaugeBackend \<Rightarrow> int \<Rightarrow> int \<Rightarrow> int" where
  "gauge_increment UpDown v series = series + v"
| "gauge_increment PlainGauge v series = v"

fun gauge_decrement :: "GaugeBackend \<Rightarrow> int \<Rightarrow> int \<Rightarrow> int" where
  "gauge_decrement UpDown v series = series + - v"
| "gauge_decrement PlainGauge v series = - v"

fun gauge_set :: "GaugeBackend \<Rightarrow> int \<Rightarrow> int \<Rightarrow> int" where
  "gauge_set PlainGauge v series = v"
| "gauge_set UpDown v series = series"

text \<open>A counter is a running sum that ignores absolute values; a histogram collects what it is given.\<close>

definition counter_increment :: "nat \<Rightarrow> nat \<Rightarrow> nat" where
  "counter_increment v series = series + v"

definition counter_absolute :: "nat \<Rightarrow> nat \<Rightarrow> nat" where
  "counter_absolute v series = series"

definition histogram_record :: "'v \<Rightarrow> 'v list \<Rightarrow> 'v list" where
  "histogram_record v series = series @ [v]"

section \<open>The contract of a registry\<close>

text \<open>
  \<open>reg\<close> hands out an instrument for a key. A key that has an instrument keeps it for ever and is
  given the same one again; a key gets an instrument built for its own name and labels; no two
  keys share one; the threads that run in between are themselves registrations.
\<close>

inductive registrations :: "(nat \<Rightarrow> Key \<Rightarrow> 'i) \<Rightarrow> 'i Registry \<Rightarrow> 'i Registry \<Rightarrow> bool" for build where
  none: "registrations build reg reg"
| more: "registrations build reg reg' \<Longrightarrow> registrations build reg (snd (write_locked build key reg'))"

text \<open>What a registry holds: instruments for their own keys, no two keys sharing one.\<close>

definition reg_ok ::
  "(Key \<Rightarrow> 'i \<Rightarrow> bool) \<Rightarrow> ('i \<Rightarrow> nat) \<Rightarrow> 'i Registry \<Rightarrow> bool" where
  "reg_ok made id_of reg \<longleftrightarrow>
     (\<forall>key i. instruments reg key = Some i \<longrightarrow> made key i \<and> id_of i < meter_next reg)
     \<and> (\<forall>k1 k2 i1 i2. instruments reg k1 = Some i1 \<longrightarrow> instruments reg k2 = Some i2 \<longrightarrow>
          id_of i1 = id_of i2 \<longrightarrow> k1 = k2)"

locale registry =
  fixes build :: "nat \<Rightarrow> Key \<Rightarrow> 'i" and made :: "Key \<Rightarrow> 'i \<Rightarrow> bool" and id_of :: "'i \<Rightarrow> nat"
  assumes build_made: "made key (build n key)"
    and build_id: "id_of (build n key) = n"
begin

lemma reg_ok_empty: "reg_ok made id_of empty_registry"
  by (simp add: reg_ok_def empty_registry_def)

lemma reg_ok_write: "reg_ok made id_of reg \<Longrightarrow>
    reg_ok made id_of (snd (write_locked build key reg))"
  by (auto simp: reg_ok_def write_locked_def Let_def build_made build_id less_Suc_eq
      split: option.splits) (metis order.irrefl)+

lemma write_keeps: "instruments reg k = Some i \<Longrightarrow> instruments (snd (write_locked build key reg)) k = Some i"
  by (auto simp: write_locked_def Let_def split: option.splits)

lemma write_gives: "instruments (snd (write_locked build key reg)) key = Some (fst (write_locked build key reg))"
  by (auto simp: write_locked_def Let_def split: option.splits)

lemma registrations_ok: "registrations build reg reg' \<Longrightarrow> reg_ok made id_of reg \<Longrightarrow>
    reg_ok made id_of reg'"
  by (induction rule: registrations.induct) (auto intro: reg_ok_write)

lemma registrations_keep:
  "registrations build reg reg' \<Longrightarrow> instruments reg k = Some i \<Longrightarrow> instruments reg' k = Some i"
  by (induction rule: registrations.induct) (auto intro: write_keeps)

lemma register_registrations:
  "registrations build reg (others reg) \<Longrightarrow> registrations build reg (snd (register build others key reg))"
  by (auto simp: register_def read_locked_def split: option.splits intro: registrations.intros)

lemma register_gives:
  "instruments (snd (register build others key reg)) key = Some (fst (register build others key reg))"
  using write_gives [of key "others reg"] by (auto simp: register_def read_locked_def split: option.splits)

lemma register_again:
  assumes "registrations build (snd (register build others key reg)) reg'"
  shows "register build others' key reg' = (fst (register build others key reg), reg')"
  using registrations_keep [OF assms register_gives] by (simp add: register_def read_locked_def)

end

lemma convert_labels_id [simp]: "convert_labels key = key_labels key"
  by (simp add: convert_labels_def)

text \<open>What an instrument made for a key is.\<close>

definition made_for :: "Key \<Rightarrow> 'x Instrument_scheme \<Rightarrow> bool" where
  "made_for key i \<longleftrightarrow> inst_name i = key_name key \<and> inst_labels i = key_labels key"

definition made_gauge :: "Key \<Rightarrow> GaugeInstrument \<Rightarrow> bool" where
  "made_gauge key i \<longleftrightarrow> made_for key i
     \<and> (backend i = UpDown \<longleftrightarrow> key_name key = ''ethryx_active_connections'')"

interpretation counters: registry build_counter made_for inst_id
  by unfold_locales (simp_all add: build_counter_def made_for_def)

interpretation gauges: registry build_gauge made_gauge inst_id
  by unfold_locales (simp_all add: build_gauge_def made_for_def made_gauge_def)

interpretation histograms: registry build_histogram made_for inst_id
  by unfold_locales (simp_all add: build_histogram_def made_for_def)

section \<open>Properties\<close>

text \<open>C40: one instrument per metric key. However threads interleave, registering a gauge gives the
  key an instrument with its own name and labels, which no other key has and which every later
  registration of the key, by any thread, gives again without touching the registry; the
  instruments registered before stay. Counters and histograms share the code's pattern.\<close>

theorem one_gauge_per_key:
  assumes "registrations build_gauge empty_registry reg"
    and "registrations build_gauge reg (others reg)"
    and "register_gauge others key reg = (i, reg')"
    and "registrations build_gauge reg' later"
  shows "register_gauge others' key later = (i, later)
     \<and> inst_name i = key_name key \<and> inst_labels i = key_labels key
     \<and> (backend i = UpDown \<longleftrightarrow> key_name key = ''ethryx_active_connections'')
     \<and> (\<forall>k j. instruments later k = Some j \<longrightarrow> inst_id j = inst_id i \<longrightarrow> k = key)
     \<and> (\<forall>k j. instruments reg k = Some j \<longrightarrow> instruments later k = Some j)"
proof -
  note r = assms(3) [unfolded register_gauge_def]
  have run: "registrations build_gauge reg reg'"
    using gauges.register_registrations [of reg others key] assms(2) r by simp
  have ok: "reg_ok made_gauge inst_id later"
    using gauges.registrations_ok gauges.reg_ok_empty assms(1,4) run by blast
  have i: "instruments later key = Some i"
    using gauges.registrations_keep [OF assms(4)] gauges.register_gives [of others key reg] r by simp
  have "register_gauge others' key later = (i, later)"
    using gauges.register_again [of others key reg later others'] assms(4) r
    by (simp add: register_gauge_def)
  moreover have "made_gauge key i" "\<forall>k j. instruments later k = Some j \<longrightarrow> inst_id j = inst_id i \<longrightarrow> k = key"
    using ok i unfolding reg_ok_def by blast+
  moreover have "\<forall>k j. instruments reg k = Some j \<longrightarrow> instruments later k = Some j"
    using gauges.registrations_keep assms(4) run by blast
  ultimately show ?thesis by (simp add: made_gauge_def made_for_def)
qed

theorem one_gauge_per_key_witness:
  "let key = \<lparr>key_name = ''ethryx_active_connections'', key_labels = [(''protocol'', ''ws'')]\<rparr>;
       (i, reg') = register_gauge id key empty_registry in
     backend i = UpDown \<and> register_gauge id key reg' = (i, reg')"
proof -
  let ?key = "\<lparr>key_name = ''ethryx_active_connections'', key_labels = [(''protocol'', ''ws'')]\<rparr>"
  obtain i reg' where r: "register_gauge id ?key empty_registry = (i, reg')" by fastforce
  have "registrations build_gauge empty_registry (id empty_registry)"
    by (simp add: registrations.none)
  from one_gauge_per_key [OF registrations.none this r registrations.none, of id] r
  show ?thesis by simp
qed

lemma trim_slashes:
  "\<exists>n. s = trim_end_by (\<lambda>c. c = CHR ''/'') s @ replicate n CHR ''/''"
proof (induction s rule: rev_induct)
  case (snoc c s)
  then obtain n where n: "s = trim_end_by (\<lambda>c. c = CHR ''/'') s @ replicate n CHR ''/''" by blast
  show ?case
  proof (cases "c = CHR ''/''")
    case True
    then have "trim_end_by (\<lambda>c. c = CHR ''/'') (s @ [c]) = trim_end_by (\<lambda>c. c = CHR ''/'') s"
      by (simp add: trim_end_by_def)
    moreover have "s @ [c] = trim_end_by (\<lambda>c. c = CHR ''/'') s @ replicate (Suc n) CHR ''/''"
      using True by (subst (1) n) (simp add: replicate_append_same)
    ultimately show ?thesis by metis
  next
    case False
    then show ?thesis by (intro exI [of _ 0]) (simp add: trim_end_by_append)
  qed
qed (simp add: trim_end_by_def)

lemma trim_slashes_end: "\<not> suffix ''/'' (trim_end_by (\<lambda>c. c = CHR ''/'') s)"
proof -
  have "\<not> prefix ''/'' (dropWhile (\<lambda>c. c = CHR ''/'') t)" for t
    by (induction t) auto
  then show ?thesis by (simp add: trim_end_by_def suffix_to_prefix)
qed

definition base_url :: "http_api \<Rightarrow> string \<Rightarrow> bool" where
  "base_url A endpoint \<longleftrightarrow>
     (\<exists>uri. parse_uri A endpoint = Inr uri \<and> scheme_str uri \<in> {Some ''http'', Some ''https''}
        \<and> authority uri \<noteq> None \<and> uri_query uri = None) \<and> CHR ''#'' \<notin> set endpoint"

lemma signal_endpoint_Inr:
  "signal_endpoint A endpoint signal = Inr r \<longleftrightarrow>
     base_url A endpoint \<and> r = trim_end_by (\<lambda>c. c = CHR ''/'') endpoint @ ''/v1/'' @ signal"
  by (auto simp: signal_endpoint_def and_then_Inr_iff base_url_def split: if_splits)

text \<open>The exporters' endpoints. When telemetry starts, both endpoints are the configured base
  without its trailing slashes followed by \<open>/v1/traces\<close> and \<open>/v1/metrics\<close>, and both providers are
  installed; when the base is not a plain HTTP(S) URL no provider is.\<close>

lemma init_otel_endpoints:
  "case init_otel A T endpoint of
     (Inr (traces, metrics), globals) \<Rightarrow>
       base_url A endpoint
       \<and> (\<exists>base n. endpoint = base @ replicate n CHR ''/'' \<and> \<not> suffix ''/'' base
            \<and> traces = base @ ''/v1/traces'' \<and> metrics = base @ ''/v1/metrics'')
       \<and> globals = [Propagator, TracerProvider traces, MeterProvider metrics]
   | (Inl e, globals) \<Rightarrow>
       \<not> (\<exists>m. MeterProvider m \<in> set globals) \<and> (base_url A endpoint \<or> globals = [Propagator])"
proof (cases "base_url A endpoint")
  case False
  then have "\<exists>e. signal_endpoint A endpoint signal = Inl e" for signal
    using signal_endpoint_Inr [of A endpoint signal] by (metis sum.exhaust)
  then obtain e where "signal_endpoint A endpoint ''traces'' = Inl e" by blast
  then show ?thesis by (simp add: init_otel_def)
next
  case True
  let ?base = "trim_end_by (\<lambda>c. c = CHR ''/'') endpoint"
  have e: "signal_endpoint A endpoint signal = Inr (?base @ ''/v1/'' @ signal)" for signal
    using True by (simp add: signal_endpoint_Inr)
  show ?thesis
  proof (cases "build_exporter T (?base @ ''/v1/traces'')")
    case (Inl err)
    then show ?thesis using True by (simp add: init_otel_def e)
  next
    case t: (Inr u)
    show ?thesis
    proof (cases "build_exporter T (?base @ ''/v1/metrics'')")
      case (Inl err)
      then show ?thesis using True t by (simp add: init_otel_def e)
    next
      case (Inr v)
      have "\<exists>base n. endpoint = base @ replicate n CHR ''/'' \<and> \<not> suffix ''/'' base
          \<and> ?base @ ''/v1/traces'' = base @ ''/v1/traces'' \<and> ?base @ ''/v1/metrics'' = base @ ''/v1/metrics''"
        using trim_slashes [of endpoint] trim_slashes_end [of endpoint] by blast
      with Inr t True show ?thesis by (simp add: init_otel_def e)
    qed
  qed
qed

text \<open>The active-connections gauge. On its up/down backend any sequence of increments and
  decrements adds up, and \<open>set\<close> changes nothing; on a plain gauge the last value stands.\<close>

lemma updown_adds_up:
  "fold (\<lambda>(up, v) s. if up then gauge_increment UpDown v s else gauge_decrement UpDown v s) ops s
     = s + sum_list (map (\<lambda>(up, v). if up then v else - v) ops)
   \<and> gauge_set UpDown v s = s \<and> gauge_set PlainGauge v s = v"
  by (induction ops arbitrary: s) auto

end
