(* ===== verification/Proxy.thy ===== *)
theory Proxy
  imports Poll Otel Rpc
begin

text \<open>
  The request path of \<open>src/proxy.rs\<close>: classification (\<open>classify_request\<close>), the local endpoints
  (\<open>probe_response\<close>), routing to the two upstreams (\<open>cl_proxy\<close>, \<open>el_proxy\<close>, \<open>send_http\<close>) and the
  dispatcher with its metrics (\<open>dispatch\<close>). Every handler returns its answer together with what it
  sent upstream, so that a property can say what an upstream never sees.

  The network of one request is part of \<open>proxy_env\<close>: how the client's body is collected under limit
  and timeout, what the upstream answers, the renderers of the JSON and metrics bodies, the peer of
  the connection, what the log filter enables, and the time the request took.
\<close>

section \<open>Environment\<close>

datatype Collected =
    CollectedBytes bytes
  | LengthLimit string
  | BodyError string
  | BodyTimeout

datatype UpstreamAnswer =
    UpstreamTimeout
  | UpstreamError string
  | UpstreamResponse Response

record proxy_env =
  http :: http_api
  json :: json_api
  ws :: ws_api
  otel :: otel_api
  collect_body :: "ResBody \<Rightarrow> Collected"
  upstream :: "ProxyClient \<Rightarrow> Request \<Rightarrow> UpstreamAnswer"
  rendered_metrics :: "string option"
  snapshot_vec :: "HealthSnapshot \<Rightarrow> bytes option"
  ready_vec :: "ReadyReport \<Rightarrow> bytes option"
  now_unix :: u64
  peer :: string
  access_log_on :: bool
  debug_on :: bool
  elapsed :: nat

text \<open>What a handler sent, and the tunnel it spawned.\<close>

datatype Contact = HttpRequest ProxyClient Request | WsHandshake Request

record Outcome =
  answer_of :: "string + Response"
  contacts :: "Contact list"
  spawned :: "Tunnel option"

definition local :: "Response \<Rightarrow> Outcome" where
  "local resp = \<lparr>answer_of = Inr resp, contacts = [], spawned = None\<rparr>"

definition failed :: "string \<Rightarrow> Outcome" where
  "failed e = \<lparr>answer_of = Inl e, contacts = [], spawned = None\<rparr>"

section \<open>Routes\<close>

datatype LocalProbe = HealthProbe | ReadyProbe | LiveProbe | MetricsProbe

datatype Target = Cl | El | WebSocket WsMode

datatype Route = ProbeRoute LocalProbe | ProxyRoute Target

fun labels :: "Target \<Rightarrow> string \<times> string" where
  "labels Cl = (''CL'', ''HTTP'')"
| "labels El = (''EL'', ''HTTP'')"
| "labels (WebSocket _) = (''EL'', ''WS'')"

definition probe_of_path :: "string \<Rightarrow> LocalProbe option" where
  "probe_of_path path =
     (if path = ''/healthz'' then Some HealthProbe
      else if path = ''/readyz'' then Some ReadyProbe
      else if path = ''/livez'' then Some LiveProbe
      else if path = ''/metrics'' then Some MetricsProbe
      else None)"

definition classify_request :: "http_api \<Rightarrow> Request \<Rightarrow> Route" where
  "classify_request A req =
     (let path = uri_path (req_uri req);
          target = (if is_cl_path path then Cl
                    else (case classify A req of Some mode \<Rightarrow> WebSocket mode | None \<Rightarrow> El))
      in if req_method req = GET \<or> req_method req = HEAD
         then (case probe_of_path path of
                 Some p \<Rightarrow> ProbeRoute p
               | None \<Rightarrow> ProxyRoute target)
         else ProxyRoute target)"

definition probe_response :: "proxy_env \<Rightarrow> LocalProbe \<Rightarrow> Method \<Rightarrow> AppState \<Rightarrow> Response" where
  "probe_response E p meth state =
     (let head = (meth = HEAD) in
      case p of
        HealthProbe \<Rightarrow> report (snapshot_vec E) (now_unix E) state head
      | ReadyProbe \<Rightarrow> ready (ready_vec E) (now_unix E) state head
      | LiveProbe \<Rightarrow> text_response OK_200 (if head then [] else ''ok'')
      | MetricsProbe \<Rightarrow>
          \<lparr>res_status = OK_200,
           res_headers = insert_header empty_headers ''content-type''
             ''text/plain; version=0.0.4; charset=utf-8'',
           res_body = Full (if head then [] else case rendered_metrics E of Some t \<Rightarrow> t | None \<Rightarrow> [])\<rparr>)"

section \<open>Forwarding\<close>

definition send_http :: "proxy_env \<Rightarrow> Request \<Rightarrow> AppState \<Rightarrow> Uri \<Rightarrow> ProxyClient \<Rightarrow> Outcome" where
  "send_http E req state uri cl =
     (let headers = (if otel_enabled state then propagate_context (http E) (otel E) (req_headers req)
                     else req_headers req);
          upstream_req = req\<lparr>req_uri := uri, req_headers := strip_hop_by_hop (http E) headers,
                             protocol_ext := None, req_version := HTTP_11\<rparr>
      in \<lparr>answer_of =
            (case upstream E cl upstream_req of
               UpstreamTimeout \<Rightarrow> Inl ''upstream timeout''
             | UpstreamError e \<Rightarrow> Inl e
             | UpstreamResponse resp \<Rightarrow>
                 Inr (resp\<lparr>res_headers := strip_hop_by_hop (http E) (res_headers resp)\<rparr>)),
          contacts = [HttpRequest cl upstream_req], spawned = None\<rparr>)"

definition cl_subscription_paths :: "string list" where
  "cl_subscription_paths =
     [''/eth/v1/validator/prepare_beacon_proposer'',
      ''/eth/v1/validator/beacon_committee_subscriptions'',
      ''/eth/v1/validator/sync_committee_subscriptions'']"

definition success_json :: bytes where
  \<open>success_json = ''{"code":200,"message":"success"}''\<close>

definition cl_proxy :: "proxy_env \<Rightarrow> Request \<Rightarrow> AppState \<Rightarrow> Outcome" where
  "cl_proxy E req state =
     (let path = uri_path (req_uri req) in
      if (req_method req = GET \<or> req_method req = HEAD)
         \<and> path = ''/eth/v1/node/health'' \<and> mock_cl_node_health (cfg state)
      then local (node_health (now_unix E) state)
      else if req_method req = POST \<and> mock_cl_subscriptions (cfg state)
              \<and> path \<in> set cl_subscription_paths
      then local \<lparr>res_status = OK_200, res_headers = json_headers, res_body = Full success_json\<rparr>
      else
        (let (base, override_path) =
               (case cl_mev_relay_uri state of
                  Some mev_uri \<Rightarrow>
                    if req_method req = POST \<and> path = ''/eth/v1/validator/register_validator''
                    then (mev_uri, Some ''/eth/v1/builder/validators'')
                    else (cl_beacon_uri state, None)
                | None \<Rightarrow> (cl_beacon_uri state, None))
         in case upstream_uri (http E) base (req_uri req) override_path of
              Inl e \<Rightarrow> failed e
            | Inr uri \<Rightarrow> send_http E req state uri (client state)))"

definition try_mock_eth_syncing :: "json_api \<Rightarrow> bytes \<Rightarrow> Response option" where
  "try_mock_eth_syncing J b =
     (case mock_syncing J b of
        Forward \<Rightarrow> None
      | MockResult.Silent \<Rightarrow> Some (text_response NO_CONTENT [])
      | Reply body \<Rightarrow>
          Some \<lparr>res_status = OK_200, res_headers = json_headers, res_body = Full body\<rparr>)"

definition el_http_proxy :: "proxy_env \<Rightarrow> Request \<Rightarrow> AppState \<Rightarrow> Outcome" where
  "el_http_proxy E req state =
     (case upstream_uri (http E) (el_http_uri state) (req_uri req) None of
        Inl e \<Rightarrow> failed e
      | Inr uri \<Rightarrow> send_http E req state uri (el_client state (el_use_h2 state)))"

definition el_proxy :: "proxy_env \<Rightarrow> Request \<Rightarrow> AppState \<Rightarrow> Outcome" where
  "el_proxy E req state =
     (if req_method req = POST \<and> mock_eth_syncing (cfg state)
      then (case collect_body E (req_body req) of
              CollectedBytes b \<Rightarrow>
                (case try_mock_eth_syncing (json E) b of
                   Some mock_res \<Rightarrow> local mock_res
                 | None \<Rightarrow> el_http_proxy E (req\<lparr>req_body := Full b\<rparr>) state)
            | LengthLimit e \<Rightarrow>
                local (text_response PAYLOAD_TOO_LARGE (''failed to read request body: '' @ e))
            | BodyError e \<Rightarrow>
                local (text_response BAD_REQUEST (''failed to read request body: '' @ e))
            | BodyTimeout \<Rightarrow> local (text_response REQUEST_TIMEOUT ''request body timed out''))
      else el_http_proxy E req state)"

definition ws_proxy :: "proxy_env \<Rightarrow> Request \<Rightarrow> AppState \<Rightarrow> WsMode \<Rightarrow> Outcome" where
  "ws_proxy E req state mode =
     (case upgrade (http E) (ws E) req mode (el_ws_uri state) (mock_eth_syncing (cfg state)) of
        Inl e \<Rightarrow> failed e
      | Inr up \<Rightarrow>
          \<lparr>answer_of = Inr (up_response up),
           contacts = (case up_dialed up of Some r \<Rightarrow> [WsHandshake r] | None \<Rightarrow> []),
           spawned = up_tunnel up\<rparr>)"

fun route :: "proxy_env \<Rightarrow> Request \<Rightarrow> AppState \<Rightarrow> Target \<Rightarrow> Outcome" where
  "route E req state Cl = cl_proxy E req state"
| "route E req state (WebSocket mode) = ws_proxy E req state mode"
| "route E req state El = el_proxy E req state"

section \<open>Dispatch\<close>

definition static_methods :: "string list" where
  "static_methods = [''GET'', ''POST'', ''PUT'', ''DELETE'', ''OPTIONS'', ''HEAD'', ''PATCH'', ''CONNECT'', ''TRACE'']"

definition method_to_static_str :: "Method \<Rightarrow> string" where
  "method_to_static_str m = (if m \<in> set static_methods then m else ''OTHER'')"

definition static_statuses :: "nat list" where
  "static_statuses = [100, 101, 200, 201, 202, 204, 206, 301, 302, 304, 400, 401, 403, 404, 405,
     409, 415, 429, 500, 502, 503, 504]"

definition status_to_static_str :: "StatusCode \<Rightarrow> string" where
  "status_to_static_str status =
     (if status \<in> set static_statuses then show_base 10 status else ''OTHER'')"

text \<open>The samples \<open>dispatch\<close> records: one count, with its labels, and one duration.\<close>

datatype Sample = RequestCounted string string string | DurationRecorded string nat

text \<open>
  The line on the \<open>access_log\<close> target and the tracing span of a request. Both read the method
  from a copy taken before the request is handed on, of which the code says \<open>expect\<close>: \<open>None\<close> here
  would be a panic.
\<close>

record AccessLine =
  line_peer :: string
  line_version :: Version
  line_method :: "Method option"
  line_path :: string
  line_upstream :: string
  line_proto :: string
  line_status :: StatusCode
  line_latency :: nat

record Span =
  span_method :: "Method option"
  span_path :: string
  span_upstream :: string

record Dispatched =
  dis_response :: Response
  dis_outcome :: "Outcome option"
  dis_samples :: "Sample list"
  dis_access :: "AccessLine option"
  dis_span :: "Span option"

definition dispatch :: "proxy_env \<Rightarrow> Request \<Rightarrow> AppState \<Rightarrow> Dispatched" where
  "dispatch E req state =
     (case classify_request (http E) req of
        ProbeRoute p \<Rightarrow>
          \<lparr>dis_response = probe_response E p (req_method req) state, dis_outcome = None, dis_samples = [],
           dis_access = None, dis_span = None\<rparr>
      | ProxyRoute target \<Rightarrow>
          (let (upstream_type, upstream_proto) = labels target;
               method_label = method_to_static_str (req_method req);
               span_enabled = (otel_enabled state \<or> debug_on E);
               (meth, path) = (if access_log_on E \<or> span_enabled
                               then (Some (req_method req), uri_path (req_uri req)) else (None, []));
               res = route E req state target;
               resp = unwrap_or_else (text_response BAD_GATEWAY) (answer_of res);
               status = res_status resp
           in \<lparr>dis_response = resp, dis_outcome = Some res,
               dis_samples =
                 [RequestCounted upstream_type method_label (status_to_static_str status),
                  DurationRecorded upstream_type (elapsed E)],
               dis_access =
                 (if access_log_on E
                  then Some \<lparr>line_peer = peer E, line_version = req_version req, line_method = meth,
                             line_path = path, line_upstream = upstream_type, line_proto = upstream_proto,
                             line_status = status, line_latency = elapsed E\<rparr>
                  else None),
               dis_span =
                 (if span_enabled
                  then Some \<lparr>span_method = meth, span_path = path, span_upstream = upstream_type\<rparr>
                  else None)\<rparr>))"

section \<open>Reading the handlers\<close>

lemma outcome_simps [simp]:
  "contacts (local r) = []" "answer_of (local r) = Inr r" "spawned (local r) = None"
  "contacts (failed e) = []" "answer_of (failed e) = Inl e" "spawned (failed e) = None"
  by (simp_all add: local_def failed_def)

lemma probe_paths_not_cl: "probe_of_path path \<noteq> None \<Longrightarrow> \<not> is_cl_path path"
proof -
  have "\<not> is_cl_path ''/healthz''" "\<not> is_cl_path ''/readyz''" "\<not> is_cl_path ''/livez''" "\<not> is_cl_path ''/metrics''"
    by code_simp+
  then show "probe_of_path path \<noteq> None \<Longrightarrow> \<not> is_cl_path path"
    by (auto simp: probe_of_path_def split: if_splits)
qed

text \<open>The headers \<open>send_http\<close> strips: the client's, with the trace context when tracing is on.\<close>

definition traced :: "proxy_env \<Rightarrow> AppState \<Rightarrow> HeaderMap \<Rightarrow> HeaderMap" where
  "traced E state h = (if otel_enabled state then propagate_context (http E) (otel E) h else h)"

definition forwarded :: "proxy_env \<Rightarrow> AppState \<Rightarrow> Request \<Rightarrow> Uri \<Rightarrow> Request" where
  "forwarded E state req uri = req\<lparr>req_uri := uri,
     req_headers := strip_hop_by_hop (http E) (traced E state (req_headers req)),
     protocol_ext := None, req_version := HTTP_11\<rparr>"

definition relayed :: "proxy_env \<Rightarrow> UpstreamAnswer \<Rightarrow> string + Response" where
  "relayed E u =
     (case u of
        UpstreamTimeout \<Rightarrow> Inl ''upstream timeout''
      | UpstreamError e \<Rightarrow> Inl e
      | UpstreamResponse resp \<Rightarrow> Inr (resp\<lparr>res_headers := strip_hop_by_hop (http E) (res_headers resp)\<rparr>))"

lemma send_http_eq:
  "send_http E req state uri cl =
     \<lparr>answer_of = relayed E (upstream E cl (forwarded E state req uri)),
      contacts = [HttpRequest cl (forwarded E state req uri)], spawned = None\<rparr>"
  by (simp add: send_http_def forwarded_def relayed_def traced_def Let_def split: UpstreamAnswer.split)

text \<open>Which upstream a request belongs to, and the path that replaces its own.\<close>

definition base_of :: "AppState \<Rightarrow> Request \<Rightarrow> Target \<Rightarrow> Uri \<times> string option" where
  "base_of state req t =
     (if t = El then (el_http_uri state, None)
      else case cl_mev_relay_uri state of
        None \<Rightarrow> (cl_beacon_uri state, None)
      | Some relay \<Rightarrow>
          if req_method req = POST \<and> uri_path (req_uri req) = ''/eth/v1/validator/register_validator''
          then (relay, Some ''/eth/v1/builder/validators'')
          else (cl_beacon_uri state, None))"

definition client_of :: "AppState \<Rightarrow> Target \<Rightarrow> ProxyClient" where
  "client_of state t = (if t = El then el_client state (el_use_h2 state) else client state)"

text \<open>What the program answers by itself on the way to a target.\<close>

definition node_health_mocked :: "AppState \<Rightarrow> Request \<Rightarrow> bool" where
  "node_health_mocked state req \<longleftrightarrow> mock_cl_node_health (cfg state)
     \<and> req_method req \<in> {GET, HEAD} \<and> uri_path (req_uri req) = ''/eth/v1/node/health''"

definition subscription_mocked :: "AppState \<Rightarrow> Request \<Rightarrow> bool" where
  "subscription_mocked state req \<longleftrightarrow> mock_cl_subscriptions (cfg state)
     \<and> req_method req = POST \<and> uri_path (req_uri req) \<in> set cl_subscription_paths"

definition body_inspected :: "AppState \<Rightarrow> Request \<Rightarrow> bool" where
  "body_inspected state req \<longleftrightarrow> mock_eth_syncing (cfg state) \<and> req_method req = POST"

definition pass_on :: "proxy_env \<Rightarrow> Request \<Rightarrow> AppState \<Rightarrow> Target \<Rightarrow> Outcome" where
  "pass_on E req state t =
     (case base_of state req t of
        (base, override_path) \<Rightarrow>
          (case upstream_uri (http E) base (req_uri req) override_path of
             Inl e \<Rightarrow> failed e
           | Inr uri \<Rightarrow> send_http E req state uri (client_of state t)))"

lemma el_http_proxy_eq: "el_http_proxy E req state = pass_on E req state El"
  unfolding el_http_proxy_def pass_on_def client_of_def by (simp add: base_of_def)

lemma cl_proxy_eq:
  "cl_proxy E req state =
     (if node_health_mocked state req then local (node_health (now_unix E) state)
      else if subscription_mocked state req
      then local \<lparr>res_status = 200, res_headers = json_headers, res_body = Full success_json\<rparr>
      else pass_on E req state Cl)"
proof -
  have n: "(req_method req = GET \<or> req_method req = HEAD)
      \<and> uri_path (req_uri req) = ''/eth/v1/node/health'' \<and> mock_cl_node_health (cfg state)
      \<longleftrightarrow> node_health_mocked state req"
    by (auto simp: node_health_mocked_def)
  have s: "req_method req = POST \<and> mock_cl_subscriptions (cfg state)
      \<and> uri_path (req_uri req) \<in> set cl_subscription_paths \<longleftrightarrow> subscription_mocked state req"
    by (auto simp: subscription_mocked_def)
  have c: "client state = client_of state Cl" by (simp add: client_of_def)
  show ?thesis
    unfolding cl_proxy_def Let_def n s c pass_on_def base_of_def by simp
qed

lemma el_proxy_eq:
  "el_proxy E req state =
     (if body_inspected state req
      then (case collect_body E (req_body req) of
              CollectedBytes b \<Rightarrow>
                (case mock_syncing (json E) b of
                   Forward \<Rightarrow> pass_on E (req\<lparr>req_body := Full b\<rparr>) state El
                 | MockResult.Silent \<Rightarrow> local (text_response 204 [])
                 | Reply body \<Rightarrow> local \<lparr>res_status = 200, res_headers = json_headers, res_body = Full body\<rparr>)
            | LengthLimit e \<Rightarrow> local (text_response 413 (''failed to read request body: '' @ e))
            | BodyError e \<Rightarrow> local (text_response 400 (''failed to read request body: '' @ e))
            | BodyTimeout \<Rightarrow> local (text_response 408 ''request body timed out''))
      else pass_on E req state El)"
  by (auto simp: el_proxy_def body_inspected_def el_http_proxy_eq try_mock_eth_syncing_def
      split: Collected.split MockResult.split)

lemma pass_on_contact:
  "c \<in> set (contacts (pass_on E req state t)) \<Longrightarrow>
     \<exists>base ov uri. base_of state req t = (base, ov) \<and> upstream_uri (http E) base (req_uri req) ov = Inr uri
       \<and> contacts (pass_on E req state t) = [HttpRequest (client_of state t) (forwarded E state req uri)]
       \<and> c = HttpRequest (client_of state t) (forwarded E state req uri)
       \<and> answer_of (pass_on E req state t)
          = relayed E (upstream E (client_of state t) (forwarded E state req uri))"
  by (auto simp: pass_on_def send_http_eq split: prod.splits sum.splits)

lemma forwarded_body:
  "forwarded E state (req\<lparr>req_body := b\<rparr>) uri = (forwarded E state req uri)\<lparr>req_body := b\<rparr>"
  by (simp add: forwarded_def)

lemma base_of_body [simp]: "base_of state (req\<lparr>req_body := b\<rparr>) t = base_of state req t"
  unfolding base_of_def by (simp split: option.split)

lemma same_body [simp]: "req\<lparr>req_body := req_body req\<rparr> = (req :: Request)"
  by simp

text \<open>A request that reaches an HTTP upstream was passed on, with its body or the one inspected.\<close>

lemma route_passes:
  assumes "HttpRequest cl r \<in> set (contacts (route E req state t))"
  shows "t \<in> {Cl, El} \<and> (\<exists>body. route E req state t = pass_on E (req\<lparr>req_body := body\<rparr>) state t
     \<and> (body = req_body req \<and> \<not> (t = El \<and> body_inspected state req)
        \<or> (\<exists>b. t = El \<and> body_inspected state req \<and> collect_body E (req_body req) = CollectedBytes b
             \<and> mock_syncing (json E) b = Forward \<and> body = Full b)))"
proof (cases t)
  case Cl
  with assms have "route E req state t = pass_on E (req\<lparr>req_body := req_body req\<rparr>) state t"
    by (auto simp: cl_proxy_eq split: if_splits)
  with Cl show ?thesis by blast
next
  case El
  show ?thesis
  proof (cases "body_inspected state req")
    case False
    with El have "route E req state t = pass_on E (req\<lparr>req_body := req_body req\<rparr>) state t"
      by (simp add: el_proxy_eq)
    with El False show ?thesis by blast
  next
    case True
    with El assms show ?thesis
      by (auto simp: el_proxy_eq split: Collected.splits MockResult.splits)
  qed
next
  case (WebSocket mode)
  with assms show ?thesis by (auto simp: ws_proxy_def split: sum.splits option.splits)
qed

text \<open>Every request sent over HTTP, in one lemma: to whom, with which client, and with what body.\<close>

lemma route_contact:
  assumes "HttpRequest cl r \<in> set (contacts (route E req state t))"
  shows "t \<in> {Cl, El}
     \<and> (\<exists>base ov uri body. base_of state req t = (base, ov)
          \<and> upstream_uri (http E) base (req_uri req) ov = Inr uri
          \<and> cl = client_of state t \<and> r = (forwarded E state req uri)\<lparr>req_body := body\<rparr>
          \<and> contacts (route E req state t) = [HttpRequest cl r]
          \<and> answer_of (route E req state t) = relayed E (upstream E cl r)
          \<and> (body = req_body req \<and> \<not> (t = El \<and> body_inspected state req)
             \<or> (\<exists>b. t = El \<and> body_inspected state req \<and> collect_body E (req_body req) = CollectedBytes b
                  \<and> mock_syncing (json E) b = Forward \<and> body = Full b)))"
proof -
  from route_passes [OF assms] obtain body where t: "t \<in> {Cl, El}"
    and p: "route E req state t = pass_on E (req\<lparr>req_body := body\<rparr>) state t"
    and b: "body = req_body req \<and> \<not> (t = El \<and> body_inspected state req)
       \<or> (\<exists>b. t = El \<and> body_inspected state req \<and> collect_body E (req_body req) = CollectedBytes b
            \<and> mock_syncing (json E) b = Forward \<and> body = Full b)" by blast
  from assms pass_on_contact [of "HttpRequest cl r" E "req\<lparr>req_body := body\<rparr>" state t]
  obtain base ov uri where "base_of state req t = (base, ov)"
    "upstream_uri (http E) base (req_uri req) ov = Inr uri"
    "contacts (route E req state t) = [HttpRequest cl r]" "cl = client_of state t"
    "r = (forwarded E state req uri)\<lparr>req_body := body\<rparr>"
    "answer_of (route E req state t) = relayed E (upstream E cl r)"
    unfolding p by (auto simp: forwarded_body)
  with t b show ?thesis by blast
qed

definition sample_env :: proxy_env where
  "sample_env = \<lparr>http = rfc_api, json = sample_json, ws = sample_ws,
     otel = \<lparr>extract_context = (\<lambda>_. []), current_span = None, inject_context = (\<lambda>c. c),
             build_exporter = (\<lambda>_. Inr ())\<rparr>,
     collect_body = (\<lambda>_. CollectedBytes sample_other),
     upstream = (\<lambda>cl r. UpstreamResponse \<lparr>res_status = 200,
       res_headers = empty_headers(''connection'' := [''x-hop''], ''x-hop'' := [''1''], ''x-end'' := [''2'']),
       res_body = Incoming 1\<rparr>),
     rendered_metrics = None, snapshot_vec = (\<lambda>_. None), ready_vec = (\<lambda>_. None), now_unix = 1000,
     peer = ''192.0.2.1:49152'', access_log_on = True, debug_on = False, elapsed = 7\<rparr>"

definition sample_get :: Request where
  "sample_get = \<lparr>req_method = GET, req_uri = sample_inbound, req_version = HTTP_2,
     req_headers = empty_headers(''connection'' := [''close, X-Hop''], ''x-hop'' := [''1''], ''x-end'' := [''2'']),
     protocol_ext = None, req_body = Incoming 0\<rparr>"

definition sample_target :: Uri where
  "sample_target = sample_uri\<lparr>path_and_query := path_and_query sample_inbound\<rparr>"

lemma sample_get_contact:
  "HttpRequest (build_client True) (forwarded sample_env sample_state sample_get sample_target)
     \<in> set (contacts (route sample_env sample_get sample_state El))"
proof -
  have "upstream_uri rfc_api sample_uri sample_inbound None = Inr sample_target"
    by (simp add: upstream_uri_def Let_def sample_uri_def sample_inbound_def sample_target_def
        uri_path_def uri_query_def) (simp add: rfc_api_def rfc_from_parts_def)
  moreover have "el_http_uri sample_state = sample_uri" "el_client sample_state (el_use_h2 sample_state) = build_client True"
    "http sample_env = rfc_api" "req_uri sample_get = sample_inbound"
    "\<not> body_inspected sample_state sample_get"
    by (simp_all add: sample_state_def el_client_def sample_env_def sample_get_def body_inspected_def)
  ultimately show ?thesis
    by (simp add: el_proxy_eq pass_on_def base_of_def client_of_def send_http_eq)
qed

lemma sample_get_answer: "\<exists>resp. answer_of (route sample_env sample_get sample_state El) = Inr resp"
  using route_contact [OF sample_get_contact]
  by (auto simp: relayed_def sample_env_def)

lemma dispatch_ready:
  assumes "req_method req \<in> {GET, HEAD}" and "uri_path (req_uri req) = ''/readyz''"
  shows "dis_outcome (dispatch E req state) = None"
    and "dis_response (dispatch E req state) = ready (ready_vec E) (now_unix E) state (req_method req = HEAD)"
proof -
  have "classify_request (http E) req = ProbeRoute ReadyProbe"
    using assms by (auto simp: classify_request_def Let_def probe_of_path_def)
  then show "dis_outcome (dispatch E req state) = None"
    "dis_response (dispatch E req state) = ready (ready_vec E) (now_unix E) state (req_method req = HEAD)"
    by (simp_all add: dispatch_def probe_response_def Let_def)
qed

lemma dispatch_route:
  "dis_outcome (dispatch E req state) = Some out \<Longrightarrow> \<exists>t. out = route E req state t"
  by (auto simp: dispatch_def Let_def split: Route.splits prod.splits)

lemma pass_on_spawned [simp]: "spawned (pass_on E req state t) = None"
  by (simp add: pass_on_def send_http_eq split: prod.split sum.split)

lemma route_tunnel: "spawned (route E req state t) = Some tun \<Longrightarrow> tunnel_mock tun = mock_eth_syncing (cfg state)"
  by (cases t) (auto simp: cl_proxy_eq el_proxy_eq ws_proxy_def upgrade_tunnel
      split: if_splits Collected.splits MockResult.splits sum.splits)

section \<open>Properties\<close>

text \<open>C12: routing. A request goes to the consensus layer exactly when its path is a CL path, whatever
  its method and headers; it is answered locally exactly when it is a GET or HEAD for one of the
  four local paths; it is a WebSocket exactly when it is neither and asks for one; and everything
  else goes to the execution layer.\<close>

theorem routing_exact:
  "(classify_request A req = ProxyRoute Cl \<longleftrightarrow> is_cl_path (uri_path (req_uri req)))
   \<and> (classify_request A req = ProbeRoute p \<longleftrightarrow>
        req_method req \<in> {GET, HEAD} \<and> probe_of_path (uri_path (req_uri req)) = Some p)
   \<and> (classify_request A req = ProxyRoute (WebSocket mode) \<longleftrightarrow>
        \<not> is_cl_path (uri_path (req_uri req)) \<and> classify A req = Some mode
        \<and> \<not> (req_method req \<in> {GET, HEAD} \<and> probe_of_path (uri_path (req_uri req)) \<noteq> None))"
  using probe_paths_not_cl [of "uri_path (req_uri req)"]
  by (auto simp: classify_request_def Let_def split: option.splits)

text \<open>C2: what an upstream is sent over HTTP. A proxied request leads to at most one upstream request;
  it has the client's method, the composed URI of the upstream the path selects (the MEV relay
  for validator registrations when there is one), HTTP/1.1, no extensions, the body unchanged
  (streamed, or the inspected bytes), and exactly the headers, trace context included, that
  survive the hop-by-hop filter; the EL gets it over the transport the poller has chosen, the CL
  always over the default client.\<close>

theorem forwarded_request:
  assumes "HttpRequest cl r \<in> set (contacts (route E req state t))"
  shows "contacts (route E req state t) = [HttpRequest cl r]
     \<and> (case base_of state req t of (base, override_path) \<Rightarrow>
          upstream_uri (http E) base (req_uri req) override_path = Inr (req_uri r))
     \<and> req_method r = req_method req \<and> req_version r = HTTP_11 \<and> protocol_ext r = None
     \<and> (req_body r = req_body req
        \<or> (\<exists>b. collect_body E (req_body req) = CollectedBytes b \<and> req_body r = Full b))
     \<and> req_headers r n =
         (if n \<in> set HOP_BY_HOP \<or> n \<in> set (connection_options (http E) (traced E state (req_headers req)))
          then [] else traced E state (req_headers req) n)
     \<and> cl = (if t = Cl then client state else el_client state (el_use_h2 state))"
proof -
  note c = route_contact [OF assms]
  from c obtain base ov uri body where
    "base_of state req t = (base, ov)" "upstream_uri (http E) base (req_uri req) ov = Inr uri"
    "cl = client_of state t" "r = (forwarded E state req uri)\<lparr>req_body := body\<rparr>"
    "contacts (route E req state t) = [HttpRequest cl r]"
    "body = req_body req \<or> (\<exists>b. collect_body E (req_body req) = CollectedBytes b \<and> body = Full b)"
    by blast
  moreover from c have "t = Cl \<or> t = El" by blast
  ultimately show ?thesis
    by (auto simp: forwarded_def client_of_def strip_hop_by_hop_apply)
qed

theorem forwarded_request_witness:
  "let r = forwarded sample_env sample_state sample_get sample_target in
     contacts (route sample_env sample_get sample_state El) = [HttpRequest (build_client True) r]
     \<and> req_version r = HTTP_11 \<and> req_headers r ''x-hop'' = [] \<and> req_headers r ''x-end'' = [''2'']"
proof -
  have "''x-hop'' \<in> set (connection_options rfc_api (req_headers sample_get))"
    "''x-end'' \<notin> set (connection_options rfc_api (req_headers sample_get))"
    "''x-end'' \<notin> set HOP_BY_HOP" "req_headers sample_get ''x-end'' = [''2'']"
    by code_simp+
  moreover have t: "traced sample_env sample_state h = h" "http sample_env = rfc_api" for h
    by (simp_all add: traced_def sample_state_def sample_env_def)
  note f = forwarded_request [OF sample_get_contact]
  have "req_headers (forwarded sample_env sample_state sample_get sample_target) n =
      (if n \<in> set HOP_BY_HOP \<or> n \<in> set (connection_options rfc_api (req_headers sample_get))
       then [] else req_headers sample_get n)" for n
    using f [of n] unfolding t by blast
  moreover have "contacts (route sample_env sample_get sample_state El) =
      [HttpRequest (build_client True) (forwarded sample_env sample_state sample_get sample_target)]"
    "req_version (forwarded sample_env sample_state sample_get sample_target) = HTTP_11"
    using f by blast+
  ultimately show ?thesis by (simp only: Let_def simp_thms if_True if_False)
qed

text \<open>C3: what a client gets back from an upstream. The status and the body are the upstream's and so
  is every header that survives the hop-by-hop filter; hop-by-hop headers never cross.\<close>

theorem relayed_response:
  assumes "HttpRequest cl r \<in> set (contacts (route E req state t))"
    and "answer_of (route E req state t) = Inr resp"
  shows "\<exists>u. upstream E cl r = UpstreamResponse u
     \<and> res_status resp = res_status u \<and> res_body resp = res_body u
     \<and> (\<forall>n. res_headers resp n =
          (if n \<in> set HOP_BY_HOP \<or> n \<in> set (connection_options (http E) (res_headers u))
           then [] else res_headers u n))"
proof -
  from route_contact [OF assms(1)] have "relayed E (upstream E cl r) = Inr resp"
    using assms(2) by auto
  then show ?thesis
    by (auto simp: relayed_def strip_hop_by_hop_apply split: UpstreamAnswer.splits)
qed

theorem relayed_response_witness:
  "\<exists>resp. answer_of (route sample_env sample_get sample_state El) = Inr resp
     \<and> res_status resp = 200 \<and> res_headers resp ''connection'' = []"
proof -
  obtain resp where resp: "answer_of (route sample_env sample_get sample_state El) = Inr resp"
    using sample_get_answer by blast
  from relayed_response [OF sample_get_contact resp] have "res_status resp = 200"
    by (simp add: sample_env_def)
  moreover from relayed_response [OF sample_get_contact resp] have "res_headers resp ''connection'' = []"
    by auto
  ultimately show ?thesis using resp by blast
qed

text \<open>C11: the mocks keep their requests from the upstreams. A mocked node-health request, a mocked
  subscription and a body the JSON-RPC mock handles are answered here, with nothing sent; so are
  bodies that cannot be read, with 413 beyond the limit, 408 when too slow and 400 otherwise.\<close>

theorem mocked_requests_stay_local:
  "(node_health_mocked state req \<longrightarrow>
      route E req state Cl = local (node_health (now_unix E) state))
   \<and> (subscription_mocked state req \<longrightarrow>
      contacts (route E req state Cl) = [] \<and> isl (answer_of (route E req state Cl)) = False
      \<and> res_status (projr (answer_of (route E req state Cl))) = 200)
   \<and> (body_inspected state req \<longrightarrow>
      (case collect_body E (req_body req) of
         CollectedBytes b \<Rightarrow>
           mock_syncing (json E) b = Forward
           \<or> contacts (route E req state El) = []
             \<and> (case mock_syncing (json E) b of
                  Reply body \<Rightarrow> answer_of (route E req state El) =
                    Inr \<lparr>res_status = 200, res_headers = json_headers, res_body = Full body\<rparr>
                | _ \<Rightarrow> answer_of (route E req state El) = Inr (text_response 204 []))
       | LengthLimit e \<Rightarrow> route E req state El =
           local (text_response 413 (''failed to read request body: '' @ e))
       | BodyError e \<Rightarrow> route E req state El =
           local (text_response 400 (''failed to read request body: '' @ e))
       | BodyTimeout \<Rightarrow> route E req state El = local (text_response 408 ''request body timed out'')))"
proof -
  have "\<not> node_health_mocked state req" if "subscription_mocked state req"
    using that by (auto simp: node_health_mocked_def subscription_mocked_def)
  then show ?thesis
    by (auto simp: cl_proxy_eq el_proxy_eq split: Collected.split MockResult.split)
qed

definition sample_mocked :: AppState where
  "sample_mocked = sample_state\<lparr>cfg := default_config
     \<lparr>mock_cl_node_health := True, mock_cl_subscriptions := True, mock_eth_syncing := True\<rparr>\<rparr>"

definition sample_post :: Request where
  "sample_post = sample_get\<lparr>req_method := POST,
     req_uri := sample_uri\<lparr>path_and_query := Some \<lparr>
       pq_path = ''/eth/v1/validator/prepare_beacon_proposer'', pq_query = None\<rparr>\<rparr>\<rparr>"

theorem mocked_requests_stay_local_witness:
  "contacts (route sample_env sample_post sample_mocked Cl) = []
     \<and> (let E = sample_env\<lparr>collect_body := \<lambda>_. CollectedBytes sample_batch\<rparr> in
        contacts (route E sample_post sample_mocked El) = [])"
proof -
  have m: "subscription_mocked sample_mocked sample_post" "body_inspected sample_mocked sample_post"
    by (simp_all add: subscription_mocked_def body_inspected_def sample_mocked_def sample_post_def
        sample_uri_def uri_path_def cl_subscription_paths_def)
  let ?E = "sample_env\<lparr>collect_body := \<lambda>_. CollectedBytes sample_batch\<rparr>"
  have "collect_body ?E (req_body sample_post) = CollectedBytes sample_batch" "json ?E = sample_json"
    by (simp_all add: sample_env_def)
  then have "contacts (route ?E sample_post sample_mocked El) = []"
    using mocked_requests_stay_local [of sample_mocked sample_post ?E] m(2) sample_batch_local by simp
  moreover have "contacts (route sample_env sample_post sample_mocked Cl) = []"
    using mocked_requests_stay_local [of sample_mocked sample_post sample_env] m(1) by simp
  ultimately show ?thesis by (simp add: Let_def)
qed

text \<open>C5: dispatch answers everything and accounts for it. A local endpoint contacts no upstream and
  records nothing; every proxied request gets exactly one answer (502 with the error's text when
  the upstream could not be asked or did not answer), one count, one duration and, with the access
  log on, one line, which names the client's method and path and the status the client gets; the
  labels of the count come from a fixed set of at most 10 methods and 23 statuses; and the copy of
  the method the line and the span \<open>expect\<close> is always there.\<close>

theorem dispatch_accounts:
  "case classify_request (http E) req of
     ProbeRoute p \<Rightarrow>
       dis_outcome (dispatch E req state) = None \<and> dis_samples (dispatch E req state) = []
       \<and> dis_access (dispatch E req state) = None \<and> dis_span (dispatch E req state) = None
       \<and> dis_response (dispatch E req state) = probe_response E p (req_method req) state
   | ProxyRoute t \<Rightarrow>
       (let d = dispatch E req state; status = res_status (dis_response d) in
        dis_outcome d = Some (route E req state t)
        \<and> (case answer_of (route E req state t) of
             Inr resp \<Rightarrow> dis_response d = resp
           | Inl e \<Rightarrow> status = 502 \<and> res_body (dis_response d) = Full e)
        \<and> (\<exists>m s. dis_samples d = [RequestCounted (fst (labels t)) m s, DurationRecorded (fst (labels t)) (elapsed E)]
             \<and> m \<in> insert ''OTHER'' (set static_methods) \<and> m \<in> {req_method req, ''OTHER''}
             \<and> s \<in> insert ''OTHER'' (show_base 10 ` set static_statuses)
             \<and> s \<in> {show_base 10 status, ''OTHER''})
        \<and> dis_access d =
             (if access_log_on E
              then Some \<lparr>line_peer = peer E, line_version = req_version req,
                         line_method = Some (req_method req), line_path = uri_path (req_uri req),
                         line_upstream = fst (labels t), line_proto = snd (labels t),
                         line_status = status, line_latency = elapsed E\<rparr>
              else None)
        \<and> dis_span d =
             (if otel_enabled state \<or> debug_on E
              then Some \<lparr>span_method = Some (req_method req), span_path = uri_path (req_uri req),
                         span_upstream = fst (labels t)\<rparr>
              else None))"
  by (auto simp: dispatch_def Let_def method_to_static_str_def status_to_static_str_def
      split: Route.split prod.split sum.split)

end
