(* ===== verification/Startup.thy ===== *)
theory Startup
  imports Proxy
begin

text \<open>
  The first half of \<open>run_inner\<close> in \<open>src/lib.rs\<close>: the metrics recorder (\<open>install_recorder\<close>), the
  validation of the configuration and the construction of the shared state (\<open>run_inner_setup\<close>), the
  warm-up poll before any listener is bound (\<open>warm_up\<close>, \<open>bind_all\<close>), and the log filter of
  \<open>src/main.rs\<close>. What happens once listeners accept is in the theory \<open>Lifecycle\<close>.
\<close>

text \<open>
  The current recorder is installed once per process; only the run that installs it spawns the
  upkeep task.
\<close>

datatype Recorder = Prometheus | OpenTelemetry

definition install_recorder :: "bool \<Rightarrow> Recorder list option \<Rightarrow> Recorder list option \<times> bool" where
  "install_recorder telemetry current =
     (let recorder = (if telemetry then [Prometheus, OpenTelemetry] else [Prometheus])
      in case current of
           None \<Rightarrow> (Some recorder, True)
         | Some installed \<Rightarrow> (Some installed, False))"

definition root_uri :: Uri where
  "root_uri = \<lparr>scheme_str = None, authority = None,
     path_and_query = Some \<lparr>pq_path = ''/'', pq_query = None\<rparr>\<rparr>"

definition run_inner_setup :: "http_api \<Rightarrow> bool \<Rightarrow> Config \<Rightarrow> string + AppState" where
  "run_inner_setup A telemetry c =
     (if listen c = [] then Inl ''no listen addresses configured''
      else if health_poll_interval c = 0 then Inl ''health-poll-interval must be at least 1 second''
      else
        and_then (parse_uri A (el_http_url c)) (\<lambda>el_http.
        and_then (parse_uri A (el_ws_url c)) (\<lambda>el_ws.
        and_then (parse_uri A (cl_beacon_url c)) (\<lambda>cl_beacon.
        and_then (case cl_mev_relay_url c of
                    None \<Rightarrow> Inr None
                  | Some u \<Rightarrow> and_then (parse_uri A u) (\<lambda>r. Inr (Some r))) (\<lambda>mev_relay.
        and_then (upstream_uri A cl_beacon root_uri (Some ''/eth/v1/node/syncing'')) (\<lambda>syncing.
        and_then (upstream_uri A cl_beacon root_uri (Some ''/eth/v1/node/peer_count'')) (\<lambda>peer_count.
        and_then (resolve_cl_genesis_time c) (\<lambda>genesis_time.
        and_then (resolve_cl_seconds_per_slot c) (\<lambda>seconds_per_slot.
          let prefer_h2 = (\<not> trust_upstream c \<and> scheme_str el_http \<noteq> Some ''https'')
          in Inr \<lparr>cfg = c, client = build_client False, el_h2_client = build_client True,
                  el_use_h2 = prefer_h2, el_http_uri = el_http, el_ws_uri = el_ws,
                  cl_beacon_uri = cl_beacon, cl_mev_relay_uri = mev_relay,
                  cl_syncing_uri = syncing, cl_peer_count_uri = peer_count,
                  cl_genesis_time = genesis_time, cl_seconds_per_slot = seconds_per_slot,
                  otel_enabled = (telemetry \<or> otel_endpoint c \<noteq> None), probe = pending\<rparr>)))))))))"

text \<open>\<open>run\<close>: telemetry first, then the setup.\<close>

definition run_setup :: "http_api \<Rightarrow> otel_api \<Rightarrow> Config \<Rightarrow> string + AppState" where
  "run_setup A T c =
     and_then (fst (start A T (otel_endpoint c))) (\<lambda>telemetry. run_inner_setup A (telemetry \<noteq> None) c)"

text \<open>The line logged after the warm-up: the upstreams and the HTTP version chosen for the EL.\<close>

record ConnectedLine =
  line_el_http :: string
  line_el_proto :: string
  line_el_ws :: string
  line_cl_beacon :: string
  line_mev_relay :: string
  line_cl_proto :: string

definition connected_line :: "AppState \<Rightarrow> ConnectedLine" where
  "connected_line state =
     (let el_proto = (if el_use_h2 state then ''HTTP/2 (h2c)'' else ''HTTP/1.1'');
          mev_relay_log = (case cl_mev_relay_url (cfg state) of Some u \<Rightarrow> u | None \<Rightarrow> ''none'')
      in \<lparr>line_el_http = el_http_url (cfg state), line_el_proto = el_proto, line_el_ws = el_ws_url (cfg state),
          line_cl_beacon = cl_beacon_url (cfg state), line_mev_relay = mev_relay_log,
          line_cl_proto = ''HTTP/1.1''\<rparr>)"

record Warm =
  warm_app :: AppState
  warm_gauges :: gauges
  warm_connected :: ConnectedLine
  warm_poller :: bool

definition warm_up :: "http_api \<Rightarrow> json_api \<Rightarrow> net_api \<Rightarrow> u64 \<Rightarrow> gauges \<Rightarrow> AppState \<Rightarrow> Warm" where
  "warm_up A J N now g state =
     (let (first_probe, state) = probe_once A J N state;
          first_report = evaluate_ready state first_probe now
      in \<lparr>warm_app = state\<lparr>probe := first_probe\<rparr>,
          warm_gauges = update_metrics first_probe first_report g,
          warm_connected = connected_line state,
          warm_poller = (\<not> trust_upstream (cfg state))\<rparr>)"

fun bind_all :: "(string \<Rightarrow> string + nat) \<Rightarrow> string list \<Rightarrow> string + nat list" where
  "bind_all bind [] = Inr []"
| "bind_all bind (addr # addrs) =
     and_then (bind addr) (\<lambda>listener.
     and_then (bind_all bind addrs) (\<lambda>listeners. Inr (listener # listeners)))"

text \<open>The filter \<open>main\<close> uses when the environment gives none.\<close>

definition log_filter :: "Config \<Rightarrow> string" where
  "log_filter c =
     (let access = (if access_log c then ''info'' else ''off'')
      in log_level c @ '',access_log='' @ access)"

section \<open>The state a run starts with\<close>

lemma setup_Inr:
  assumes "run_inner_setup A telemetry c = Inr st"
  shows "listen c \<noteq> [] \<and> health_poll_interval c \<noteq> 0 \<and> cfg st = c \<and> clients_ok st
     \<and> parse_uri A (el_http_url c) = Inr (el_http_uri st)
     \<and> parse_uri A (el_ws_url c) = Inr (el_ws_uri st)
     \<and> parse_uri A (cl_beacon_url c) = Inr (cl_beacon_uri st)
     \<and> (case cl_mev_relay_url c of
          None \<Rightarrow> cl_mev_relay_uri st = None
        | Some u \<Rightarrow> \<exists>r. parse_uri A u = Inr r \<and> cl_mev_relay_uri st = Some r)
     \<and> upstream_uri A (cl_beacon_uri st) root_uri (Some ''/eth/v1/node/syncing'') = Inr (cl_syncing_uri st)
     \<and> upstream_uri A (cl_beacon_uri st) root_uri (Some ''/eth/v1/node/peer_count'')
         = Inr (cl_peer_count_uri st)
     \<and> resolve_cl_genesis_time c = Inr (cl_genesis_time st)
     \<and> resolve_cl_seconds_per_slot c = Inr (cl_seconds_per_slot st)
     \<and> (el_use_h2 st \<longleftrightarrow> \<not> trust_upstream c \<and> \<not> tls_upstream st) \<and> probe st = pending"
  using assms
  by (auto simp: run_inner_setup_def and_then_Inr_iff Let_def clients_ok_def tls_upstream_def
      split: if_splits option.splits)

section \<open>Invariants of warm-up and poll loop\<close>

text \<open>The three EL signals of a completed poll are answers or errors of this poll.\<close>

definition polled_probe :: "Probe \<Rightarrow> bool" where
  "polled_probe pr \<longleftrightarrow>
     el_syncing pr \<noteq> el_syncing pending \<and> el_peers pr \<noteq> el_peers pending \<and> el_block pr \<noteq> el_block pending"

lemma show_error_not_pending: "show_error st e \<noteq> ''warming up''"
  by (cases e) auto

lemma map_err_not_pending: "map_err (show_error st) r \<noteq> Inl ''warming up''"
  using show_error_not_pending by (cases r) auto

lemma probe_once_polled: "polled_probe (fst (probe_once A J N state))"
  by (simp add: probe_once_def polled_probe_def pending_def Let_def map_err_not_pending split: prod.split)

lemma warm_up_app:
  "warm_app (warm_up A J N now g state) =
     (snd (probe_once A J N state))\<lparr>probe := fst (probe_once A J N state)\<rparr>"
  by (simp add: warm_up_def Let_def split: prod.split)

lemma step_probe:
  "polled_probe (probe (ps_app ps)) \<Longrightarrow> polled_probe (probe (ps_app (poll_step A J ev ps)))"
proof (cases "ps_done ps")
  case False
  assume p: "polled_probe (probe (ps_app ps))"
  show ?thesis
  proof (cases ev)
    case (DeadlineWhilePolling batch)
    obtain h where "verdict_after J batch (ps_app ps) = (ps_app ps)\<lparr>el_use_h2 := h\<rparr>"
      using verdict_after_frame by blast
    with DeadlineWhilePolling False p show ?thesis by (simp add: poll_step_def)
  next
    case (Polled N now receivers)
    obtain pr app' where pr: "probe_once A J N (ps_app ps) = (pr, app')" by fastforce
    then have "polled_probe pr" using probe_once_polled [of A J N "ps_app ps"] by simp
    moreover obtain h where "app' = (ps_app ps)\<lparr>el_use_h2 := h\<rparr>"
      using probe_once_frame [of A J N "ps_app ps"] pr by auto
    ultimately show ?thesis
      unfolding Polled poll_step_polled [OF False] pr prod.case Let_def using p by simp
  qed (use False p in \<open>simp add: poll_step_def\<close>)
qed (simp add: poll_step_def)

text \<open>An upstream that negotiates its version itself, or is trusted, keeps the default client.\<close>

definition fixed_transport :: "AppState \<Rightarrow> bool" where
  "fixed_transport state \<longleftrightarrow> tls_upstream state \<or> trust_upstream (cfg state)"

lemma probe_once_fixed: "fixed_transport state \<Longrightarrow> snd (probe_once A J N state) = state"
  by (auto simp: fixed_transport_def probe_once_def Let_def detect_tls)

lemma verdict_after_fixed: "fixed_transport state \<Longrightarrow> verdict_after J batch state = state"
  by (auto simp: fixed_transport_def verdict_after_def detect_tls split: option.splits)

lemma fixed_transport_probe [simp]: "fixed_transport (state\<lparr>probe := p\<rparr>) = fixed_transport state"
  by (simp add: fixed_transport_def tls_upstream_def)

definition keeps_default :: "AppState \<Rightarrow> bool" where
  "keeps_default state \<longleftrightarrow> fixed_transport state \<and> \<not> el_use_h2 state"

lemma step_fixed: "keeps_default (ps_app ps) \<Longrightarrow> keeps_default (ps_app (poll_step A J ev ps))"
proof (cases "ps_done ps")
  case False
  assume f: "keeps_default (ps_app ps)"
  show ?thesis
  proof (cases ev)
    case (Polled N now receivers)
    obtain pr app' where pr: "probe_once A J N (ps_app ps) = (pr, app')" by fastforce
    then have "app' = ps_app ps"
      using probe_once_fixed [of "ps_app ps" A J N] f by (simp add: keeps_default_def)
    then show ?thesis
      unfolding Polled poll_step_polled [OF False] pr prod.case Let_def
      using f by (simp add: keeps_default_def)
  qed (use False f in \<open>simp_all add: poll_step_def verdict_after_fixed keeps_default_def\<close>)
qed (simp add: poll_step_def)

interpretation served: invariant_system "\<lambda>ps. \<exists>app g. ps = poll_start app g \<and> polled_probe (probe app)"
  "\<lambda>ps ps'. \<exists>ev. ps' = poll_step A J ev ps" "\<lambda>ps. polled_probe (probe (ps_app ps))" for A J
  by unfold_locales (auto simp: poll_start_def intro: step_probe)

interpretation transport: invariant_system "\<lambda>ps. \<exists>app g. ps = poll_start app g \<and> keeps_default app"
  "\<lambda>ps ps'. \<exists>ev. ps' = poll_step A J ev ps" "\<lambda>ps. keeps_default (ps_app ps)" for A J
  by unfold_locales (auto simp: poll_start_def intro: step_fixed)

section \<open>Properties\<close>

text \<open>The placeholder is never served. Whatever the upstreams did during the warm-up poll and in
  any number of background polls since, the probe the endpoints read holds the outcome of a
  completed poll in its EL signals, never the \<open>warming up\<close> of before the first one.\<close>

lemma placeholder_never_served:
  "polled_probe (probe (ps_app (poll_loop A J evs
     (poll_start (warm_app (warm_up A J N now g state)) (warm_gauges (warm_up A J N now g state))))))"
proof -
  have "polled_probe (probe (warm_app (warm_up A J N now g state)))"
    by (simp add: warm_up_app probe_once_polled)
  then show ?thesis
    using served.inv_reachable [OF _ poll_loop_steps] by blast
qed

definition sample_http :: http_api where
  "sample_http = rfc_api\<lparr>parse_uri := (\<lambda>_. Inr sample_uri)\<rparr>"

lemma sample_setup: "\<exists>st. run_inner_setup sample_http False default_config = Inr st"
proof -
  have "list_all query_char ''/eth/v1/node/syncing''" "list_all query_char ''/eth/v1/node/peer_count''"
    by code_simp+
  then have "parse_pq sample_http ''/eth/v1/node/syncing'' = Inr \<lparr>pq_path = ''/eth/v1/node/syncing'', pq_query = None\<rparr>"
    "parse_pq sample_http ''/eth/v1/node/peer_count'' = Inr \<lparr>pq_path = ''/eth/v1/node/peer_count'', pq_query = None\<rparr>"
    by (simp_all add: sample_http_def rfc_api_def rfc_parse_pq_def max_uri_len_def)
  moreover have "from_parts sample_http (sample_uri\<lparr>path_and_query := Some pq\<rparr>) =
      Inr (sample_uri\<lparr>path_and_query := Some pq\<rparr>)" for pq
    by (simp add: sample_http_def rfc_api_def rfc_from_parts_def sample_uri_def)
  moreover have "uri_path sample_uri = ''/''" "uri_query sample_uri = None" "uri_query root_uri = None"
    by (simp_all add: sample_uri_def root_uri_def uri_path_def uri_query_def)
  ultimately have "upstream_uri sample_http sample_uri root_uri (Some ''/eth/v1/node/syncing'')
      = Inr (sample_uri\<lparr>path_and_query := Some \<lparr>pq_path = ''/eth/v1/node/syncing'', pq_query = None\<rparr>\<rparr>)"
    "upstream_uri sample_http sample_uri root_uri (Some ''/eth/v1/node/peer_count'')
      = Inr (sample_uri\<lparr>path_and_query := Some \<lparr>pq_path = ''/eth/v1/node/peer_count'', pq_query = None\<rparr>\<rparr>)"
    by (simp_all add: upstream_uri_def Let_def)
  moreover have "parse_uri sample_http u = Inr sample_uri" for u by (simp add: sample_http_def)
  ultimately show ?thesis
    by (simp add: run_inner_setup_def default_config_def resolve_cl_genesis_time_def resolve_cl_seconds_per_slot_def Let_def)
qed

text \<open>C39: a TLS or trusted execution layer is never spoken to with the h2c client: from the setup on,
  through warm-up and every background poll, the verdict stays on the default client, whatever
  the network does.\<close>

theorem tls_keeps_default_client:
  assumes "run_inner_setup A telemetry c = Inr st" and "tls_upstream st \<or> trust_upstream c"
  shows "let app = ps_app (poll_loop A J evs (poll_start (warm_app (warm_up A J N now g st)) g')) in
     el_client app (el_use_h2 app) = client app"
proof -
  note s = setup_Inr [OF assms(1)]
  have st: "fixed_transport st" "\<not> el_use_h2 st"
    using s assms(2) by (auto simp: fixed_transport_def)
  let ?w = "warm_app (warm_up A J N now g st)"
  have "keeps_default ?w"
    using st by (simp add: warm_up_app probe_once_fixed keeps_default_def)
  then have "keeps_default (ps_app (poll_loop A J evs (poll_start ?w g')))"
    using transport.inv_reachable [OF _ poll_loop_steps] by blast
  then have "\<not> el_use_h2 (ps_app (poll_loop A J evs (poll_start ?w g')))"
    by (simp add: keeps_default_def)
  then show ?thesis by (simp add: el_client_def Let_def)
qed

theorem tls_keeps_default_client_witness:
  "\<exists>st. run_inner_setup sample_http False (default_config\<lparr>trust_upstream := True\<rparr>) = Inr st
     \<and> (let app = ps_app (poll_loop sample_http no_json [Polled dead_net 1000 True]
          (poll_start (warm_app (warm_up sample_http no_json dead_net 1000 Map.empty st)) Map.empty)) in
     el_client app (el_use_h2 app) = client app)"
proof -
  let ?c = "default_config\<lparr>trust_upstream := True\<rparr>"
  obtain st where "run_inner_setup sample_http False ?c = Inr st"
    using sample_setup
    by (auto simp: run_inner_setup_def default_config_def resolve_cl_genesis_time_def
        resolve_cl_seconds_per_slot_def Let_def and_then_Inr_iff)
  moreover have "tls_upstream st \<or> trust_upstream ?c" by simp
  ultimately show ?thesis using tls_keeps_default_client by blast
qed

end
