(* ===== verification/Lifecycle.thy ===== *)
theory Lifecycle
  imports Otel
begin

text \<open>
  Shutdown: \<open>src/lifecycle.rs\<close>, the connection guard of \<open>src/metrics.rs\<close>, the second half of
  \<open>run_inner\<close> and \<open>accept_loop\<close> of \<open>src/lib.rs\<close>. The server is a step relation over its tasks: what
  accepts, polls, serves a connection, runs an HTTP/2 request or relays a WebSocket. Its steps are of
  three kinds. \<open>own_step\<close> is what the program does by itself as soon as it can: a timer that is
  due, a task that is told to stop, a handle that is joined. \<open>env_step\<close> is what somebody else
  brings about: clients, upstreams, the signal. The clock, in milliseconds, advances only while no
  own step is possible, so the program's own work takes no time and waiting takes all of it. Nothing
  in the clock's rule mentions the deadline; that no task outlives it is a consequence of what the
  tasks do.
\<close>

section \<open>The deadline\<close>

text \<open>What the watch channel shows: nothing yet, the deadline, or a sender that is gone.\<close>

datatype Shutdown = Unannounced | Announced nat | SenderDropped

text \<open>\<open>deadline\<close>: pending, or the instant it resolves to at time \<open>now\<close>.\<close>

definition deadline :: "Shutdown \<Rightarrow> nat \<Rightarrow> nat option" where
  "deadline w now =
     (case w of Unannounced \<Rightarrow> None | Announced d \<Rightarrow> Some d | SenderDropped \<Rightarrow> Some now)"

text \<open>
  \<open>Lifecycle::run\<close> for a task that would finish at a known time with a value (or never), when the
  deadline \<open>d\<close> is announced at time \<open>s\<close> (or never): when it returns and with what; \<open>None\<close> when it
  never returns. At the deadline \<open>timeout_at\<close> looks at the task first.
\<close>

definition lifecycle_run :: "(nat \<times> nat) option \<Rightarrow> (nat \<times> 'v) option \<Rightarrow> (nat \<times> 'v option) option" where
  "lifecycle_run announced task =
     (case announced of
        None \<Rightarrow> map_option (\<lambda>(t, v). (t, Some v)) task
      | Some (s, d) \<Rightarrow>
          (case task of
             None \<Rightarrow> Some (max s d, None)
           | Some (t, v) \<Rightarrow> if t \<le> max s d then Some (t, Some v) else Some (max s d, None)))"

section \<open>The server\<close>

datatype Kind = TcpConnection | Http2Request | WsRelay

text \<open>A task that was spawned with a clone of the lifecycle; \<open>guard\<close> says whether it holds an
  \<open>ActiveConnectionGuard\<close>.\<close>

record Task =
  kind :: Kind
  guard :: bool

datatype Stage = Serving | Joining | DrainingConnections | Returned

text \<open>The stages follow each other in the order of the code.\<close>

definition stage_rank :: "Stage \<Rightarrow> nat" where
  "stage_rank st = (case st of Serving \<Rightarrow> 0 | Joining \<Rightarrow> 1 | DrainingConnections \<Rightarrow> 2 | Returned \<Rightarrow> 3)"

instantiation Stage :: linorder
begin

definition "a \<le> b \<longleftrightarrow> stage_rank a \<le> stage_rank b"

definition "a < b \<longleftrightarrow> stage_rank a < stage_rank b"

instance
proof
  show "a \<le> b \<Longrightarrow> b \<le> a \<Longrightarrow> a = b" for a b :: Stage
    by (cases a; cases b) (simp_all add: less_eq_Stage_def stage_rank_def)
qed (auto simp: less_eq_Stage_def less_Stage_def)

end

text \<open>
  Of the accept loops still running, \<open>selecting\<close> are inside one poll of their \<open>select!\<close>: they have
  found no shutdown and are about to look at the listener. Those in \<open>backoffs\<close> sleep after a failed
  accept until the given time, and look at nothing.
\<close>

record Server =
  clock :: nat
  shutdown :: Shutdown
  stage :: Stage
  acceptors :: nat
  selecting :: nat
  backoffs :: "nat list"
  poller :: bool
  tasks :: "Task list"
  tcp_gauge :: int
  ws_gauge :: int
  accepted :: nat

text \<open>The pause after a failed accept.\<close>

definition accept_backoff :: nat where
  "accept_backoff = 100"

definition protocol_of :: "Kind \<Rightarrow> string" where
  "protocol_of k = (if k = WsRelay then ''ws'' else ''tcp'')"

text \<open>\<open>ActiveConnectionGuard::new\<close> and its \<open>Drop\<close>, on the up/down gauge of the theory \<open>Otel\<close>.\<close>

definition guard_new :: "string \<Rightarrow> Server \<Rightarrow> Server" where
  "guard_new protocol s =
     (if protocol = ''ws'' then s\<lparr>ws_gauge := gauge_increment UpDown 1 (ws_gauge s)\<rparr>
      else s\<lparr>tcp_gauge := gauge_increment UpDown 1 (tcp_gauge s)\<rparr>)"

definition guard_drop :: "string \<Rightarrow> Server \<Rightarrow> Server" where
  "guard_drop protocol s =
     (if protocol = ''ws'' then s\<lparr>ws_gauge := gauge_decrement UpDown 1 (ws_gauge s)\<rparr>
      else s\<lparr>tcp_gauge := gauge_decrement UpDown 1 (tcp_gauge s)\<rparr>)"

text \<open>A task ends, by itself or dropped at the deadline: its guard goes with it.\<close>

definition end_task :: "Task \<Rightarrow> Server \<Rightarrow> Server" where
  "end_task t s =
     (let s = s\<lparr>tasks := remove1 t (tasks s)\<rparr>
      in if guard t then guard_drop (protocol_of (kind t)) s else s)"

definition spawn :: "Task \<Rightarrow> Server \<Rightarrow> Server" where
  "spawn t s =
     (let s = s\<lparr>tasks := t # tasks s\<rparr>
      in if guard t then guard_new (protocol_of (kind t)) s else s)"

text \<open>After binding: one accept loop per listener, and the poller unless the upstream is trusted.\<close>

definition server_start :: "nat \<Rightarrow> bool \<Rightarrow> Server" where
  "server_start listeners polls =
     \<lparr>clock = 0, shutdown = Unannounced, stage = Serving, acceptors = listeners, selecting = 0,
      backoffs = [], poller = polls, tasks = [], tcp_gauge = 0, ws_gauge = 0, accepted = 0\<rparr>"

text \<open>A loop that is neither selecting nor backing off waits at the top of its \<open>select!\<close>.\<close>

definition loop_waits :: "Server \<Rightarrow> bool" where
  "loop_waits s \<longleftrightarrow> selecting s + length (backoffs s) < acceptors s"

inductive own_step :: "Server \<Rightarrow> Server \<Rightarrow> bool" where
  task_dropped:
    "\<lbrakk>t \<in> set (tasks s); deadline (shutdown s) (clock s) = Some d; d \<le> clock s\<rbrakk>
     \<Longrightarrow> own_step s (end_task t s)"
| select_continues:
    "selecting s > 0 \<Longrightarrow> own_step s (s\<lparr>selecting := selecting s - 1\<rparr>)"
| backoff_over:
    "\<lbrakk>w \<in> set (backoffs s); w \<le> clock s\<rbrakk>
     \<Longrightarrow> own_step s (s\<lparr>backoffs := remove1 w (backoffs s)\<rparr>)"
| acceptor_returns:
    "\<lbrakk>loop_waits s; deadline (shutdown s) (clock s) \<noteq> None\<rbrakk>
     \<Longrightarrow> own_step s (s\<lparr>acceptors := acceptors s - 1\<rparr>)"
| poller_returns:
    "\<lbrakk>poller s; deadline (shutdown s) (clock s) \<noteq> None\<rbrakk>
     \<Longrightarrow> own_step s (s\<lparr>poller := False\<rparr>)"
| all_joined:
    "\<lbrakk>stage s = Joining; acceptors s = 0; \<not> poller s\<rbrakk>
     \<Longrightarrow> own_step s (s\<lparr>stage := DrainingConnections\<rparr>)"
| barrier_passed:
    "\<lbrakk>stage s = DrainingConnections; tasks s = []\<rbrakk>
     \<Longrightarrow> own_step s (s\<lparr>stage := Returned\<rparr>)"

text \<open>
  The \<open>select!\<close> of an accept loop is biased but not atomic: the shutdown may be announced between
  its look at the deadline (\<open>accept_polls\<close>) and its look at the listener, which then still gives it
  a connection (\<open>accept\<close>), an error (\<open>accept_fails\<close>) or nothing (\<open>select_continues\<close>).
\<close>

inductive env_step :: "nat \<Rightarrow> Server \<Rightarrow> Server \<Rightarrow> bool" for grace where
  accept_polls:
    "\<lbrakk>loop_waits s; deadline (shutdown s) (clock s) = None\<rbrakk>
     \<Longrightarrow> env_step grace s (s\<lparr>selecting := Suc (selecting s)\<rparr>)"
| accept:
    "selecting s > 0
     \<Longrightarrow> env_step grace s (spawn \<lparr>kind = TcpConnection, guard = True\<rparr>
           (s\<lparr>selecting := selecting s - 1, accepted := Suc (accepted s)\<rparr>))"
| accept_fails:
    "selecting s > 0
     \<Longrightarrow> env_step grace s (s\<lparr>selecting := selecting s - 1,
           backoffs := (clock s + accept_backoff) # backoffs s\<rparr>)"
| http2_request:
    "\<lbrakk>t \<in> set (tasks s); kind t = TcpConnection\<rbrakk>
     \<Longrightarrow> env_step grace s (spawn \<lparr>kind = Http2Request, guard = False\<rparr> s)"
| upgrade_spawned:
    "\<lbrakk>t \<in> set (tasks s); kind t \<in> {TcpConnection, Http2Request}\<rbrakk>
     \<Longrightarrow> env_step grace s (spawn \<lparr>kind = WsRelay, guard = False\<rparr> s)"
| bridge_started:
    "\<lparr>kind = WsRelay, guard = False\<rparr> \<in> set (tasks s)
     \<Longrightarrow> env_step grace s
           (spawn \<lparr>kind = WsRelay, guard = True\<rparr> (end_task \<lparr>kind = WsRelay, guard = False\<rparr> s))"
| task_ends:
    "t \<in> set (tasks s) \<Longrightarrow> env_step grace s (end_task t s)"
| shutdown_signal:
    "stage s = Serving
     \<Longrightarrow> env_step grace s (s\<lparr>shutdown := Announced (clock s + grace), stage := Joining\<rparr>)"

inductive server_step :: "nat \<Rightarrow> Server \<Rightarrow> Server \<Rightarrow> bool" for grace where
  own: "own_step s s' \<Longrightarrow> server_step grace s s'"
| environment: "env_step grace s s' \<Longrightarrow> server_step grace s s'"
| tick: "\<nexists>s'. own_step s s' \<Longrightarrow> server_step grace s (s\<lparr>clock := Suc (clock s)\<rparr>)"

section \<open>Counting guards\<close>

definition guards :: "(Kind \<Rightarrow> bool) \<Rightarrow> Server \<Rightarrow> int" where
  "guards P s = int (length (filter (\<lambda>t. guard t \<and> P (kind t)) (tasks s)))"

lemma length_filter_remove1:
  "t \<in> set ts \<Longrightarrow> int (length (filter P (remove1 t ts))) = int (length (filter P ts)) - of_bool (P t)"
  by (induction ts) auto

lemma end_task_simps [simp]:
  "tasks (end_task t s) = remove1 t (tasks s)" "clock (end_task t s) = clock s"
  "shutdown (end_task t s) = shutdown s" "stage (end_task t s) = stage s"
  "acceptors (end_task t s) = acceptors s" "poller (end_task t s) = poller s"
  "selecting (end_task t s) = selecting s" "backoffs (end_task t s) = backoffs s"
  "accepted (end_task t s) = accepted s"
  "tcp_gauge (end_task t s) = tcp_gauge s - of_bool (guard t \<and> kind t \<noteq> WsRelay)"
  "ws_gauge (end_task t s) = ws_gauge s - of_bool (guard t \<and> kind t = WsRelay)"
  by (simp_all add: end_task_def guard_drop_def protocol_of_def Let_def)

lemma spawn_simps [simp]:
  "tasks (spawn t s) = t # tasks s" "clock (spawn t s) = clock s"
  "shutdown (spawn t s) = shutdown s" "stage (spawn t s) = stage s"
  "acceptors (spawn t s) = acceptors s" "poller (spawn t s) = poller s"
  "selecting (spawn t s) = selecting s" "backoffs (spawn t s) = backoffs s"
  "accepted (spawn t s) = accepted s"
  "tcp_gauge (spawn t s) = tcp_gauge s + of_bool (guard t \<and> kind t \<noteq> WsRelay)"
  "ws_gauge (spawn t s) = ws_gauge s + of_bool (guard t \<and> kind t = WsRelay)"
  by (simp_all add: spawn_def guard_new_def protocol_of_def Let_def)

lemma guards_end: "t \<in> set (tasks s) \<Longrightarrow> guards P (end_task t s) = guards P s - of_bool (guard t \<and> P (kind t))"
  by (simp add: guards_def length_filter_remove1)

lemma guards_spawn: "guards P (spawn t s) = guards P s + of_bool (guard t \<and> P (kind t))"
  by (simp add: guards_def)

section \<open>The invariant\<close>

text \<open>The gauges count the live guards.\<close>

definition gauges_ok :: "Server \<Rightarrow> bool" where
  "gauges_ok s \<longleftrightarrow> tcp_gauge s = guards (\<lambda>k. k \<noteq> WsRelay) s \<and> ws_gauge s = guards (\<lambda>k. k = WsRelay) s
     \<and> (\<forall>t \<in> set (tasks s). kind t = TcpConnection \<longrightarrow> guard t)
     \<and> (\<forall>t \<in> set (tasks s). kind t = Http2Request \<longrightarrow> \<not> guard t)"

text \<open>The stages of \<open>run_inner\<close>, the accept loops, and the deadline that bounds every task.\<close>

definition stages_ok :: "Server \<Rightarrow> bool" where
  "stages_ok s \<longleftrightarrow>
     shutdown s \<noteq> SenderDropped
     \<and> (stage s = Serving \<longleftrightarrow> shutdown s = Unannounced)
     \<and> selecting s + length (backoffs s) \<le> acceptors s
     \<and> (\<forall>w \<in> set (backoffs s). w \<le> clock s + accept_backoff)
     \<and> (stage s \<in> {DrainingConnections, Returned} \<longrightarrow> acceptors s = 0 \<and> \<not> poller s)
     \<and> (stage s = Returned \<longrightarrow> tasks s = [])
     \<and> (\<forall>d. shutdown s = Announced d \<longrightarrow> tasks s \<noteq> [] \<or> selecting s > 0 \<longrightarrow> clock s \<le> d)"

lemma gauges_ok_end: "t \<in> set (tasks s) \<Longrightarrow> gauges_ok s \<Longrightarrow> gauges_ok (end_task t s)"
  by (auto simp: gauges_ok_def guards_end dest: notin_set_remove1)

lemma gauges_ok_spawn:
  "gauges_ok s \<Longrightarrow> (kind t = TcpConnection \<longrightarrow> guard t) \<Longrightarrow> (kind t = Http2Request \<longrightarrow> \<not> guard t) \<Longrightarrow>
     gauges_ok (spawn t s)"
  by (auto simp: gauges_ok_def guards_spawn)

lemma gauges_ok_other [simp]:
  "gauges_ok (s\<lparr>clock := c\<rparr>) = gauges_ok s" "gauges_ok (s\<lparr>shutdown := w\<rparr>) = gauges_ok s"
  "gauges_ok (s\<lparr>stage := st\<rparr>) = gauges_ok s" "gauges_ok (s\<lparr>acceptors := n\<rparr>) = gauges_ok s"
  "gauges_ok (s\<lparr>poller := p\<rparr>) = gauges_ok s" "gauges_ok (s\<lparr>accepted := m\<rparr>) = gauges_ok s"
  "gauges_ok (s\<lparr>selecting := k\<rparr>) = gauges_ok s" "gauges_ok (s\<lparr>backoffs := ws\<rparr>) = gauges_ok s"
  by (simp_all add: gauges_ok_def guards_def)

lemma gauges_ok_own: "own_step s s' \<Longrightarrow> gauges_ok s \<Longrightarrow> gauges_ok s'"
  by (induction rule: own_step.induct) (auto intro: gauges_ok_end)

lemma gauges_ok_env: "env_step grace s s' \<Longrightarrow> gauges_ok s \<Longrightarrow> gauges_ok s'"
  by (induction rule: env_step.induct) (auto intro: gauges_ok_end gauges_ok_spawn)

lemma gauges_ok_step: "server_step grace s s' \<Longrightarrow> gauges_ok s \<Longrightarrow> gauges_ok s'"
  by (induction rule: server_step.induct) (auto intro: gauges_ok_own gauges_ok_env)

lemma stages_ok_end: "t \<in> set (tasks s) \<Longrightarrow> stages_ok s \<Longrightarrow> stages_ok (end_task t s)"
  by (cases "tasks s") (auto simp: stages_ok_def)

lemma stages_ok_own: "own_step s s' \<Longrightarrow> stages_ok s \<Longrightarrow> stages_ok s'"
proof (induction rule: own_step.induct)
  case (backoff_over w s)
  then show ?case by (auto simp: stages_ok_def length_remove1 dest: notin_set_remove1)
next
  case (acceptor_returns s)
  then show ?case by (auto simp: stages_ok_def loop_waits_def deadline_def split: Shutdown.splits)
next
  case (select_continues s)
  then show ?case by (auto simp: stages_ok_def)
qed (auto simp: stages_ok_end, auto simp: stages_ok_def)

lemma stages_ok_env: "env_step grace s s' \<Longrightarrow> stages_ok s \<Longrightarrow> stages_ok s'"
proof (induction rule: env_step.induct)
  case (accept_polls s)
  then show ?case by (auto simp: stages_ok_def loop_waits_def deadline_def split: Shutdown.splits)
next
  case (bridge_started s)
  then have "tasks s \<noteq> []" by auto
  with bridge_started show ?case by (auto simp: stages_ok_def)
next
  case (shutdown_signal s)
  then show ?case by (auto simp: stages_ok_def)
qed (auto simp: stages_ok_end, auto simp: stages_ok_def)

text \<open>Time stands still at the deadline as long as a task is left to be dropped there.\<close>

lemma stages_ok_tick:
  assumes "\<nexists>s'. own_step s s'" and "stages_ok s"
  shows "stages_ok (s\<lparr>clock := Suc (clock s)\<rparr>)"
proof -
  have sel: "selecting s = 0" using assms(1) own_step.select_continues by blast
  have "clock s < d" if "shutdown s = Announced d" "tasks s \<noteq> []" for d
  proof (rule ccontr)
    assume "\<not> clock s < d"
    with that have "own_step s (end_task (hd (tasks s)) s)"
      by (intro own_step.task_dropped [of _ _ d]) (auto simp: deadline_def)
    with assms(1) show False by blast
  qed
  with assms(2) sel show ?thesis
    by (auto simp: stages_ok_def)
qed

lemma stages_ok_step: "server_step grace s s' \<Longrightarrow> stages_ok s \<Longrightarrow> stages_ok s'"
  by (induction rule: server_step.induct) (auto intro: stages_ok_own stages_ok_env stages_ok_tick)

lemma server_start_ok: "gauges_ok (server_start n p) \<and> stages_ok (server_start n p)"
  by (simp add: server_start_def gauges_ok_def guards_def stages_ok_def)

interpretation server: invariant_system "\<lambda>s. \<exists>n p. s = server_start n p" "server_step grace"
  "\<lambda>s. gauges_ok s \<and> stages_ok s" for grace
  using server_start_ok gauges_ok_step stages_ok_step by unfold_locales blast+

text \<open>What a step after the shutdown signal keeps: the deadline, the accepted connections, and the
  connections being served, which only become fewer.\<close>

definition connections :: "Server \<Rightarrow> Task list" where
  "connections s = filter (\<lambda>t. kind t = TcpConnection) (tasks s)"

lemma tcp_gauge_connections:
  assumes ok: "gauges_ok s"
  shows "tcp_gauge s = int (length (connections s))"
proof -
  have "(guard t \<and> kind t \<noteq> WsRelay) = (kind t = TcpConnection)" if "t \<in> set (tasks s)" for t
    using ok that by (cases "kind t") (auto simp: gauges_ok_def)
  then have "filter (\<lambda>t. guard t \<and> kind t \<noteq> WsRelay) (tasks s) = connections s"
    unfolding connections_def by (rule filter_cong [OF refl])
  then show ?thesis using ok by (simp add: gauges_ok_def guards_def)
qed

definition closing :: "nat \<Rightarrow> nat \<Rightarrow> nat \<Rightarrow> nat \<Rightarrow> Stage \<Rightarrow> Server \<Rightarrow> bool" where
  "closing d lo n c st s \<longleftrightarrow> shutdown s = Announced d \<and> stage s \<noteq> Serving
     \<and> lo \<le> accepted s \<and> accepted s + selecting s \<le> n
     \<and> length (connections s) + selecting s \<le> c \<and> st \<le> stage s"

lemma stage_advance_own: "own_step s s' \<Longrightarrow> stage s \<le> stage s'"
  by (induction rule: own_step.induct) (simp_all add: less_eq_Stage_def stage_rank_def)

lemma stage_advance:
  "server_step grace s s' \<Longrightarrow> stage s \<le> stage s'"
proof (induction rule: server_step.induct)
  case (environment s s')
  then show ?case by (induction rule: env_step.induct) (simp_all add: less_eq_Stage_def stage_rank_def)
qed (simp_all add: stage_advance_own)

lemma closing_end: "closing d lo n c st s \<Longrightarrow> closing d lo n c st (end_task t s)"
  by (auto simp: closing_def connections_def filter_remove1 length_remove1)

lemma closing_own: "own_step s s' \<Longrightarrow> closing d lo n c st s \<Longrightarrow> closing d lo n c st s'"
proof (induction rule: own_step.induct)
  case (all_joined s)
  then show ?case
    by (cases st) (auto simp: closing_def connections_def less_eq_Stage_def stage_rank_def)
next
  case (barrier_passed s)
  then show ?case
    by (cases st) (auto simp: closing_def connections_def less_eq_Stage_def stage_rank_def)
qed (simp_all add: closing_end, auto simp: closing_def connections_def)

lemma closing_env: "env_step grace s s' \<Longrightarrow> closing d lo n c st s \<Longrightarrow> closing d lo n c st s'"
proof (induction rule: env_step.induct)
  case (bridge_started s)
  show ?case
    using bridge_started by (auto simp: closing_def connections_def filter_remove1 length_remove1)
qed (simp_all add: closing_end, auto simp: closing_def connections_def deadline_def)

lemma closing_clock [simp]: "closing d lo n c st (s\<lparr>clock := k\<rparr>) = closing d lo n c st s"
  by (simp add: closing_def connections_def)

lemma closing_step: "server_step grace s s' \<Longrightarrow> closing d lo n c st s \<Longrightarrow> closing d lo n c st s'"
  by (induction rule: server_step.induct) (simp_all add: closing_own closing_env)

interpretation drain: invariant_system "closing d lo n c st" "server_step grace" "closing d lo n c st"
  for d lo n c st grace
  using closing_step by unfold_locales blast+

section \<open>Every shutdown ends\<close>

text \<open>
  At the deadline the program always has something to do until \<open>run\<close> is about to return, once no
  accept loop sleeps any more. This is where the cancellation of tasks at the deadline counts.
\<close>

lemma busy_at_deadline:
  assumes ok: "stages_ok s" and d: "shutdown s = Announced d" "d \<le> clock s" and st: "stage s \<noteq> Returned"
    and due: "\<forall>w \<in> set (backoffs s). w \<le> clock s"
  shows "\<exists>s'. own_step s s'"
proof (cases "selecting s > 0 \<or> backoffs s \<noteq> []")
  case True
  then show ?thesis
    using own_step.select_continues own_step.backoff_over [of "hd (backoffs s)" s] due hd_in_set by blast
next
  case False
  have dl: "deadline (shutdown s) (clock s) = Some d" by (simp add: d deadline_def)
  consider "acceptors s > 0" | "poller s" | "tasks s \<noteq> []" | "acceptors s = 0" "\<not> poller s" "tasks s = []"
    by blast
  then show ?thesis
  proof cases
    case 1
    then show ?thesis
      using False own_step.acceptor_returns [of s] dl by (auto simp: loop_waits_def)
  next
    case 2
    then show ?thesis using own_step.poller_returns [of s] dl by auto
  next
    case 3
    then show ?thesis
      using own_step.task_dropped [OF _ dl d(2), of "hd (tasks s)"] hd_in_set by blast
  next
    case 4
    have "stage s = Joining \<or> stage s = DrainingConnections"
      using ok d st by (cases "stage s") (auto simp: stages_ok_def)
    then show ?thesis using 4 own_step.all_joined own_step.barrier_passed by blast
  qed
qed

text \<open>
  So time does not get past \<open>e\<close>: the deadline, or the end of the pause of a loop whose accept has
  failed.
\<close>

definition bounded_by :: "nat \<Rightarrow> nat \<Rightarrow> Server \<Rightarrow> bool" where
  "bounded_by d e s \<longleftrightarrow> stages_ok s \<and> shutdown s = Announced d \<and> d \<le> e
     \<and> (\<forall>w \<in> set (backoffs s). w \<le> e) \<and> (selecting s > 0 \<longrightarrow> clock s + accept_backoff \<le> e)
     \<and> (stage s \<noteq> Returned \<longrightarrow> clock s \<le> e)"

lemma bounded_by_start:
  "stages_ok s \<Longrightarrow> shutdown s = Announced d \<Longrightarrow> bounded_by d (max d (clock s + accept_backoff)) s"
  by (auto simp: bounded_by_def stages_ok_def)

lemma bounded_by_own: "own_step s s' \<Longrightarrow> bounded_by d e s \<Longrightarrow> bounded_by d e s'"
proof -
  assume step: "own_step s s'" and b: "bounded_by d e s"
  then have "stages_ok s'" using stages_ok_own by (simp add: bounded_by_def)
  with step b show ?thesis
    by (induction rule: own_step.induct) (auto simp: bounded_by_def dest: notin_set_remove1)
qed

lemma bounded_by_env: "env_step grace s s' \<Longrightarrow> bounded_by d e s \<Longrightarrow> bounded_by d e s'"
proof -
  assume step: "env_step grace s s'" and b: "bounded_by d e s"
  then have ok: "stages_ok s'" using stages_ok_env by (simp add: bounded_by_def)
  from b have "stage s \<noteq> Serving" by (auto simp: bounded_by_def stages_ok_def)
  with step b ok show ?thesis
    by (induction rule: env_step.induct) (auto simp: bounded_by_def deadline_def)
qed

lemma bounded_by_tick:
  assumes "\<nexists>s'. own_step s s'" and b: "bounded_by d e s"
  shows "bounded_by d e (s\<lparr>clock := Suc (clock s)\<rparr>) \<and> (stage s \<noteq> Returned \<longrightarrow> clock s < e)"
proof -
  have "clock s < e" if "stage s \<noteq> Returned"
  proof (rule ccontr)
    assume "\<not> clock s < e"
    with b have "d \<le> clock s" "\<forall>w \<in> set (backoffs s). w \<le> clock s" by (auto simp: bounded_by_def)
    with b that have "\<exists>s'. own_step s s'" by (intro busy_at_deadline) (auto simp: bounded_by_def)
    with assms(1) show False by blast
  qed
  moreover have "selecting s = 0" using assms(1) own_step.select_continues by blast
  moreover have "stages_ok (s\<lparr>clock := Suc (clock s)\<rparr>)"
    using b by (intro stages_ok_tick [OF assms(1)]) (simp add: bounded_by_def)
  ultimately show ?thesis using b by (auto simp: bounded_by_def)
qed

lemma bounded_by_step: "server_step grace s s' \<Longrightarrow> bounded_by d e s \<Longrightarrow> bounded_by d e s'"
  by (induction rule: server_step.induct) (simp_all add: bounded_by_own bounded_by_env bounded_by_tick)

interpretation bounded: invariant_system "bounded_by d e" "server_step grace" "bounded_by d e" for d e grace
  using bounded_by_step by unfold_locales blast+

text \<open>What is left to do without anybody's help: every own step makes it less.\<close>

definition own_work :: "Server \<Rightarrow> nat" where
  "own_work s = length (tasks s) + selecting s + length (backoffs s) + acceptors s
     + of_bool (poller s) + (3 - stage_rank (stage s))"

lemma own_work_step: "own_step s s' \<Longrightarrow> own_work s' < own_work s"
proof (induction rule: own_step.induct)
  case (task_dropped t s d)
  then have "length (tasks s) > 0" by auto
  with task_dropped show ?case by (simp add: own_work_def length_remove1)
next
  case (backoff_over w s)
  then have "length (backoffs s) > 0" by auto
  with backoff_over show ?case by (simp add: own_work_def length_remove1)
qed (simp_all add: own_work_def stage_rank_def loop_waits_def)

text \<open>What the server does when nobody moves: its own steps and the time between them.\<close>

definition alone_step :: "Server \<Rightarrow> Server \<Rightarrow> bool" where
  "alone_step s s' \<longleftrightarrow> own_step s s' \<or> (\<nexists>s''. own_step s s'') \<and> s' = s\<lparr>clock := Suc (clock s)\<rparr>"

lemma alone_server: "alone_step s s' \<Longrightarrow> server_step grace s s'"
  by (auto simp: alone_step_def intro: server_step.own server_step.tick)

lemma alone_work:
  assumes "alone_step s s'" and "bounded_by d e s" and "stage s \<noteq> Returned"
  shows "own_work s' + (e - clock s') < own_work s + (e - clock s)"
proof (cases "own_step s s'")
  case True
  then have "clock s' = clock s" by (induction rule: own_step.induct) simp_all
  with own_work_step [OF True] show ?thesis by simp
next
  case False
  with assms(1) have "\<nexists>s''. own_step s s''" and s': "s' = s\<lparr>clock := Suc (clock s)\<rparr>"
    by (auto simp: alone_step_def)
  have "own_work s' = own_work s" "clock s' = Suc (clock s)" by (simp_all add: s' own_work_def)
  moreover have "clock s < e"
    using bounded_by_tick [OF \<open>\<nexists>s''. own_step s s''\<close> assms(2)] assms(3) by blast
  ultimately show ?thesis by simp
qed

lemma shutdown_completes:
  assumes "bounded_by d e s"
  shows "\<exists>s'. alone_step\<^sup>*\<^sup>* s s' \<and> stage s' = Returned"
  using assms
proof (induction "own_work s + (e - clock s)" arbitrary: s rule: less_induct)
  case less
  show ?case
  proof (cases "stage s = Returned")
    case False
    obtain s' where s': "alone_step s s'" unfolding alone_step_def by blast
    with less.prems have "bounded_by d e s'"
      using bounded_by_step alone_server by blast
    with less.hyps [OF alone_work [OF s' less.prems False]] obtain t where
      "alone_step\<^sup>*\<^sup>* s' t" "stage t = Returned" by blast
    with s' show ?thesis by (blast intro: converse_rtranclp_into_rtranclp)
  qed blast
qed

section \<open>A sample run\<close>

definition sample_conn :: Task where
  "sample_conn = \<lparr>kind = TcpConnection, guard = True\<rparr>"

definition sample_polling :: Server where
  "sample_polling = (server_start 1 True)\<lparr>selecting := 1\<rparr>"

definition sample_serving :: Server where
  "sample_serving = spawn sample_conn (sample_polling\<lparr>selecting := 0, accepted := 1\<rparr>)"

definition sample_closing :: Server where
  "sample_closing = sample_serving\<lparr>shutdown := Announced 10, stage := Joining\<rparr>"

lemma sample_serving_run: "(server_step 10)\<^sup>*\<^sup>* (server_start 1 True) sample_serving"
proof -
  have "env_step 10 (server_start 1 True) sample_polling"
    using env_step.accept_polls [of "server_start 1 True" 10]
    by (simp add: sample_polling_def server_start_def deadline_def loop_waits_def)
  moreover have "env_step 10 sample_polling sample_serving"
    using env_step.accept [of sample_polling 10]
    by (simp add: sample_polling_def sample_serving_def sample_conn_def server_start_def)
  ultimately show ?thesis
    by (meson rtranclp.rtrancl_into_rtrancl rtranclp.rtrancl_refl server_step.environment)
qed

lemma sample_closing_run: "(server_step 10)\<^sup>*\<^sup>* (server_start 1 True) sample_closing"
proof -
  have "stage sample_serving = Serving" "clock sample_serving = 0"
    by (simp_all add: sample_serving_def sample_polling_def server_start_def)
  then have "server_step 10 sample_serving sample_closing"
    using env_step.shutdown_signal [of sample_serving 10]
    by (intro server_step.environment) (simp add: sample_closing_def)
  with sample_serving_run show ?thesis by (rule rtranclp.rtrancl_into_rtrancl)
qed

lemma sample_closing_announced: "shutdown sample_closing = Announced 10"
  by (simp add: sample_closing_def)

section \<open>Properties\<close>

text \<open>\<open>run\<close> returns only when everything it started is over: no accept loop, no poller, no
  connection, HTTP/2 request or relay is left, and the active-connections gauges are back at 0.\<close>

lemma returns_only_when_drained:
  assumes "(server_step grace)\<^sup>*\<^sup>* (server_start listeners polls) s" and "stage s = Returned"
  shows "acceptors s = 0 \<and> \<not> poller s \<and> tasks s = [] \<and> tcp_gauge s = 0 \<and> ws_gauge s = 0"
proof -
  have "gauges_ok s \<and> stages_ok s"
    using server.inv_reachable [OF _ assms(1)] by blast
  with assms(2) show ?thesis by (auto simp: gauges_ok_def stages_ok_def guards_def)
qed

text \<open>The active-connections gauges are exact at every moment: \<open>tcp\<close> is the number of connections
  being served, \<open>ws\<close> the number of bridges, and no increment is ever lost, whether tasks end by
  themselves or are dropped at the deadline.\<close>

lemma gauges_exact:
  assumes "(server_step grace)\<^sup>*\<^sup>* (server_start listeners polls) s"
  shows "tcp_gauge s = int (length (filter (\<lambda>t. kind t = TcpConnection) (tasks s)))
     \<and> ws_gauge s = int (length (filter (\<lambda>t. kind t = WsRelay \<and> guard t) (tasks s)))"
proof -
  have ok: "gauges_ok s"
    using server.inv_reachable [OF _ assms] by blast
  have "filter (\<lambda>t. guard t \<and> kind t = WsRelay) (tasks s) = filter (\<lambda>t. kind t = WsRelay \<and> guard t) (tasks s)"
    by (rule filter_cong) auto
  with tcp_gauge_connections [OF ok] show ?thesis
    using ok by (simp add: gauges_ok_def guards_def connections_def)
qed

text \<open>C24: after the shutdown signal the server only winds down. The deadline never moves; the only
  connections still accepted are those of accept loops that were inside their \<open>select!\<close> when the signal came, at most one
  for each, so the connections being served, these included, only become fewer, and none is accepted
  once the loops are joined; the stages of the shutdown only advance; no task of any kind is left
  once the deadline has passed; and unless \<open>run\<close> is about to return, no time passes beyond the
  deadline or, if later, the pause of an accept loop whose last accept has just failed.\<close>

theorem shutdown_is_final:
  assumes "(server_step grace)\<^sup>*\<^sup>* (server_start listeners polls) s" and "shutdown s = Announced d"
    and "(server_step grace)\<^sup>*\<^sup>* s s'"
  shows "shutdown s' = Announced d \<and> stage s \<le> stage s'
     \<and> accepted s \<le> accepted s' \<and> accepted s' + selecting s' \<le> accepted s + selecting s
     \<and> selecting s \<le> acceptors s
     \<and> length (connections s') + selecting s' \<le> length (connections s) + selecting s
     \<and> (stage s \<in> {DrainingConnections, Returned} \<longrightarrow> accepted s' = accepted s)
     \<and> (tasks s' = [] \<or> clock s' \<le> d)
     \<and> (stage s' = Returned \<or> clock s' \<le> max d (clock s + 100))"
proof -
  have ok: "stages_ok s" using server.inv_reachable [OF _ assms(1)] by blast
  with assms(2) have "closing d (accepted s) (accepted s + selecting s)
      (length (connections s) + selecting s) (stage s) s"
    by (simp add: closing_def stages_ok_def)
  from drain.inv_reachable [OF this assms(3)]
  have c: "closing d (accepted s) (accepted s + selecting s)
      (length (connections s) + selecting s) (stage s) s'" .
  have "bounded_by d (max d (clock s + accept_backoff)) s'"
    by (rule bounded.inv_reachable [OF bounded_by_start [OF ok assms(2)] assms(3)])
  moreover have "stages_ok s'"
    using server.inv_reachable [OF _ rtranclp_trans [OF assms(1,3)]] by blast
  ultimately have "tasks s' = [] \<or> clock s' \<le> d" "stage s' = Returned \<or> clock s' \<le> max d (clock s + 100)"
    using c by (auto simp: closing_def stages_ok_def bounded_by_def accept_backoff_def)
  moreover have "selecting s \<le> acceptors s" "stage s \<in> {DrainingConnections, Returned} \<longrightarrow> selecting s = 0"
    using ok by (auto simp: stages_ok_def)
  ultimately show ?thesis using c unfolding closing_def by force
qed

theorem shutdown_is_final_witness:
  "accepted (end_task sample_conn sample_closing) = 1
     \<and> length (connections (end_task sample_conn sample_closing)) \<le> length (connections sample_closing)"
proof -
  have "sample_conn \<in> set (tasks sample_closing)"
    by (simp add: sample_closing_def sample_serving_def)
  then have "(server_step 10)\<^sup>*\<^sup>* sample_closing (end_task sample_conn sample_closing)"
    by (blast intro: server_step.environment env_step.task_ends)
  from shutdown_is_final [OF sample_closing_run sample_closing_announced this]
  show ?thesis by (simp add: sample_closing_def sample_serving_def sample_polling_def)
qed

text \<open>Every shutdown ends. From every reachable state in which the deadline is announced the server
  returns by itself, without any help of a client or an upstream.\<close>

lemma shutdown_ends:
  assumes "(server_step grace)\<^sup>*\<^sup>* (server_start listeners polls) s" and "shutdown s = Announced d"
  shows "\<exists>s'. alone_step\<^sup>*\<^sup>* s s' \<and> stage s' = Returned"
proof -
  have "stages_ok s" using server.inv_reachable [OF _ assms(1)] by blast
  from shutdown_completes [OF bounded_by_start [OF this assms(2)]] show ?thesis .
qed

text \<open>A task run under the lifecycle returns by the later of the announcement and the deadline,
  gives its value exactly when it finished by then, and is never cut off before.\<close>

lemma lifecycle_run_bounds:
  "lifecycle_run announced (Some (t, v)) =
     (case announced of
        None \<Rightarrow> Some (t, Some v)
      | Some (s, d) \<Rightarrow>
          Some (min t (max s d), if t \<le> s \<or> t \<le> d then Some v else None))
   \<and> (\<exists>e. lifecycle_run (Some (s', d')) task = Some e \<and> fst e \<le> max s' d')"
  by (auto simp: lifecycle_run_def min_def max_def split: option.split)

section \<open>The abstract shutdown\<close>

text \<open>
  What a client of the program sees of its life: it is open and serves some number of
  connections, which come and go; once, it starts closing, and connections only go; it is gone
  when none is left.
\<close>

datatype Life = Open nat | Closing nat | Gone

inductive life_step :: "Life \<Rightarrow> Life \<Rightarrow> bool" where
  connection_comes: "life_step (Open n) (Open (Suc n))"
| connection_goes: "life_step (Open (Suc n)) (Open n)"
| closing_starts: "life_step (Open n) (Closing n)"
| last_ones_go: "life_step (Closing (Suc n)) (Closing n)"
| all_gone: "life_step (Closing 0) Gone"

definition life_of :: "Server \<Rightarrow> Life" where
  "life_of s =
     (if stage s = Serving \<or> selecting s > 0 then Open (length (connections s))
      else if stage s = Returned then Gone
      else Closing (length (connections s)))"

lemma connections_spawn:
  "connections (spawn t s) = (if kind t = TcpConnection then t # connections s else connections s)"
  by (simp add: connections_def)

lemma connections_other [simp]:
  "connections (s\<lparr>clock := c\<rparr>) = connections s" "connections (s\<lparr>shutdown := w\<rparr>) = connections s"
  "connections (s\<lparr>stage := st\<rparr>) = connections s" "connections (s\<lparr>acceptors := n\<rparr>) = connections s"
  "connections (s\<lparr>poller := p\<rparr>) = connections s" "connections (s\<lparr>accepted := m\<rparr>) = connections s"
  "connections (s\<lparr>selecting := k\<rparr>) = connections s" "connections (s\<lparr>backoffs := ws\<rparr>) = connections s"
  by (simp_all add: connections_def)

lemma connections_end:
  assumes "t \<in> set (tasks s)"
  shows "length (connections (end_task t s)) = length (connections s) - of_bool (kind t = TcpConnection)"
    and "kind t = TcpConnection \<Longrightarrow> t \<in> set (connections s)"
  using assms by (simp_all add: connections_def filter_remove1 length_remove1)

lemma life_of_frame:
  "stage s' = stage s \<Longrightarrow> (selecting s' > 0 \<longleftrightarrow> selecting s > 0) \<Longrightarrow>
     length (connections s') = length (connections s) \<Longrightarrow> life_step\<^sup>*\<^sup>* (life_of s) (life_of s')"
  by (simp add: life_of_def)

lemma life_of_end:
  assumes t: "t \<in> set (tasks s)" and ok: "stages_ok s"
  shows "life_step\<^sup>*\<^sup>* (life_of s) (life_of (end_task t s))"
proof (cases "kind t = TcpConnection")
  case True
  then obtain n where n: "length (connections s) = Suc n" "length (connections (end_task t s)) = n"
    using connections_end [OF t] by (cases "connections s") auto
  have "stage s \<noteq> Returned" using ok t by (auto simp: stages_ok_def)
  with n show ?thesis
    by (auto simp: life_of_def intro: life_step.intros)
qed (use connections_end [OF t] in \<open>intro life_of_frame; simp\<close>)

text \<open>Leaving a \<open>select!\<close> after the signal, with or without a connection, ends the open phase.\<close>

lemma life_of_selected:
  assumes "selecting s > 0" and "stage s \<noteq> Returned"
  shows "life_step\<^sup>*\<^sup>* (Open (length (connections s))) (life_of (s\<lparr>selecting := selecting s - 1\<rparr>))"
  using assms by (auto simp: life_of_def intro: life_step.closing_starts)

lemma life_of_own: "own_step s s' \<Longrightarrow> stages_ok s \<Longrightarrow> life_step\<^sup>*\<^sup>* (life_of s) (life_of s')"
proof (induction rule: own_step.induct)
  case (task_dropped t s d)
  then show ?case by (intro life_of_end)
next
  case (select_continues s)
  then have "stage s \<noteq> Returned" "life_of s = Open (length (connections s))"
    by (auto simp: stages_ok_def life_of_def)
  with life_of_selected [OF select_continues(1)] show ?case by simp
next
  case (all_joined s)
  then show ?case by (auto simp: life_of_def stages_ok_def)
next
  case (barrier_passed s)
  then have "life_of s = Closing 0" "life_of (s\<lparr>stage := Returned\<rparr>) = Gone"
    by (auto simp: life_of_def connections_def stages_ok_def)
  then show ?case using life_step.all_gone by auto
qed (intro life_of_frame; simp)+

lemma life_of_env: "env_step grace s s' \<Longrightarrow> stages_ok s \<Longrightarrow> life_step\<^sup>*\<^sup>* (life_of s) (life_of s')"
proof (induction rule: env_step.induct)
  case (accept_polls s)
  then have "stage s = Serving"
    by (auto simp: stages_ok_def deadline_def split: Shutdown.splits)
  then show ?case by (simp add: life_of_def)
next
  case (accept s)
  let ?s = "spawn \<lparr>kind = TcpConnection, guard = True\<rparr> (s\<lparr>accepted := Suc (accepted s)\<rparr>)"
  have eq: "spawn \<lparr>kind = TcpConnection, guard = True\<rparr> (s\<lparr>selecting := selecting s - 1,
      accepted := Suc (accepted s)\<rparr>) = ?s\<lparr>selecting := selecting ?s - 1\<rparr>"
    by (simp add: spawn_def guard_new_def protocol_of_def Let_def)
  have o: "life_of s = Open (length (connections s))" using accept by (simp add: life_of_def)
  have "life_step (Open (length (connections s))) (Open (length (connections ?s)))"
    by (simp add: connections_spawn life_step.connection_comes)
  moreover have "selecting ?s > 0" "stage ?s \<noteq> Returned"
    using accept by (auto simp: stages_ok_def)
  ultimately show ?case
    unfolding eq o by (blast intro: converse_rtranclp_into_rtranclp life_of_selected)
next
  case (accept_fails s)
  then have "stage s \<noteq> Returned" "life_of s = Open (length (connections s))"
    by (auto simp: stages_ok_def life_of_def)
  moreover have "life_of (s\<lparr>selecting := selecting s - 1, backoffs := (clock s + accept_backoff) # backoffs s\<rparr>)
      = life_of (s\<lparr>selecting := selecting s - 1\<rparr>)"
    by (simp add: life_of_def cong del: if_weak_cong)
  ultimately show ?case using life_of_selected [OF accept_fails(1)] by metis
next
  case (bridge_started s)
  then show ?case
    using connections_end(1) [OF bridge_started(1)]
    by (intro life_of_frame) (simp_all add: connections_spawn)
next
  case (shutdown_signal s)
  then show ?case by (auto simp: life_of_def intro: life_step.closing_starts)
next
  case (task_ends t s)
  then show ?case by (intro life_of_end)
qed (intro life_of_frame; simp add: connections_spawn)+

lemma life_of_step: "server_step grace s s' \<Longrightarrow> stages_ok s \<Longrightarrow> life_step\<^sup>*\<^sup>* (life_of s) (life_of s')"
  by (induction rule: server_step.induct) (auto intro: life_of_own life_of_env life_of_frame)

interpretation life: refinement "\<lambda>s. \<exists>n p. s = server_start n p" "server_step grace"
  "\<lambda>s. gauges_ok s \<and> stages_ok s" life_of "\<lambda>l. l = Open 0" "life_step\<^sup>*\<^sup>*" for grace
  using life_of_step by unfold_locales (auto simp: life_of_def connections_def server_start_def)

text \<open>What clients see of the whole server, with its accept loops, poller, requests, relays,
  guards and timers, is the abstract shutdown: from its start every run of the server is a run of
  \<open>life_step\<close>. So a server that is closing never serves a new connection and is gone only after the
  last one.\<close>

lemma server_refines_life:
  assumes "(server_step grace)\<^sup>*\<^sup>* (server_start listeners polls) s"
  shows "life_step\<^sup>*\<^sup>* (Open 0) (life_of s)"
proof -
  have "life_step\<^sup>*\<^sup>*\<^sup>*\<^sup>* (life_of (server_start listeners polls)) (life_of s)"
    using life.refines [OF _ assms] by blast
  then show ?thesis by (simp add: life_of_def connections_def server_start_def)
qed

end
