(* ===== verification/Process.thy ===== *)
theory Process
  imports Startup Lifecycle
begin

text \<open>
  What surrounds the server: \<open>main\<close> of \<open>src/main.rs\<close> (telemetry, subscriber, signals), the composition
  of \<open>run_inner\<close> in \<open>src/lib.rs\<close> up to its listeners (\<open>launch\<close>), with what is done on the way in order
  (\<open>MainEvent\<close>), the options set on sockets
  (\<open>accept_loop\<close>, \<open>configure_ws_keepalive\<close> of \<open>src/websocket.rs\<close>) and the shutdown of the telemetry
  providers (\<open>src/otel.rs\<close>). The operating system and the SDK are arguments: what a signal handler,
  a socket option or an address to bind answers.
\<close>

section \<open>Signals\<close>

text \<open>
  What the shutdown future of \<open>main\<close> meets, in order: \<open>ctrl_c()\<close> resolves (with whatever result)
  or the SIGTERM stream yields. It waits for the first; installing the SIGTERM handler is an
  \<open>expect\<close>.
\<close>

datatype SignalEvent = CtrlC "string + unit" | Terminate "unit option"

datatype Awaited = StillWaiting | Resolved SignalEvent | Panicked string

definition awaited_signal :: "bool \<Rightarrow> SignalEvent \<Rightarrow> bool" where
  "awaited_signal unix ev = (case ev of CtrlC _ \<Rightarrow> True | Terminate _ \<Rightarrow> unix)"

definition wait_signal :: "bool \<Rightarrow> string + unit \<Rightarrow> SignalEvent list \<Rightarrow> Awaited" where
  "wait_signal unix install evs =
     (if unix \<and> isl install then Panicked (''install SIGTERM handler: '' @ projl install)
      else (case filter (awaited_signal unix) evs of [] \<Rightarrow> StillWaiting | ev # _ \<Rightarrow> Resolved ev))"

section \<open>The subscriber\<close>

type_synonym Telemetry = "string \<times> string"

datatype Layer = FilterLayer string | OtelLayer string string | JsonLayer

text \<open>\<open>Telemetry::tracer\<close>: the traces provider and the name of the tracer.\<close>

definition tracer :: "Telemetry \<Rightarrow> string \<times> string" where
  "tracer t = (fst t, ''ethryx'')"

definition subscriber :: "string + string \<Rightarrow> Config \<Rightarrow> Telemetry option \<Rightarrow> Layer list" where
  "subscriber env c telemetry =
     (let f = (case env of Inr s \<Rightarrow> s | Inl _ \<Rightarrow> log_filter c) in
      case telemetry of
        Some t \<Rightarrow> [FilterLayer f, (case tracer t of (provider, name) \<Rightarrow> OtelLayer provider name), JsonLayer]
      | None \<Rightarrow> [FilterLayer f, JsonLayer])"

section \<open>From the configuration to the listeners\<close>

text \<open>
  \<open>run_inner\<close> before it waits for the shutdown: validation and state, the warm-up poll, the poller,
  then the listeners. When an address cannot be bound, the sender of the shutdown channel is
  dropped with everything else, which the poller (already spawned) sees.
\<close>

record Launched =
  la_warm :: Warm
  la_listeners :: "nat list"
  la_server :: Server

datatype LaunchError = NotStarted string | NotBound string Warm Shutdown

text \<open>What the start of the process does that others can see, in the order it does it.\<close>

datatype MainEvent =
    GlobalInstalled OtelGlobal
  | SubscriberInstalled "Layer list"
  | RecorderTried "Recorder list"
  | WarmUpPolled Probe
  | UpstreamsConnected ConnectedLine
  | PollerSpawned
  | BindTried string
  | Listening string
  | AcceptLoopsSpawned nat

text \<open>The addresses are bound one after the other, up to the first that fails.\<close>

fun bind_events :: "(string \<Rightarrow> string + nat) \<Rightarrow> string list \<Rightarrow> MainEvent list" where
  "bind_events bind [] = []"
| "bind_events bind (addr # addrs) =
     BindTried addr #
       (case bind addr of Inl e \<Rightarrow> [] | Inr listener \<Rightarrow> Listening addr # bind_events bind addrs)"

definition launch_run ::
  "http_api \<Rightarrow> json_api \<Rightarrow> net_api \<Rightarrow> u64 \<Rightarrow> gauges \<Rightarrow> (string \<Rightarrow> string + nat) \<Rightarrow> Telemetry option \<Rightarrow> Config
     \<Rightarrow> (LaunchError + Launched) \<times> MainEvent list"
where
  "launch_run A J N now g bind telemetry c =
     (let recorder = RecorderTried (if telemetry \<noteq> None then [Prometheus, OpenTelemetry] else [Prometheus])
      in case run_inner_setup A (telemetry \<noteq> None) c of
        Inl e \<Rightarrow> (Inl (NotStarted e), [recorder])
      | Inr state \<Rightarrow>
          (let w = warm_up A J N now g state;
               warmed = [recorder, WarmUpPolled (probe (warm_app w)), UpstreamsConnected (warm_connected w)];
               polling = (if warm_poller w then [PollerSpawned] else []);
               tried = warmed @ polling @ bind_events bind (listen c) in
           case bind_all bind (listen c) of
             Inl e \<Rightarrow> (Inl (NotBound e w SenderDropped), tried)
           | Inr ls \<Rightarrow> (Inr \<lparr>la_warm = w, la_listeners = ls,
                             la_server = server_start (length ls) (warm_poller w)\<rparr>,
                           tried @ [AcceptLoopsSpawned (length ls)])))"

definition launch ::
  "http_api \<Rightarrow> json_api \<Rightarrow> net_api \<Rightarrow> u64 \<Rightarrow> gauges \<Rightarrow> (string \<Rightarrow> string + nat) \<Rightarrow> Telemetry option \<Rightarrow> Config
     \<Rightarrow> LaunchError + Launched"
where
  "launch A J N now g bind telemetry c = fst (launch_run A J N now g bind telemetry c)"

text \<open>\<open>main\<close> up to the accept loops, with everything it did, in order.\<close>

definition main_start ::
  "http_api \<Rightarrow> otel_api \<Rightarrow> json_api \<Rightarrow> net_api \<Rightarrow> u64 \<Rightarrow> gauges \<Rightarrow> (string \<Rightarrow> string + nat) \<Rightarrow> string + string
     \<Rightarrow> Config \<Rightarrow> (LaunchError + Telemetry option \<times> Launched) \<times> MainEvent list"
where
  "main_start A T J N now g bind env c =
     (case start A T (otel_endpoint c) of
        (Inl e, globals) \<Rightarrow> (Inl (NotStarted e), map GlobalInstalled globals)
      | (Inr telemetry, globals) \<Rightarrow>
          (let installed = map GlobalInstalled globals @ [SubscriberInstalled (subscriber env c telemetry)];
               (result, run) = launch_run A J N now g bind telemetry c
           in (and_then result (\<lambda>l. Inr (telemetry, l)), installed @ run)))"

section \<open>Sockets\<close>

datatype SocketOption = NoDelay bool | TcpKeepalive nat nat

text \<open>What came of one option: it is set, or the failure was logged and nothing else.\<close>

datatype OptionResult = OptionSet SocketOption | OptionFailed string string

definition set_option :: "(SocketOption \<Rightarrow> string + unit) \<Rightarrow> SocketOption \<Rightarrow> string \<Rightarrow> OptionResult" where
  "set_option os opt msg = (case os opt of Inr _ \<Rightarrow> OptionSet opt | Inl e \<Rightarrow> OptionFailed msg e)"

text \<open>One round of \<open>accept_loop\<close>: the deadline is looked at first.\<close>

datatype Round = LoopReturns | BackOff nat | Serve "OptionResult list" string

definition accept_round ::
  "Shutdown \<Rightarrow> nat \<Rightarrow> (SocketOption \<Rightarrow> string + unit) \<Rightarrow> string + string \<Rightarrow> Round"
where
  "accept_round w now os incoming =
     (if deadline w now \<noteq> None then LoopReturns
      else (case incoming of
              Inl e \<Rightarrow> BackOff accept_backoff
            | Inr who \<Rightarrow> Serve [set_option os (NoDelay True) ''set_nodelay failed'',
                               set_option os (TcpKeepalive 60 10) ''failed to set TCP keepalive''] who))"

datatype 's MaybeTlsStream = PlainStream 's | RustlsStream 's | OtherStream

definition configure_ws_keepalive ::
  "('s \<Rightarrow> SocketOption \<Rightarrow> string + unit) \<Rightarrow> 's MaybeTlsStream \<Rightarrow> OptionResult list"
where
  "configure_ws_keepalive os stream =
     (case (case stream of PlainStream s \<Rightarrow> Some s | RustlsStream s \<Rightarrow> Some s | OtherStream \<Rightarrow> None) of
        Some s \<Rightarrow> [set_option (os s) (TcpKeepalive 60 10) ''failed to set upstream WS TCP keepalive'']
      | None \<Rightarrow> [])"

section \<open>The end of a run\<close>

datatype ProviderCall = MetricsShutdown string | TracesShutdown string

text \<open>\<open>Telemetry::shutdown\<close>: metrics first; what the providers answer is ignored.\<close>

definition telemetry_shutdown :: "Telemetry \<Rightarrow> ProviderCall list" where
  "telemetry_shutdown t = (case t of (traces, metrics) \<Rightarrow> [MetricsShutdown metrics, TracesShutdown traces])"

definition finish :: "Telemetry option \<Rightarrow> ProviderCall list" where
  "finish telemetry = (case telemetry of None \<Rightarrow> [] | Some t \<Rightarrow> telemetry_shutdown t)"

text \<open>
  How far that has come. The calls are made one after the other on a blocking thread that \<open>run\<close>
  waits for: those that have returned, and those to come, of which the first is being made. A call
  takes its time; when it panics the ones after it are not made, and \<open>run\<close>, which ignores how the
  thread ended, returns all the same.
\<close>

datatype Flush =
    NotYet
  | Flushing "ProviderCall list" "ProviderCall list"
  | RunOver "ProviderCall list" bool

text \<open>The calls that have been made, the one under way included.\<close>

definition flush_calls :: "Flush \<Rightarrow> ProviderCall list" where
  "flush_calls f =
     (case f of NotYet \<Rightarrow> [] | Flushing made rest \<Rightarrow> made @ take 1 rest | RunOver made panicked \<Rightarrow> made)"

section \<open>Facts about them\<close>

lemma wait_signal_first:
  "wait_signal True (Inr ()) (ev # evs) = Resolved ev"
  "wait_signal False install (CtrlC r # evs) = Resolved (CtrlC r)"
  "wait_signal False install (Terminate t # evs) = wait_signal False install evs"
  by (cases ev) (simp_all add: wait_signal_def awaited_signal_def)

text \<open>Binding stops at the first address that fails, and gives one listener per address otherwise.\<close>

lemma bind_all_Inr: "bind_all bind addrs = Inr ls \<longleftrightarrow> map bind addrs = map Inr ls"
  by (induction addrs arbitrary: ls) (auto simp: and_then_Inr_iff)

lemma bind_all_Inl:
  "bind_all bind addrs = Inl e \<longleftrightarrow> (\<exists>good addr rest ls. addrs = good @ addr # rest
     \<and> map bind good = map Inr ls \<and> bind addr = Inl e)"
proof (induction addrs)
  case (Cons a as)
  show ?case
  proof (cases "bind a")
    case (Inl x)
    then show ?thesis
      by (fastforce simp: Cons_eq_append_conv)
  next
    case (Inr l)
    then have "bind_all bind (a # as) = Inl e \<longleftrightarrow> bind_all bind as = Inl e"
      by (cases "bind_all bind as") auto
    also have "\<dots> \<longleftrightarrow> (\<exists>good addr rest ls. a # as = good @ addr # rest
        \<and> map bind good = map Inr ls \<and> bind addr = Inl e)"
    proof
      assume "bind_all bind as = Inl e"
      then obtain good addr rest ls where "as = good @ addr # rest" "map bind good = map Inr ls" "bind addr = Inl e"
        using Cons.IH by blast
      with Inr have "a # as = (a # good) @ addr # rest \<and> map bind (a # good) = map Inr (l # ls) \<and> bind addr = Inl e"
        by simp
      then show "\<exists>good addr rest ls. a # as = good @ addr # rest \<and> map bind good = map Inr ls \<and> bind addr = Inl e"
        by blast
    next
      assume "\<exists>good addr rest ls. a # as = good @ addr # rest \<and> map bind good = map Inr ls \<and> bind addr = Inl e"
      then obtain good addr rest ls where g: "a # as = good @ addr # rest" "map bind good = map Inr ls"
        "bind addr = Inl e" by blast
      with Inr obtain good' where "good = a # good'" by (cases good) auto
      with g have "as = good' @ addr # rest" "map bind good' = map Inr (tl ls)" by auto
      with g(3) show "bind_all bind as = Inl e" using Cons.IH by blast
    qed
    finally show ?thesis .
  qed
qed simp

text \<open>A round of a loop is what a waiting loop does in the server: it returns, or it looks at the
  deadline and then at the listener and serves or backs off.\<close>

lemma accept_round_step:
  assumes "loop_waits s"
  shows "case accept_round (shutdown s) (clock s) os incoming of
      LoopReturns \<Rightarrow> own_step s (s\<lparr>acceptors := acceptors s - 1\<rparr>)
    | BackOff ms \<Rightarrow> isl incoming \<and> (env_step grace OO env_step grace) s
        (s\<lparr>backoffs := (clock s + ms) # backoffs s\<rparr>)
    | Serve opts who \<Rightarrow> length opts = 2 \<and> incoming = Inr who \<and> (env_step grace OO env_step grace) s
        (spawn \<lparr>kind = TcpConnection, guard = True\<rparr> (s\<lparr>accepted := Suc (accepted s)\<rparr>))"
proof (cases "deadline (shutdown s) (clock s)")
  case None
  let ?s = "s\<lparr>selecting := Suc (selecting s)\<rparr>"
  have p: "env_step grace s ?s" by (rule env_step.accept_polls [OF assms None])
  have "env_step grace ?s (s\<lparr>backoffs := (clock s + accept_backoff) # backoffs s\<rparr>)"
    "env_step grace ?s (spawn \<lparr>kind = TcpConnection, guard = True\<rparr> (s\<lparr>accepted := Suc (accepted s)\<rparr>))"
    using env_step.accept_fails [of ?s grace] env_step.accept [of ?s grace] by simp_all
  with p have "(env_step grace OO env_step grace) s (s\<lparr>backoffs := (clock s + accept_backoff) # backoffs s\<rparr>)"
    "(env_step grace OO env_step grace) s
       (spawn \<lparr>kind = TcpConnection, guard = True\<rparr> (s\<lparr>accepted := Suc (accepted s)\<rparr>))"
    by blast+
  with None show ?thesis by (cases incoming) (simp_all add: accept_round_def)
next
  case (Some d)
  then show ?thesis using own_step.acceptor_returns [OF assms] by (simp add: accept_round_def)
qed

text \<open>The result of the run alone.\<close>

lemma launch_eq:
  "launch A J N now g bind telemetry c =
     (case run_inner_setup A (telemetry \<noteq> None) c of
        Inl e \<Rightarrow> Inl (NotStarted e)
      | Inr state \<Rightarrow>
          (let w = warm_up A J N now g state in
           case bind_all bind (listen c) of
             Inl e \<Rightarrow> Inl (NotBound e w SenderDropped)
           | Inr ls \<Rightarrow> Inr \<lparr>la_warm = w, la_listeners = ls,
                            la_server = server_start (length ls) (warm_poller w)\<rparr>))"
  by (simp add: launch_def launch_run_def Let_def split: sum.split)

text \<open>The poller that a failed bind leaves behind stops at its next look at the channel.\<close>

lemma abandoned_poller_stops:
  "launch A J N now g bind telemetry c = Inl (NotBound e w sd) \<Longrightarrow> deadline sd t = Some t"
  by (auto simp: launch_eq deadline_def Let_def split: sum.splits)

text \<open>What a launched program starts with.\<close>

lemma launch_Inr:
  assumes "launch A J N now g bind telemetry c = Inr l"
  shows "\<exists>st. run_inner_setup A (telemetry \<noteq> None) c = Inr st \<and> la_warm l = warm_up A J N now g st
     \<and> length (la_listeners l) = length (listen c) \<and> listen c \<noteq> []
     \<and> la_server l = server_start (length (listen c)) (\<not> trust_upstream c)"
proof -
  from assms obtain st where st: "run_inner_setup A (telemetry \<noteq> None) c = Inr st"
    and l: "bind_all bind (listen c) = Inr (la_listeners l)" "la_warm l = warm_up A J N now g st"
      "la_server l = server_start (length (la_listeners l)) (warm_poller (la_warm l))"
    by (auto simp: launch_eq Let_def split: sum.splits)
  have c: "cfg st = c" "listen c \<noteq> []" using setup_Inr [OF st] by auto
  have "cfg (snd (probe_once A J N st)) = c"
    using probe_once_frame [of A J N st] c by auto
  then have "warm_poller (la_warm l) = (\<not> trust_upstream c)"
    unfolding l(2) by (cases "probe_once A J N st") (simp add: warm_up_def Let_def)
  moreover have "length (la_listeners l) = length (listen c)"
    using arg_cong [OF l(1) [unfolded bind_all_Inr], of length] by simp
  ultimately show ?thesis using st l c by auto
qed

text \<open>What binding shows: every address before the first that fails is listened on, none after it.\<close>

lemma bind_events_all:
  "map bind addrs = map Inr ls \<Longrightarrow> bind_events bind addrs = concat (map (\<lambda>a. [BindTried a, Listening a]) addrs)"
  by (induction addrs arbitrary: ls) auto

lemma bind_events_failed:
  "map bind good = map Inr ls \<Longrightarrow> bind addr = Inl e \<Longrightarrow>
     bind_events bind (good @ addr # rest) =
       concat (map (\<lambda>a. [BindTried a, Listening a]) good) @ [BindTried addr]"
  by (induction good arbitrary: ls) auto

lemma warm_up_fields:
  "probe (warm_app (warm_up A J N now g st)) = fst (probe_once A J N st)"
  "warm_connected (warm_up A J N now g st) = connected_line (snd (probe_once A J N st))"
  "cfg st = c \<Longrightarrow> warm_poller (warm_up A J N now g st) \<longleftrightarrow> \<not> trust_upstream c"
proof -
  have "cfg (snd (probe_once A J N st)) = cfg st" using probe_once_frame [of A J N st] by auto
  then show "probe (warm_app (warm_up A J N now g st)) = fst (probe_once A J N st)"
    "warm_connected (warm_up A J N now g st) = connected_line (snd (probe_once A J N st))"
    "cfg st = c \<Longrightarrow> warm_poller (warm_up A J N now g st) \<longleftrightarrow> \<not> trust_upstream c"
    by (auto simp: warm_up_def Let_def split: prod.splits)
qed

section \<open>Properties\<close>

text \<open>C23: starting up is all or nothing, and in order. A failing exporter is reported before any
  subscriber exists. Otherwise the subscriber is installed first, before anything of the run has
  happened; then comes the metrics recorder; an invalid configuration is reported with nothing else
  done; a valid one is warmed up by one poll, whose outcome is logged, before the poller is
  spawned (unless the upstream is trusted) and before any address is bound; the addresses are bound in order; all of
  them are then accepted on, or the first that cannot be bound is the one reported, no later one is tried and
  nothing is accepted.\<close>

theorem startup_outcomes:
  "case main_start A T J N now g bind env c of (result, events) \<Rightarrow>
     (case start A T (otel_endpoint c) of
        (Inl e, globals) \<Rightarrow> result = Inl (NotStarted e) \<and> events = map GlobalInstalled globals
      | (Inr telemetry, globals) \<Rightarrow>
          (\<exists>run. events = map GlobalInstalled globals @ [SubscriberInstalled (subscriber env c telemetry),
              RecorderTried (if telemetry \<noteq> None then [Prometheus, OpenTelemetry] else [Prometheus])] @ run
          \<and> (case run_inner_setup A (telemetry \<noteq> None) c of
               Inl e \<Rightarrow> result = Inl (NotStarted e) \<and> run = []
             | Inr st \<Rightarrow>
                 (let (first_probe, polled) = probe_once A J N st;
                      warmed = [WarmUpPolled first_probe, UpstreamsConnected (connected_line polled)]
                        @ (if trust_upstream c then [] else [PollerSpawned]);
                      bound = (\<lambda>addrs. concat (map (\<lambda>a. [BindTried a, Listening a]) addrs)) in
                  (\<exists>ls. map bind (listen c) = map Inr ls
                    \<and> result = Inr (telemetry, \<lparr>la_warm = warm_up A J N now g st, la_listeners = ls,
                        la_server = server_start (length (listen c)) (\<not> trust_upstream c)\<rparr>)
                    \<and> run = warmed @ bound (listen c) @ [AcceptLoopsSpawned (length (listen c))])
                  \<noteq> (\<exists>good addr rest ls e. listen c = good @ addr # rest \<and> map bind good = map Inr ls
                    \<and> bind addr = Inl e
                    \<and> result = Inl (NotBound e (warm_up A J N now g st) SenderDropped)
                    \<and> run = warmed @ bound good @ [BindTried addr])))))"
proof -
  obtain r globals where s: "start A T (otel_endpoint c) = (r, globals)" by fastforce
  show ?thesis
  proof (cases r)
    case (Inl e)
    with s show ?thesis by (simp add: main_start_def)
  next
    case (Inr telemetry)
    show ?thesis
    proof (cases "run_inner_setup A (telemetry \<noteq> None) c")
      case (Inl e)
      with s Inr show ?thesis by (simp add: main_start_def launch_run_def Let_def)
    next
      case st: (Inr st)
      obtain pr app where p: "probe_once A J N st = (pr, app)" by fastforce
      have c: "cfg st = c" using setup_Inr [OF st] by blast
      note w = warm_up_fields(1,2) [of A J N now g st] warm_up_fields(3) [OF c, of A J N now g]
      show ?thesis
      proof (cases "bind_all bind (listen c)")
        case (Inl e)
        then obtain good addr rest ls where b: "listen c = good @ addr # rest" "map bind good = map Inr ls"
          "bind addr = Inl e" using bind_all_Inl by blast
        then have "\<nexists>ls. map bind (listen c) = map Inr ls" using Inl bind_all_Inr by (metis sum.simps(4))
        with s Inr st Inl b show ?thesis
          by (simp add: main_start_def launch_run_def Let_def w p bind_events_failed [OF b(2,3)]) metis
      next
        case ls: (Inr ls)
        then have b: "map bind (listen c) = map Inr ls" using bind_all_Inr by blast
        then have l: "length ls = length (listen c)" by (metis length_map)
        from s Inr st ls show ?thesis
          by (simp add: main_start_def launch_run_def Let_def w p l b bind_events_all [OF b])
      qed
    qed
  qed
qed

end
