(* ===== verification/Program.thy ===== *)
theory Program
  imports Relay Process "HOL-Library.Multiset"
begin

text \<open>
  The whole program: requests, WebSocket tunnels, the poller and the shutdown, interleaved over one
  shared \<open>AppState\<close>. One step of \<open>prog_step\<close> is a step of one part as its own theory models it: a
  step of the server's tasks (\<open>Lifecycle\<close>), a dispatched request (\<open>Proxy\<close>), an iteration of a
  tunnel (\<open>Relay\<close>), the two halves of a poll (\<open>Poll\<close>). The parts meet where the code lets them
  meet: the poller writes the verdict and the probe that requests read, a request leaves a tunnel
  behind, whose task the server counts and drops at the deadline. \<open>prog_own\<close> are the steps the
  program takes by itself as soon as it can; all clocks, the server's and those of the tunnels,
  advance together and only while none of these steps is possible.

  A dispatched request is one step because it reads the shared state once: the probe under one
  \<open>borrow\<close> for a local answer, or the verdict when it picks the client of the EL. A poll is two:
  the batch may store a new verdict long before the probe is published.
\<close>

section \<open>State\<close>

record Relaying =
  rl_tunnel :: Tunnel
  rl_client :: items
  rl_upstream :: items
  rl_bridge :: Bridge

text \<open>A request with what it met: its environment, the shared state it read, what it sent, the
  answer, unless it was cancelled before, and the polls completed until then. \<open>sv_polls\<close> and
  \<open>pr_polls\<close>, the networks and times of all completed polls, are records for the properties; no
  step reads them.\<close>

record Served =
  sv_env :: proxy_env
  sv_request :: Request
  sv_state :: AppState
  sv_sent :: "Contact list"
  sv_answer :: "Response option"
  sv_polls :: "(net_api \<times> u64) list"

record Program =
  pr_poll :: PollState
  pr_polling :: "net_api option"
  pr_polls :: "(net_api \<times> u64) list"
  pr_server :: Server
  pr_pending :: "Tunnel list"
  pr_relays :: "Relaying list"
  pr_closed :: "Relaying list"
  pr_log :: "Served list"
  pr_flush :: Flush

definition program_start :: "Launched \<Rightarrow> Program" where
  "program_start l =
     \<lparr>pr_poll = poll_start (warm_app (la_warm l)) (warm_gauges (la_warm l)), pr_polling = None,
      pr_polls = [], pr_server = la_server l, pr_pending = [], pr_relays = [], pr_closed = [], pr_log = [],
      pr_flush = NotYet\<rparr>"

abbreviation "shared p \<equiv> ps_app (pr_poll p)"

section \<open>Steps\<close>

definition sent_by :: "Dispatched \<Rightarrow> Contact list" where
  "sent_by d = (case dis_outcome d of None \<Rightarrow> [] | Some out \<Rightarrow> contacts out)"

definition tunnel_by :: "Dispatched \<Rightarrow> Tunnel option" where
  "tunnel_by d = Option.bind (dis_outcome d) spawned"

definition relay_tasks :: "Server \<Rightarrow> Task list" where
  "relay_tasks s = filter (\<lambda>t. kind t = WsRelay) (tasks s)"

definition serves :: "Server \<Rightarrow> bool" where
  "serves s \<longleftrightarrow> (\<exists>t \<in> set (tasks s). kind t \<noteq> WsRelay)"

abbreviation "waiting_task \<equiv> \<lparr>kind = WsRelay, guard = False\<rparr>"
abbreviation "bridge_task \<equiv> \<lparr>kind = WsRelay, guard = True\<rparr>"

text \<open>The deadline has been announced and is there.\<close>

definition deadline_reached :: "Server \<Rightarrow> bool" where
  "deadline_reached s \<longleftrightarrow> (\<exists>d. deadline (shutdown s) (clock s) = Some d \<and> d \<le> clock s)"

inductive prog_own :: "http_api \<Rightarrow> json_api \<Rightarrow> Telemetry option \<Rightarrow> Program \<Rightarrow> Program \<Rightarrow> bool"
  for A J telemetry
where
  server_own:
    "\<lbrakk>own_step (pr_server p) s; relay_tasks s = relay_tasks (pr_server p);
      poller s = poller (pr_server p)\<rbrakk>
     \<Longrightarrow> prog_own A J telemetry p (p\<lparr>pr_server := s\<rparr>)"
| tunnel_dropped:
    "\<lbrakk>tun \<in> set (pr_pending p); deadline_reached (pr_server p)\<rbrakk>
     \<Longrightarrow> prog_own A J telemetry p
           (p\<lparr>pr_server := end_task waiting_task (pr_server p), pr_pending := remove1 tun (pr_pending p)\<rparr>)"
| relay_dropped:
    "\<lbrakk>pr_relays p = before @ rl # after; deadline_reached (pr_server p)\<rbrakk>
     \<Longrightarrow> prog_own A J telemetry p
           (p\<lparr>pr_server := end_task bridge_task (pr_server p), pr_relays := before @ after,
              pr_closed := rl # pr_closed p\<rparr>)"
| relay_ends:
    "\<lbrakk>pr_relays p = before @ rl # after; bridge_over (rl_bridge rl)\<rbrakk>
     \<Longrightarrow> prog_own A J telemetry p
           (p\<lparr>pr_server := end_task bridge_task (pr_server p), pr_relays := before @ after,
              pr_closed := rl # pr_closed p\<rparr>)"
| relay_timer:
    "\<lbrakk>pr_relays p = before @ rl # after; timer_step (rl_bridge rl) b\<rbrakk>
     \<Longrightarrow> prog_own A J telemetry p (p\<lparr>pr_relays := before @ rl\<lparr>rl_bridge := b\<rparr> # after\<rparr>)"
| poller_stops:
    "\<lbrakk>poller (pr_server p); deadline (shutdown (pr_server p)) (clock (pr_server p)) \<noteq> None\<rbrakk>
     \<Longrightarrow> prog_own A J telemetry p
           (p\<lparr>pr_server := (pr_server p)\<lparr>poller := False\<rparr>,
              pr_poll := poll_step A J (DeadlineWhilePolling None) (pr_poll p), pr_polling := None\<rparr>)"
| flush_begins:
    "\<lbrakk>stage (pr_server p) = Returned; pr_flush p = NotYet\<rbrakk>
     \<Longrightarrow> prog_own A J telemetry p (p\<lparr>pr_flush := Flushing [] (finish telemetry)\<rparr>)"
| run_returns:
    "pr_flush p = Flushing made [] \<Longrightarrow> prog_own A J telemetry p (p\<lparr>pr_flush := RunOver made False\<rparr>)"

text \<open>A millisecond passes, for the server and for every tunnel.\<close>

definition later :: "Program \<Rightarrow> Program" where
  "later p = p\<lparr>pr_server := (pr_server p)\<lparr>clock := Suc (clock (pr_server p))\<rparr>,
     pr_relays := map (\<lambda>rl. rl\<lparr>rl_bridge := (rl_bridge rl)\<lparr>bridge_clock := Suc (bridge_clock (rl_bridge rl))\<rparr>\<rparr>) (pr_relays p)\<rparr>"

text \<open>What the program does when nobody else does anything.\<close>

inductive prog_alone :: "http_api \<Rightarrow> json_api \<Rightarrow> Telemetry option \<Rightarrow> Program \<Rightarrow> Program \<Rightarrow> bool"
  for A J telemetry
where
  own: "prog_own A J telemetry p p' \<Longrightarrow> prog_alone A J telemetry p p'"
| time_passes: "\<nexists>p'. prog_own A J telemetry p p' \<Longrightarrow> prog_alone A J telemetry p (later p)"

inductive prog_step :: "http_api \<Rightarrow> json_api \<Rightarrow> nat \<Rightarrow> Telemetry option \<Rightarrow> Program \<Rightarrow> Program \<Rightarrow> bool"
  for A J grace telemetry
where
  alone: "prog_alone A J telemetry p p' \<Longrightarrow> prog_step A J grace telemetry p p'"
| server_moves:
    "\<lbrakk>env_step grace (pr_server p) s; relay_tasks s = relay_tasks (pr_server p)\<rbrakk>
     \<Longrightarrow> prog_step A J grace telemetry p (p\<lparr>pr_server := s\<rparr>)"
| request_answered:
    "\<lbrakk>serves (pr_server p); http E = A; json E = J;
      d = dispatch E req (shared p); tunnel_by d = None\<rbrakk>
     \<Longrightarrow> prog_step A J grace telemetry p
           (p\<lparr>pr_log := pr_log p @ [\<lparr>sv_env = E, sv_request = req, sv_state = shared p,
                sv_sent = sent_by d, sv_answer = Some (dis_response d), sv_polls = pr_polls p\<rparr>]\<rparr>)"
| request_cancelled:
    "\<lbrakk>serves (pr_server p); http E = A; json E = J;
      d = dispatch E req (shared p); prefix sent (sent_by d)\<rbrakk>
     \<Longrightarrow> prog_step A J grace telemetry p
           (p\<lparr>pr_log := pr_log p @ [\<lparr>sv_env = E, sv_request = req, sv_state = shared p,
                sv_sent = sent, sv_answer = None, sv_polls = pr_polls p\<rparr>]\<rparr>)"
| tunnel_spawned:
    "\<lbrakk>serves (pr_server p); http E = A; json E = J;
      d = dispatch E req (shared p); tunnel_by d = Some tun\<rbrakk>
     \<Longrightarrow> prog_step A J grace telemetry p
           (p\<lparr>pr_log := pr_log p @ [\<lparr>sv_env = E, sv_request = req, sv_state = shared p,
                sv_sent = sent_by d, sv_answer = Some (dis_response d), sv_polls = pr_polls p\<rparr>],
              pr_server := spawn waiting_task (pr_server p), pr_pending := tun # pr_pending p\<rparr>)"
| tunnel_opens:
    "\<lbrakk>tun \<in> set (pr_pending p);
      rl = \<lparr>rl_tunnel = tun, rl_client = cs, rl_upstream = us, rl_bridge = bridge_start cs us c_room u_room\<rparr>\<rbrakk>
     \<Longrightarrow> prog_step A J grace telemetry p
           (p\<lparr>pr_server := spawn bridge_task (end_task waiting_task (pr_server p)),
              pr_pending := remove1 tun (pr_pending p), pr_relays := rl # pr_relays p\<rparr>)"
| tunnel_fails:
    "tun \<in> set (pr_pending p)
     \<Longrightarrow> prog_step A J grace telemetry p
           (p\<lparr>pr_server := end_task waiting_task (pr_server p), pr_pending := remove1 tun (pr_pending p)\<rparr>)"
| relay_moves:
    "\<lbrakk>pr_relays p = before @ rl # after; bridge_step J (tunnel_mock (rl_tunnel rl)) (rl_bridge rl) b;
      bridge_clock b = bridge_clock (rl_bridge rl)\<rbrakk>
     \<Longrightarrow> prog_step A J grace telemetry p (p\<lparr>pr_relays := before @ rl\<lparr>rl_bridge := b\<rparr> # after\<rparr>)"
| batch_done:
    "\<lbrakk>poller (pr_server p); pr_polling p = None\<rbrakk>
     \<Longrightarrow> prog_step A J grace telemetry p
           (p\<lparr>pr_poll := (pr_poll p)\<lparr>ps_app := verdict_after J (Some N) (shared p)\<rparr>, pr_polling := Some N\<rparr>)"
| poll_done:
    "pr_polling p = Some N
     \<Longrightarrow> prog_step A J grace telemetry p
           (p\<lparr>pr_poll := poll_step A J (Polled N now True) (pr_poll p), pr_polling := None,
              pr_polls := pr_polls p @ [(N, now)]\<rparr>)"
| provider_returns:
    "pr_flush p = Flushing made (call # rest)
     \<Longrightarrow> prog_step A J grace telemetry p (p\<lparr>pr_flush := Flushing (made @ [call]) rest\<rparr>)"
| provider_panics:
    "pr_flush p = Flushing made (call # rest)
     \<Longrightarrow> prog_step A J grace telemetry p (p\<lparr>pr_flush := RunOver (made @ [call]) True\<rparr>)"

inductive_cases prog_ownE [consumes 1, case_names server_own tunnel_dropped relay_dropped relay_ends
    relay_timer poller_stops flush_begins run_returns]: "prog_own A J telemetry p p'"

inductive_cases prog_aloneE [consumes 1, case_names own time_passes]: "prog_alone A J telemetry p p'"

inductive_cases prog_stepE [consumes 1, case_names alone server_moves request_answered request_cancelled
    tunnel_spawned tunnel_opens tunnel_fails relay_moves batch_done poll_done provider_returns
    provider_panics]: "prog_step A J grace telemetry p p'"

lemma later_simps [simp]:
  "pr_poll (later p) = pr_poll p" "pr_polling (later p) = pr_polling p" "pr_polls (later p) = pr_polls p"
  "pr_pending (later p) = pr_pending p" "pr_closed (later p) = pr_closed p" "pr_log (later p) = pr_log p"
  "pr_flush (later p) = pr_flush p" "length (pr_relays (later p)) = length (pr_relays p)"
  "pr_server (later p) = (pr_server p)\<lparr>clock := Suc (clock (pr_server p))\<rparr>"
  by (simp_all add: later_def)

section \<open>A poll in two halves\<close>

lemma verdict_after_switch:
  "verdict_after J (Some N) app =
     (if trust_upstream (cfg app) then app else fst (snd (el_batch_detect J N app)))"
  by (simp add: verdict_after_def)

lemma detect_again:
  "fst (el_batch_detect J N (fst (snd (el_batch_detect J N app)))) = fst (el_batch_detect J N app)
     \<and> fst (snd (el_batch_detect J N (fst (snd (el_batch_detect J N app))))) = fst (snd (el_batch_detect J N app))"
  by (cases rule: batch_cases [where state = app and J = J and N = N])
    (simp_all add: detect_tls detect_primary detect_both_failed detect_switch)

lemma cl_requests_verdict [simp]:
  "cl_syncing_status A J N (app\<lparr>el_use_h2 := h\<rparr>) = cl_syncing_status A J N app"
  "cl_peer_count A J N (app\<lparr>el_use_h2 := h\<rparr>) = cl_peer_count A J N app"
  by (simp_all add: cl_syncing_status_def cl_peer_count_def cl_get_json_def)

text \<open>The poll after its batch has stored the verdict is the poll it would have been at once.\<close>

lemma probe_once_resumed: "probe_once A J N (verdict_after J (Some N) app) = probe_once A J N app"
proof (cases "trust_upstream (cfg app)")
  case False
  obtain h where h: "fst (snd (el_batch_detect J N app)) = app\<lparr>el_use_h2 := h\<rparr>"
    using detect_frame by metis
  then have v: "verdict_after J (Some N) app = app\<lparr>el_use_h2 := h\<rparr>"
    using False by (simp add: verdict_after_switch)
  obtain result tried logs where d: "el_batch_detect J N app = (result, app\<lparr>el_use_h2 := h\<rparr>, tried, logs)"
    using h by (cases "el_batch_detect J N app") auto
  obtain result' app' tried' logs' where d': "el_batch_detect J N (app\<lparr>el_use_h2 := h\<rparr>) = (result', app', tried', logs')"
    by (cases "el_batch_detect J N (app\<lparr>el_use_h2 := h\<rparr>)")
  have "result' = result" "app' = app\<lparr>el_use_h2 := h\<rparr>"
    using detect_again [of J N app] d d' by auto
  then show ?thesis
    unfolding v probe_once_def using False d d' by (simp add: Let_def)
qed (simp add: verdict_after_switch)

lemma poll_step_resumed:
  "poll_step A J (Polled N now r) (ps\<lparr>ps_app := verdict_after J (Some N) (ps_app ps)\<rparr>)
     = poll_step A J (Polled N now r) ps" if "\<not> ps_done ps"
proof -
  obtain pr app where p: "probe_once A J N (ps_app ps) = (pr, app)" by fastforce
  then have p': "probe_once A J N (verdict_after J (Some N) (ps_app ps)) = (pr, app)"
    by (simp add: probe_once_resumed)
  have d: "\<not> ps_done (ps\<lparr>ps_app := verdict_after J (Some N) (ps_app ps)\<rparr>)" using that by simp
  show ?thesis
    unfolding poll_step_polled [OF that] poll_step_polled [OF d]
    using p p' by (simp add: Let_def)
qed

lemma poll_loop_snoc: "poll_loop A J (evs @ [ev]) ps = poll_step A J ev (poll_loop A J evs ps)"
  by (induction evs arbitrary: ps) simp_all

section \<open>The invariant\<close>

text \<open>What no step changes of the shared state: everything but the verdict and the probe.\<close>

definition settings :: "AppState \<Rightarrow> AppState" where
  "settings app = app\<lparr>el_use_h2 := False, probe := pending\<rparr>"

lemma settings_simps [simp]:
  "settings (app\<lparr>el_use_h2 := h\<rparr>) = settings app" "settings (app\<lparr>probe := pr\<rparr>) = settings app"
  by (simp_all add: settings_def)

lemma settings_fields:
  assumes "settings app = settings app'"
  shows "cfg app = cfg app'" "client app = client app'" "el_h2_client app = el_h2_client app'"
    "el_http_uri app = el_http_uri app'" "cl_beacon_uri app = cl_beacon_uri app'"
  using arg_cong [OF assms, of cfg] arg_cong [OF assms, of client] arg_cong [OF assms, of el_h2_client]
    arg_cong [OF assms, of el_http_uri] arg_cong [OF assms, of cl_beacon_uri]
  by (simp_all add: settings_def)

text \<open>The completed polls as events of the poll loop.\<close>

definition poll_events :: "(net_api \<times> u64) list \<Rightarrow> PollEvent list" where
  "poll_events polls = map (\<lambda>(N, t). Polled N t True) polls"

text \<open>The shared state the loop has come to after some polls, from the warm-up's.\<close>

definition app_after :: "http_api \<Rightarrow> json_api \<Rightarrow> Launched \<Rightarrow> (net_api \<times> u64) list \<Rightarrow> AppState" where
  "app_after A J l polls =
     ps_app (poll_loop A J (poll_events polls) (poll_start (warm_app (la_warm l)) (warm_gauges (la_warm l))))"

definition served_ok :: "http_api \<Rightarrow> json_api \<Rightarrow> Launched \<Rightarrow> (net_api \<times> u64) list \<Rightarrow> Served \<Rightarrow> bool" where
  "served_ok A J l polls e \<longleftrightarrow>
     http (sv_env e) = A \<and> json (sv_env e) = J
     \<and> settings (sv_state e) = settings (warm_app (la_warm l))
     \<and> prefix (sv_polls e) polls \<and> probe (sv_state e) = probe (app_after A J l (sv_polls e))
     \<and> (let d = dispatch (sv_env e) (sv_request e) (sv_state e) in
        case sv_answer e of
          Some r \<Rightarrow> r = dis_response d \<and> sv_sent e = sent_by d
        | None \<Rightarrow> prefix (sv_sent e) (sent_by d))"

definition relaying_ok :: "json_api \<Rightarrow> bool \<Rightarrow> Relaying \<Rightarrow> bool" where
  "relaying_ok J mock rl \<longleftrightarrow> tunnel_mock (rl_tunnel rl) = mock
     \<and> (\<exists>c_room u_room. (bridge_step J mock)\<^sup>*\<^sup>*
          (bridge_start (rl_client rl) (rl_upstream rl) c_room u_room) (rl_bridge rl))"

text \<open>
  The poller's own state is the run of its loop over the completed polls, with the verdict of an
  unfinished poll on top while it runs, and stopped by the deadline afterwards.
\<close>

definition poll_ok :: "http_api \<Rightarrow> json_api \<Rightarrow> Launched \<Rightarrow> Program \<Rightarrow> bool" where
  "poll_ok A J l p \<longleftrightarrow>
     (let ps = poll_loop A J (poll_events (pr_polls p)) (poll_start (warm_app (la_warm l)) (warm_gauges (la_warm l)))
      in \<not> ps_done ps
        \<and> (case pr_polling p of
             Some N \<Rightarrow> poller (pr_server p) \<and> pr_poll p = ps\<lparr>ps_app := verdict_after J (Some N) (ps_app ps)\<rparr>
           | None \<Rightarrow> pr_poll p = ps
               \<or> \<not> poller (pr_server p) \<and> (\<exists>batch. pr_poll p = poll_step A J (DeadlineWhilePolling batch) ps)))"

text \<open>The server's relay tasks are the tunnels that wait and the tunnels that run.\<close>

definition tasks_ok :: "Program \<Rightarrow> bool" where
  "tasks_ok p \<longleftrightarrow>
     mset (relay_tasks (pr_server p)) =
       replicate_mset (length (pr_pending p)) waiting_task + replicate_mset (length (pr_relays p)) bridge_task"

text \<open>The telemetry is shut down only once the server has returned, one provider after the other.\<close>

definition flush_ok :: "Telemetry option \<Rightarrow> Program \<Rightarrow> bool" where
  "flush_ok telemetry p \<longleftrightarrow>
     (pr_flush p \<noteq> NotYet \<longrightarrow> stage (pr_server p) = Returned)
     \<and> (case pr_flush p of
          NotYet \<Rightarrow> True
        | Flushing made rest \<Rightarrow> made @ rest = finish telemetry
        | RunOver made panicked \<Rightarrow> prefix made (finish telemetry) \<and> (\<not> panicked \<longrightarrow> made = finish telemetry))"

definition prog_ok :: "http_api \<Rightarrow> json_api \<Rightarrow> Telemetry option \<Rightarrow> Launched \<Rightarrow> Program \<Rightarrow> bool" where
  "prog_ok A J telemetry l p \<longleftrightarrow>
     (let app0 = warm_app (la_warm l); mock = mock_eth_syncing (cfg app0) in
      gauges_ok (pr_server p) \<and> stages_ok (pr_server p) \<and> tasks_ok p
      \<and> poll_ok A J l p \<and> settings (shared p) = settings app0
      \<and> (\<forall>e \<in> set (pr_log p). served_ok A J l (pr_polls p) e)
      \<and> (\<forall>tun \<in> set (pr_pending p). tunnel_mock tun = mock)
      \<and> (\<forall>rl \<in> set (pr_relays p @ pr_closed p). relaying_ok J mock rl)
      \<and> flush_ok telemetry p)"

section \<open>Relay tasks\<close>

lemma relay_tasks_simps [simp]:
  "relay_tasks (spawn t s) = (if kind t = WsRelay then t # relay_tasks s else relay_tasks s)"
  "relay_tasks (s\<lparr>poller := b\<rparr>) = relay_tasks s" "relay_tasks (s\<lparr>clock := c\<rparr>) = relay_tasks s"
  by (simp_all add: relay_tasks_def)

lemma mset_relay_tasks_end:
  "mset (relay_tasks (end_task t s)) =
     (if kind t = WsRelay then mset (relay_tasks s) - {#t#} else mset (relay_tasks s))"
  by (simp add: relay_tasks_def)

lemma in_relay_tasks: "t \<in> set (relay_tasks s) \<Longrightarrow> t \<in> set (tasks s)"
  by (simp add: relay_tasks_def)

lemma tasks_ok_waiting:
  assumes "tasks_ok p" and "tun \<in> set (pr_pending p)"
  shows "waiting_task \<in> set (tasks (pr_server p))"
proof -
  from assms(2) obtain n where "length (pr_pending p) = Suc n" by (cases "pr_pending p") auto
  with assms(1) have "waiting_task \<in># mset (relay_tasks (pr_server p))" by (simp add: tasks_ok_def)
  then show ?thesis using in_relay_tasks by simp
qed

lemma tasks_ok_bridge:
  assumes "tasks_ok p" and "pr_relays p \<noteq> []"
  shows "bridge_task \<in> set (tasks (pr_server p))"
proof -
  from assms(2) obtain n where "length (pr_relays p) = Suc n" by (cases "pr_relays p") auto
  with assms(1) have "bridge_task \<in># mset (relay_tasks (pr_server p))" by (simp add: tasks_ok_def)
  then show ?thesis using in_relay_tasks by simp
qed

lemma length_remove1_Suc: "x \<in> set xs \<Longrightarrow> length xs = Suc (length (remove1 x xs))"
  by (induction xs) auto

lemma relay_task_members:
  assumes "tasks_ok p"
  shows "waiting_task \<in> set (tasks (pr_server p)) \<Longrightarrow> pr_pending p \<noteq> []"
    and "bridge_task \<in> set (tasks (pr_server p)) \<Longrightarrow> pr_relays p \<noteq> []"
proof -
  have eq: "set (relay_tasks (pr_server p)) =
      (if pr_pending p = [] then {} else {waiting_task}) \<union> (if pr_relays p = [] then {} else {bridge_task})"
    using arg_cong [OF assms [unfolded tasks_ok_def], of set_mset]
    by (simp add: set_mset_replicate_mset_subset)
  have "t \<in> set (relay_tasks (pr_server p))" if "t \<in> set (tasks (pr_server p))" "kind t = WsRelay" for t
    using that by (simp add: relay_tasks_def)
  from this [of waiting_task] this [of bridge_task]
  show "waiting_task \<in> set (tasks (pr_server p)) \<Longrightarrow> pr_pending p \<noteq> []"
    and "bridge_task \<in> set (tasks (pr_server p)) \<Longrightarrow> pr_relays p \<noteq> []"
    unfolding eq by (auto split: if_splits)
qed

text \<open>Whatever its server can do by itself, the program can.\<close>

lemma own_step_program:
  assumes own: "own_step (pr_server p) s" and ok: "tasks_ok p"
  shows "\<exists>p'. prog_own A J telemetry p p'"
  using own
proof cases
  case (task_dropped t d)
  show ?thesis
  proof (cases "kind t = WsRelay")
    case False
    then have "relay_tasks s = relay_tasks (pr_server p)"
      using task_dropped(1) by (simp add: relay_tasks_def filter_remove1)
    then show ?thesis using prog_own.server_own [OF own] task_dropped(1) by fastforce
  next
    case True
    have late: "deadline_reached (pr_server p)"
      using task_dropped(3,4) by (auto simp: deadline_reached_def)
    show ?thesis
    proof (cases "guard t")
      case False
      with True have "t = waiting_task" by (cases t) simp
      then show ?thesis
        using relay_task_members(1) [OF ok] task_dropped(2) prog_own.tunnel_dropped [OF _ late]
        by (metis list.set_sel(1))
    next
      case guarded: True
      with True have "t = bridge_task" by (cases t) simp
      then obtain rl after where "pr_relays p = [] @ rl # after"
        using relay_task_members(2) [OF ok] task_dropped(2) by (cases "pr_relays p") auto
      then show ?thesis using prog_own.relay_dropped [OF _ late] by blast
    qed
  qed
next
  case poller_returns
  then show ?thesis using prog_own.poller_stops by blast
qed (use prog_own.server_own [OF own] in \<open>fastforce simp: relay_tasks_def\<close>)+

text \<open>Seen from its server, a step of the program is a step of the server or nothing.\<close>

lemma server_of_own:
  assumes "prog_own A J telemetry p p'" and ok: "tasks_ok p"
  shows "pr_server p' = pr_server p \<or> server_step grace (pr_server p) (pr_server p')"
  using assms(1)
proof (cases rule: prog_ownE)
  case (server_own s)
  then show ?thesis by (simp add: server_step.own)
next
  case (tunnel_dropped tun)
  then show ?thesis
    using own_step.task_dropped [OF tasks_ok_waiting [OF ok tunnel_dropped(2)]]
    by (auto simp: deadline_reached_def intro: server_step.own)
next
  case (relay_dropped before rl after)
  then show ?thesis
    using own_step.task_dropped [OF tasks_ok_bridge [OF ok]]
    by (auto simp: deadline_reached_def intro: server_step.own)
next
  case (relay_ends before rl after)
  then show ?thesis
    using env_step.task_ends [OF tasks_ok_bridge [OF ok], of grace] by (auto intro: server_step.environment)
next
  case poller_stops
  then show ?thesis
    using own_step.poller_returns [of "pr_server p"] by (auto intro: server_step.own)
qed simp_all

lemma server_of_step:
  assumes "prog_step A J grace telemetry p p'" and ok: "tasks_ok p"
  shows "pr_server p' = pr_server p \<or> server_step grace (pr_server p) (pr_server p')"
  using assms(1)
proof (cases rule: prog_stepE)
  case alone
  then show ?thesis
  proof (cases rule: prog_aloneE)
    case own
    then show ?thesis using server_of_own ok by blast
  next
    case time_passes
    then have "\<nexists>s. own_step (pr_server p) s" using own_step_program [OF _ ok] by blast
    from server_step.tick [OF this] time_passes show ?thesis by simp
  qed
next
  case (server_moves s)
  then show ?thesis by (simp add: server_step.environment)
next
  case (tunnel_spawned E req tun)
  then obtain t where "t \<in> set (tasks (pr_server p))" "kind t \<noteq> WsRelay" by (auto simp: serves_def)
  then have "env_step grace (pr_server p) (spawn waiting_task (pr_server p))"
    by (cases "kind t") (auto intro: env_step.upgrade_spawned)
  then show ?thesis using tunnel_spawned by (simp add: server_step.environment)
next
  case (tunnel_opens tun cs us c_room u_room)
  then show ?thesis
    using env_step.bridge_started [OF tasks_ok_waiting [OF ok tunnel_opens(2)], of grace]
    by (simp add: server_step.environment)
next
  case (tunnel_fails tun)
  then show ?thesis
    using env_step.task_ends [OF tasks_ok_waiting [OF ok tunnel_fails(2)], of grace]
    by (simp add: server_step.environment)
qed simp_all

lemma tasks_ok_own:
  assumes "prog_own A J telemetry p p'" and ok: "tasks_ok p"
  shows "tasks_ok p'"
  using assms(1)
proof (cases rule: prog_ownE)
  case (tunnel_dropped tun)
  then show ?thesis
    using ok length_remove1_Suc [OF tunnel_dropped(2)] by (simp add: tasks_ok_def mset_relay_tasks_end)
next
  case (relay_dropped before rl after)
  then show ?thesis using ok by (simp add: tasks_ok_def mset_relay_tasks_end)
next
  case (relay_ends before rl after)
  then show ?thesis using ok by (simp add: tasks_ok_def mset_relay_tasks_end)
qed (use ok in \<open>simp_all add: tasks_ok_def\<close>)

lemma tasks_ok_step:
  assumes "prog_step A J grace telemetry p p'" and ok: "tasks_ok p"
  shows "tasks_ok p'"
  using assms(1)
proof (cases rule: prog_stepE)
  case alone
  then show ?thesis
  proof (cases rule: prog_aloneE)
    case own
    then show ?thesis using tasks_ok_own ok by blast
  next
    case time_passes
    then show ?thesis using ok by (simp add: tasks_ok_def)
  qed
next
  case (tunnel_opens tun cs us c_room u_room)
  then show ?thesis
    using ok length_remove1_Suc [OF tunnel_opens(2)] by (simp add: tasks_ok_def mset_relay_tasks_end)
next
  case (tunnel_fails tun)
  then show ?thesis
    using ok length_remove1_Suc [OF tunnel_fails(2)] by (simp add: tasks_ok_def mset_relay_tasks_end)
qed (use ok in \<open>simp_all add: tasks_ok_def\<close>)

text \<open>A tunnel that a dispatched request leaves behind has the mock setting of the configuration.\<close>

lemma tunnel_by_mock: "tunnel_by (dispatch E req app) = Some tun \<Longrightarrow> tunnel_mock tun = mock_eth_syncing (cfg app)"
  using dispatch_route route_tunnel by (fastforce simp: tunnel_by_def bind_eq_Some_conv)

lemma verdict_after_settings [simp]: "settings (verdict_after J batch app) = settings app"
  using verdict_after_frame [of J batch app] by auto

lemma verdict_after_probe [simp]: "probe (verdict_after J batch app) = probe app"
  using verdict_after_frame [of J batch app] by auto

text \<open>What a poll leaves in the shared state.\<close>

lemma poll_step_published:
  assumes "\<not> ps_done ps"
  shows "settings (ps_app (poll_step A J (Polled N now True) ps)) = settings (ps_app ps)
     \<and> probe (ps_app (poll_step A J (Polled N now True) ps)) = fst (probe_once A J N (ps_app ps))
     \<and> \<not> ps_done (poll_step A J (Polled N now True) ps)"
proof -
  obtain pr app where p: "probe_once A J N (ps_app ps) = (pr, app)" by fastforce
  then have "settings app = settings (ps_app ps)"
    using probe_once_frame [of A J N "ps_app ps"] by auto
  then show ?thesis
    unfolding poll_step_polled [OF assms] p prod.case Let_def using assms by simp
qed

lemma poll_step_stopped:
  "poll_step A J (DeadlineWhilePolling None) ps = ps\<lparr>ps_done := True\<rparr>"
  by (simp add: poll_step_def verdict_after_def)

lemma poll_loop_stopped:
  "ps_app (poll_step A J (DeadlineWhilePolling batch) ps) = (if ps_done ps then ps_app ps else verdict_after J batch (ps_app ps))"
  by (simp add: poll_step_def)

lemma poll_ok_done: "poll_ok A J l p \<Longrightarrow> pr_polling p = Some N \<Longrightarrow> \<not> ps_done (pr_poll p)"
  by (auto simp: poll_ok_def Let_def)

text \<open>The probe in the shared state is the one the last completed poll, or the warm-up, has published.\<close>

lemma poll_ok_probe: "poll_ok A J l p \<Longrightarrow> probe (shared p) = probe (app_after A J l (pr_polls p))"
  by (auto simp: poll_ok_def app_after_def Let_def poll_loop_stopped split: option.splits)

lemma poll_ok_frame:
  "poll_ok A J l p \<Longrightarrow> pr_poll p' = pr_poll p \<Longrightarrow> pr_polling p' = pr_polling p \<Longrightarrow> pr_polls p' = pr_polls p \<Longrightarrow>
     poller (pr_server p') = poller (pr_server p) \<Longrightarrow> poll_ok A J l p'"
  unfolding poll_ok_def by (simp only:)

lemma env_step_poller: "env_step grace s s' \<Longrightarrow> poller s' = poller s"
  by (induction rule: env_step.induct) simp_all

lemma poll_ok_own:
  assumes "prog_own A J telemetry p p'" and ok: "poll_ok A J l p"
  shows "poll_ok A J l p'"
  using assms(1)
proof (cases rule: prog_ownE)
  case poller_stops
  let ?ps = "poll_loop A J (poll_events (pr_polls p)) (poll_start (warm_app (la_warm l)) (warm_gauges (la_warm l)))"
  have "pr_poll p' = poll_step A J (DeadlineWhilePolling (pr_polling p)) ?ps"
    using poller_stops ok
    by (cases "pr_polling p") (auto simp: poll_ok_def Let_def poll_step_def verdict_after_def)
  moreover have "\<not> ps_done ?ps" using ok by (simp add: poll_ok_def Let_def)
  ultimately show ?thesis using poller_stops by (auto simp: poll_ok_def Let_def)
qed (use ok in \<open>auto intro: poll_ok_frame\<close>)

lemma poll_ok_step:
  assumes "prog_step A J grace telemetry p p'" and ok: "poll_ok A J l p"
  shows "poll_ok A J l p'"
  using assms(1)
proof (cases rule: prog_stepE)
  case alone
  then show ?thesis
  proof (cases rule: prog_aloneE)
    case own
    then show ?thesis using poll_ok_own ok by blast
  next
    case time_passes
    then show ?thesis using ok by (auto intro: poll_ok_frame)
  qed
next
  case (server_moves s)
  then show ?thesis using ok env_step_poller [OF server_moves(2)] by (auto intro: poll_ok_frame)
next
  case (batch_done N)
  then show ?thesis using ok by (auto simp: poll_ok_def Let_def)
next
  case (poll_done N t)
  let ?ps = "poll_loop A J (poll_events (pr_polls p)) (poll_start (warm_app (la_warm l)) (warm_gauges (la_warm l)))"
  have e: "\<not> ps_done ?ps" "pr_poll p = ?ps\<lparr>ps_app := verdict_after J (Some N) (ps_app ?ps)\<rparr>"
    using ok poll_done by (auto simp: poll_ok_def Let_def)
  have "pr_poll p' = poll_loop A J (poll_events (pr_polls p')) (poll_start (warm_app (la_warm l)) (warm_gauges (la_warm l)))"
    using poll_done e(2) poll_step_resumed [OF e(1), of A J N t] by (simp add: poll_events_def poll_loop_snoc)
  moreover have "\<not> ps_done (pr_poll p')"
    using poll_done poll_step_published poll_ok_done [OF ok poll_done(2)] by simp
  ultimately show ?thesis using poll_done by (simp add: poll_ok_def Let_def)
qed (use ok in \<open>auto intro: poll_ok_frame\<close>)

lemma settings_step:
  assumes "prog_step A J grace telemetry p p'" and "poll_ok A J l p"
  shows "settings (shared p') = settings (shared p)"
  using assms(1)
proof (cases rule: prog_stepE)
  case alone
  then show ?thesis
    by (auto elim!: prog_aloneE prog_ownE simp: poll_step_stopped)
next
  case (poll_done N t)
  then show ?thesis
    using poll_step_published [OF poll_ok_done [OF assms(2) poll_done(2)], of A J N t] by simp
qed simp_all

lemma served_ok_answered:
  "http E = A \<Longrightarrow> json E = J \<Longrightarrow> settings app = settings (warm_app (la_warm l)) \<Longrightarrow>
     probe app = probe (app_after A J l polls) \<Longrightarrow> d = dispatch E req app \<Longrightarrow>
     served_ok A J l polls \<lparr>sv_env = E, sv_request = req, sv_state = app, sv_sent = sent_by d,
       sv_answer = Some (dis_response d), sv_polls = polls\<rparr>"
  by (simp add: served_ok_def)

lemma served_ok_cancelled:
  "http E = A \<Longrightarrow> json E = J \<Longrightarrow> settings app = settings (warm_app (la_warm l)) \<Longrightarrow>
     probe app = probe (app_after A J l polls) \<Longrightarrow> prefix sent (sent_by (dispatch E req app)) \<Longrightarrow>
     served_ok A J l polls \<lparr>sv_env = E, sv_request = req, sv_state = app, sv_sent = sent,
       sv_answer = None, sv_polls = polls\<rparr>"
  by (simp add: served_ok_def Let_def)

lemma served_ok_later: "served_ok A J l polls e \<Longrightarrow> served_ok A J l (polls @ newer) e"
  by (auto simp: served_ok_def)

lemma log_ok_step_program:
  assumes "prog_step A J grace telemetry p p'" and "settings (shared p) = settings (warm_app (la_warm l))"
    and "poll_ok A J l p" and "\<forall>e \<in> set (pr_log p). served_ok A J l (pr_polls p) e"
  shows "\<forall>e \<in> set (pr_log p'). served_ok A J l (pr_polls p') e"
  using assms(1)
proof (cases rule: prog_stepE)
  case alone
  then show ?thesis using assms(4) by (auto elim!: prog_aloneE prog_ownE)
next
  case (request_answered E req)
  then show ?thesis using assms(2,4) poll_ok_probe [OF assms(3)] by (auto intro: served_ok_answered)
next
  case (request_cancelled E req sent)
  then show ?thesis using assms(2,4) poll_ok_probe [OF assms(3)] by (auto intro: served_ok_cancelled)
next
  case (tunnel_spawned E req tun)
  then show ?thesis using assms(2,4) poll_ok_probe [OF assms(3)] by (auto intro: served_ok_answered)
next
  case (poll_done N t)
  then show ?thesis using assms(4) served_ok_later by auto
qed (use assms(4) in simp_all)

lemma pending_ok_step:
  assumes "prog_step A J grace telemetry p p'" and "settings (shared p) = settings app0"
    and "\<forall>tun \<in> set (pr_pending p). tunnel_mock tun = mock_eth_syncing (cfg app0)"
  shows "\<forall>tun \<in> set (pr_pending p'). tunnel_mock tun = mock_eth_syncing (cfg app0)"
  using assms(1)
proof (cases rule: prog_stepE)
  case alone
  then show ?thesis using assms(3) by (auto elim!: prog_aloneE prog_ownE dest: notin_set_remove1)
qed (use assms(3) in \<open>auto dest: tunnel_by_mock notin_set_remove1 simp: settings_fields(1) [OF assms(2)]\<close>)

lemma relaying_ok_start: "tunnel_mock tun = mock \<Longrightarrow>
    relaying_ok J mock \<lparr>rl_tunnel = tun, rl_client = cs, rl_upstream = us, rl_bridge = bridge_start cs us c_room u_room\<rparr>"
  by (auto simp: relaying_ok_def)

lemma relaying_ok_step: "relaying_ok J mock rl \<Longrightarrow> bridge_step J mock (rl_bridge rl) b \<Longrightarrow>
    relaying_ok J mock (rl\<lparr>rl_bridge := b\<rparr>)"
  by (auto simp: relaying_ok_def intro: rtranclp.rtrancl_into_rtrancl)

lemma relaying_ok_timer: "relaying_ok J mock rl \<Longrightarrow> timer_step (rl_bridge rl) b \<Longrightarrow>
    relaying_ok J mock (rl\<lparr>rl_bridge := b\<rparr>)"
  by (blast intro: relaying_ok_step bridge_step.silent silent_step.timer)

lemma relays_ok_own:
  assumes "prog_own A J telemetry p p'"
    and "\<forall>rl \<in> set (pr_relays p @ pr_closed p). relaying_ok J mock rl"
  shows "\<forall>rl \<in> set (pr_relays p' @ pr_closed p'). relaying_ok J mock rl"
  using assms by (cases rule: prog_ownE) (auto intro: relaying_ok_timer)

text \<open>When time passes for the program it passes for each of its tunnels.\<close>

lemma relays_ok_later:
  assumes quiet: "\<nexists>p'. prog_own A J telemetry p p'"
    and ok: "\<forall>rl \<in> set (pr_relays p @ pr_closed p). relaying_ok J mock rl"
  shows "\<forall>rl \<in> set (pr_relays (later p) @ pr_closed (later p)). relaying_ok J mock rl"
proof -
  have "relaying_ok J mock (rl\<lparr>rl_bridge := (rl_bridge rl)\<lparr>bridge_clock := Suc (bridge_clock (rl_bridge rl))\<rparr>\<rparr>)"
    if "rl \<in> set (pr_relays p)" for rl
  proof -
    from that obtain before after where r: "pr_relays p = before @ rl # after" by (metis split_list)
    have "\<nexists>b. timer_step (rl_bridge rl) b" "\<not> bridge_over (rl_bridge rl)"
      using quiet prog_own.relay_timer [OF r] prog_own.relay_ends [OF r] by blast+
    then have "bridge_step J mock (rl_bridge rl) ((rl_bridge rl)\<lparr>bridge_clock := Suc (bridge_clock (rl_bridge rl))\<rparr>)"
      by (intro bridge_step.silent silent_step.time_passes)
    then show ?thesis using relaying_ok_step ok that by auto
  qed
  then show ?thesis using ok by (auto simp: later_def)
qed

lemma relays_ok_step:
  assumes "prog_step A J grace telemetry p p'"
    and "\<forall>tun \<in> set (pr_pending p). tunnel_mock tun = mock"
    and "\<forall>rl \<in> set (pr_relays p @ pr_closed p). relaying_ok J mock rl"
  shows "\<forall>rl \<in> set (pr_relays p' @ pr_closed p'). relaying_ok J mock rl"
  using assms(1)
proof (cases rule: prog_stepE)
  case alone
  then show ?thesis
  proof (cases rule: prog_aloneE)
    case own
    then show ?thesis using relays_ok_own assms(3) by blast
  next
    case time_passes
    then show ?thesis using relays_ok_later assms(3) by blast
  qed
next
  case (relay_moves before rl after b)
  then have "relaying_ok J mock rl" using assms(3) by simp
  moreover from this have "tunnel_mock (rl_tunnel rl) = mock" by (simp add: relaying_ok_def)
  ultimately have "relaying_ok J mock (rl\<lparr>rl_bridge := b\<rparr>)" using relaying_ok_step relay_moves by simp
  then show ?thesis using relay_moves assms(3) by auto
qed (use assms(2,3) in \<open>auto intro: relaying_ok_start\<close>)

lemma flush_ok_own:
  assumes "prog_own A J telemetry p p'" and "flush_ok telemetry p"
    and "stage (pr_server p) = Returned \<longrightarrow> stage (pr_server p') = Returned"
  shows "flush_ok telemetry p'"
  using assms by (cases rule: prog_ownE) (auto simp: flush_ok_def split: Flush.splits)

lemma flush_ok_step:
  assumes "prog_step A J grace telemetry p p'" and "tasks_ok p" and ok: "flush_ok telemetry p"
  shows "flush_ok telemetry p'"
proof -
  have "stage (pr_server p) \<le> stage (pr_server p')"
    using server_of_step [OF assms(1,2)] stage_advance by auto
  then have r: "stage (pr_server p) = Returned \<longrightarrow> stage (pr_server p') = Returned"
    by (cases "stage (pr_server p')") (auto simp: less_eq_Stage_def stage_rank_def)
  have frame: "flush_ok telemetry p'" if "pr_flush p' = pr_flush p"
    using that ok r by (simp add: flush_ok_def)
  from assms(1) show ?thesis
  proof (cases rule: prog_stepE)
    case alone
    then show ?thesis
    proof (cases rule: prog_aloneE)
      case own
      then show ?thesis using flush_ok_own ok r by blast
    next
      case time_passes
      then have "pr_flush p' = pr_flush p" by simp
      then show ?thesis by (rule frame)
    qed
  next
    case (provider_returns made call rest)
    then show ?thesis using ok by (auto simp: flush_ok_def)
  next
    case (provider_panics made call rest)
    then have "(made @ [call]) @ rest = finish telemetry" using ok by (simp add: flush_ok_def)
    then have "prefix (made @ [call]) (finish telemetry)" by (metis prefixI)
    then show ?thesis using provider_panics ok by (simp add: flush_ok_def)
  qed (rule frame; simp)+
qed

lemma prog_ok_step:
  assumes step: "prog_step A J grace telemetry p p'" and ok: "prog_ok A J telemetry l p"
  shows "prog_ok A J telemetry l p'"
proof -
  let ?app0 = "warm_app (la_warm l)"
  have s: "gauges_ok (pr_server p)" "stages_ok (pr_server p)" "tasks_ok p" "poll_ok A J l p"
    "settings (shared p) = settings ?app0" "flush_ok telemetry p"
    using ok by (simp_all add: prog_ok_def Let_def)
  have "gauges_ok (pr_server p') \<and> stages_ok (pr_server p')"
    using server_of_step [OF step s(3)] gauges_ok_step stages_ok_step s(1,2) by metis
  moreover have "settings (shared p') = settings ?app0" using settings_step [OF step s(4)] s(5) by simp
  ultimately show ?thesis
    using ok tasks_ok_step [OF step s(3)] poll_ok_step [OF step s(4)] log_ok_step_program [OF step s(5,4)]
      pending_ok_step [OF step s(5)] relays_ok_step [OF step] flush_ok_step [OF step s(3,6)]
    unfolding prog_ok_def Let_def by blast
qed

lemma program_start_ok:
  assumes "launch A J N now g bind telemetry c = Inr l"
  shows "prog_ok A J telemetry l (program_start l)"
proof -
  obtain n q where "la_server l = server_start n q" using launch_Inr [OF assms] by blast
  moreover have "relay_tasks (server_start n q) = []" for n q by (simp add: relay_tasks_def server_start_def)
  ultimately show ?thesis
    using server_start_ok [of n q]
    by (simp add: prog_ok_def program_start_def tasks_ok_def poll_ok_def poll_events_def poll_start_def
        flush_ok_def Let_def)
qed

interpretation program: refinement "\<lambda>p. launch A J N now g bind telemetry c = Inr l \<and> p = program_start l"
  "prog_step A J grace telemetry" "prog_ok A J telemetry l" pr_server
  "\<lambda>s. \<exists>n q. s = server_start n q" "server_step grace" for A J N now g bind telemetry c l grace
proof unfold_locales
  show "launch A J N now g bind telemetry c = Inr l \<and> p = program_start l \<Longrightarrow> prog_ok A J telemetry l p" for p
    using program_start_ok by blast
  show "prog_step A J grace telemetry p p' \<Longrightarrow> prog_ok A J telemetry l p \<Longrightarrow> prog_ok A J telemetry l p'" for p p'
    by (rule prog_ok_step)
  show "launch A J N now g bind telemetry c = Inr l \<and> p = program_start l \<Longrightarrow>
      \<exists>n q. pr_server p = server_start n q" for p
    using launch_Inr by (fastforce simp: program_start_def)
  show "prog_step A J grace telemetry p p' \<Longrightarrow> prog_ok A J telemetry l p \<Longrightarrow>
      pr_server p' = pr_server p \<or> server_step grace (pr_server p) (pr_server p')" for p p'
    using server_of_step by (auto simp: prog_ok_def Let_def)
qed

end
