(* ===== verification/Runs.thy ===== *)
theory Runs
  imports Program
begin

text \<open>
  Runs of the whole program (\<open>prog_step\<close> of the theory \<open>Program\<close>): what its invariant says at any
  moment, how it comes to an end once the shutdown is announced, a sample run, and the properties of
  whole runs.
\<close>

section \<open>Reading the invariant\<close>

lemma reached:
  assumes "launch A J N now g bind telemetry c = Inr l"
    and "(prog_step A J grace telemetry)\<^sup>*\<^sup>* (program_start l) p"
  shows "prog_ok A J telemetry l p" and "cfg (warm_app (la_warm l)) = c"
proof -
  show "prog_ok A J telemetry l p" using program.inv_reachable [OF _ assms(2)] assms(1) by blast
  obtain st where st: "run_inner_setup A (telemetry \<noteq> None) c = Inr st" "la_warm l = warm_up A J N now g st"
    using launch_Inr [OF assms(1)] by blast
  then show "cfg (warm_app (la_warm l)) = c"
    using setup_Inr [OF st(1)] probe_once_frame [of A J N st] by (auto simp: warm_up_app)
qed

lemma polls_not_done:
  "\<not> ps_done (poll_loop A J (poll_events polls) (poll_start app g))"
proof (induction polls rule: rev_induct)
  case (snoc x polls)
  then show ?case using poll_step_published by (cases x) (simp add: poll_events_def poll_loop_snoc)
qed (simp add: poll_events_def poll_start_def)

lemma poll_ok_loop:
  assumes "poll_ok A J l p"
  shows "\<exists>evs. let ps = poll_loop A J evs (poll_start (warm_app (la_warm l)) (warm_gauges (la_warm l))) in
      pr_poll p = ps
      \<or> (\<exists>N. pr_polling p = Some N \<and> pr_poll p = ps\<lparr>ps_app := verdict_after J (Some N) (ps_app ps)\<rparr>)"
proof -
  let ?loop = "\<lambda>evs. poll_loop A J evs (poll_start (warm_app (la_warm l)) (warm_gauges (la_warm l)))"
  from assms consider "pr_poll p = ?loop (poll_events (pr_polls p))"
    | N where "pr_polling p = Some N"
        "pr_poll p = (?loop (poll_events (pr_polls p)))\<lparr>ps_app := verdict_after J (Some N) (ps_app (?loop (poll_events (pr_polls p))))\<rparr>"
    | batch where "pr_poll p = ?loop (poll_events (pr_polls p) @ [DeadlineWhilePolling batch])"
    by (cases "pr_polling p") (auto simp: poll_ok_def Let_def poll_loop_snoc)
  then show ?thesis unfolding Let_def by cases blast+
qed

lemma logged:
  assumes "prog_ok A J telemetry l p" and "e \<in> set (pr_log p)"
  shows "served_ok A J l (pr_polls p) e"
  using assms by (simp add: prog_ok_def Let_def)

lemma relayed_by:
  assumes "prog_ok A J telemetry l p" and "rl \<in> set (pr_relays p @ pr_closed p)"
  shows "relaying_ok J (mock_eth_syncing (cfg (warm_app (la_warm l)))) rl"
  using assms by (simp add: prog_ok_def Let_def)

lemma served_sent:
  assumes "served_ok A J l polls e" and "HttpRequest cl r \<in> set (sv_sent e)"
    and "classify_request A (sv_request e) = ProxyRoute t"
  shows "HttpRequest cl r \<in> set (contacts (route (sv_env e) (sv_request e) (sv_state e) t))"
proof -
  let ?d = "dispatch (sv_env e) (sv_request e) (sv_state e)"
  have h: "http (sv_env e) = A" using assms(1) by (simp add: served_ok_def)
  have "set (sv_sent e) \<subseteq> set (sent_by ?d)"
    using assms(1) by (auto simp: served_ok_def Let_def split: option.splits dest: set_mono_prefix)
  moreover have "sent_by ?d = contacts (route (sv_env e) (sv_request e) (sv_state e) t)"
    using assms(3) h by (simp add: sent_by_def dispatch_def Let_def split: prod.split)
  ultimately show ?thesis using assms(2) by auto
qed

text \<open>The poller has stopped and nothing is left once the server has returned.\<close>

lemma returned_empty:
  assumes ok: "prog_ok A J telemetry l p" and "stage (pr_server p) = Returned"
  shows "tasks (pr_server p) = [] \<and> pr_pending p = [] \<and> pr_relays p = [] \<and> \<not> poller (pr_server p)
     \<and> pr_polling p = None \<and> tcp_gauge (pr_server p) = 0 \<and> ws_gauge (pr_server p) = 0"
proof -
  have "stages_ok (pr_server p)" "gauges_ok (pr_server p)" "tasks_ok p"
    and poll: "pr_polling p \<noteq> None \<longrightarrow> poller (pr_server p)"
    using ok by (auto simp: prog_ok_def poll_ok_def Let_def)
  with assms(2) have t: "tasks (pr_server p) = []" "\<not> poller (pr_server p)"
    by (simp_all add: stages_ok_def)
  moreover have "pr_pending p = [] \<and> pr_relays p = []"
    using \<open>tasks_ok p\<close> t(1) by (simp add: tasks_ok_def relay_tasks_def)
  moreover have "tcp_gauge (pr_server p) = 0 \<and> ws_gauge (pr_server p) = 0"
    using \<open>gauges_ok (pr_server p)\<close> t(1) by (simp add: gauges_ok_def guards_def)
  ultimately show ?thesis using poll by auto
qed

text \<open>Such a program only shuts its telemetry down, and waits.\<close>

definition ended_like :: "Program \<Rightarrow> Program \<Rightarrow> bool" where
  "ended_like p p' \<longleftrightarrow> stage (pr_server p') = Returned \<and> pr_log p' = pr_log p \<and> pr_closed p' = pr_closed p
     \<and> pr_poll p' = pr_poll p \<and> prefix (flush_calls (pr_flush p)) (flush_calls (pr_flush p'))"

lemma returned_own:
  assumes "prog_own A J telemetry p p'" and ok: "prog_ok A J telemetry l p"
    and r: "stage (pr_server p) = Returned"
  shows "ended_like p p'"
proof -
  note e = returned_empty [OF ok r]
  have st: "stage s = Returned" if "own_step (pr_server p) s" for s
    using stage_advance_own [OF that] r by (cases "stage s") (simp_all add: less_eq_Stage_def stage_rank_def)
  from assms(1) show ?thesis
    by (cases rule: prog_ownE) (use st e r in \<open>simp_all add: ended_like_def flush_calls_def\<close>)
qed

lemma returned_step:
  assumes "prog_step A J grace telemetry p p'" and ok: "prog_ok A J telemetry l p"
    and r: "stage (pr_server p) = Returned"
  shows "ended_like p p'"
proof -
  note e = returned_empty [OF ok r]
  have idle: "\<not> serves (pr_server p)" using e by (simp add: serves_def)
  have st: "stage s = Returned" if "env_step grace (pr_server p) s" for s
    using stage_advance [OF server_step.environment [OF that]] r
    by (cases "stage s") (simp_all add: less_eq_Stage_def stage_rank_def)
  have quiet: "\<not> poller (pr_server p)" using e by simp
  from assms(1) show ?thesis
  proof (cases rule: prog_stepE)
    case alone
    then show ?thesis
    proof (cases rule: prog_aloneE)
      case own
      then show ?thesis using returned_own ok r by blast
    qed (use r in \<open>simp add: ended_like_def\<close>)
  qed (use st idle quiet e r in \<open>simp_all add: ended_like_def flush_calls_def\<close>)
qed

lemma ended_like_trans: "ended_like p q \<Longrightarrow> ended_like q r \<Longrightarrow> ended_like p r"
  using prefix_order.trans by (auto simp: ended_like_def)

lemma returned_steps:
  assumes "(prog_step A J grace telemetry)\<^sup>*\<^sup>* p p'" and "prog_ok A J telemetry l p"
    and "stage (pr_server p) = Returned"
  shows "ended_like p p' \<and> prog_ok A J telemetry l p'"
  using assms(1)
proof (induction rule: rtranclp_induct)
  case base
  with assms(2,3) show ?case by (simp add: ended_like_def)
next
  case (step q q')
  then have "stage (pr_server q) = Returned" by (simp add: ended_like_def)
  with step show ?case
    using returned_step [OF step(2)] prog_ok_step [OF step(2)] ended_like_trans by blast
qed

lemma filter_replicate: "filter_mset P (replicate_mset n x) = (if P x then replicate_mset n x else {#})"
  by (induction n) auto

lemma relay_count:
  assumes "prog_ok A J telemetry l p"
  shows "ws_gauge (pr_server p) = int (length (pr_relays p))"
proof -
  have g: "ws_gauge (pr_server p) = guards (\<lambda>k. k = WsRelay) (pr_server p)" and t: "tasks_ok p"
    using assms by (simp_all add: prog_ok_def gauges_ok_def Let_def)
  have "guards (\<lambda>k. k = WsRelay) (pr_server p) = int (size (filter_mset guard (mset (relay_tasks (pr_server p)))))"
    by (simp add: guards_def relay_tasks_def conj_commute flip: mset_filter)
  also have "\<dots> = int (length (pr_relays p))"
    using t by (simp add: tasks_ok_def filter_replicate)
  finally show ?thesis using g by simp
qed

section \<open>The end of a run\<close>

lemma prog_ok_run:
  "(prog_step A J grace telemetry)\<^sup>*\<^sup>* p p' \<Longrightarrow> prog_ok A J telemetry l p \<Longrightarrow> prog_ok A J telemetry l p'"
  by (induction rule: rtranclp_induct) (auto intro: prog_ok_step)

text \<open>The bound of the server's clock, for the program until it shuts its telemetry down.\<close>

definition in_time :: "nat \<Rightarrow> nat \<Rightarrow> Program \<Rightarrow> bool" where
  "in_time d e p \<longleftrightarrow> bounded_by d e (pr_server p) \<and> (pr_flush p = NotYet \<longrightarrow> clock (pr_server p) \<le> e)"

lemma in_time_later:
  assumes quiet: "\<nexists>p'. prog_own A J telemetry p p'" and ok: "tasks_ok p" and t: "in_time d e p"
  shows "in_time d e (later p) \<and> (pr_flush p = NotYet \<longrightarrow> clock (pr_server p) < e)"
proof -
  have own: "\<nexists>s. own_step (pr_server p) s" using own_step_program [OF _ ok] quiet by blast
  have b: "bounded_by d e (pr_server p)" using t by (simp add: in_time_def)
  have "pr_flush p = NotYet \<longrightarrow> stage (pr_server p) \<noteq> Returned"
    using quiet prog_own.flush_begins by blast
  with bounded_by_tick [OF own b] show ?thesis by (auto simp: in_time_def)
qed

lemma own_clock: "own_step s s' \<Longrightarrow> clock s' = clock s"
  by (induction rule: own_step.induct) simp_all

lemma env_clock: "env_step grace s s' \<Longrightarrow> clock s' = clock s"
  by (induction rule: env_step.induct) simp_all

lemma prog_own_clock: "prog_own A J telemetry p p' \<Longrightarrow> clock (pr_server p') = clock (pr_server p)"
  by (auto elim!: prog_ownE dest: own_clock)

lemma prog_own_flush: "prog_own A J telemetry p p' \<Longrightarrow> pr_flush p' = NotYet \<Longrightarrow> pr_flush p = NotYet"
  by (auto elim!: prog_ownE)

lemma in_time_step:
  assumes step: "prog_step A J grace telemetry p p'" and ok: "prog_ok A J telemetry l p" and t: "in_time d e p"
  shows "in_time d e p'"
proof -
  have tasks: "tasks_ok p" using ok by (simp add: prog_ok_def Let_def)
  have b: "bounded_by d e (pr_server p')"
    using server_of_step [OF step tasks] bounded_by_step t by (auto simp: in_time_def)
  have frame: "in_time d e p'" if "clock (pr_server p') = clock (pr_server p)" "pr_flush p' = NotYet \<longrightarrow> pr_flush p = NotYet"
    using b t that by (simp add: in_time_def)
  from step show ?thesis
  proof (cases rule: prog_stepE)
    case alone
    then show ?thesis
    proof (cases rule: prog_aloneE)
      case own
      then show ?thesis using frame prog_own_clock prog_own_flush by blast
    next
      case time_passes
      then show ?thesis using in_time_later [OF _ tasks t] by blast
    qed
  next
    case (server_moves s)
    then show ?thesis using frame env_clock [OF server_moves(2)] by simp
  qed (use frame in simp_all)
qed

lemma in_time_run:
  "(prog_step A J grace telemetry)\<^sup>*\<^sup>* p p' \<Longrightarrow> prog_ok A J telemetry l p \<Longrightarrow> in_time d e p \<Longrightarrow> in_time d e p'"
proof (induction rule: rtranclp_induct)
  case (step q q')
  then show ?case using in_time_step prog_ok_run by blast
qed

text \<open>What is left to do alone: the server's work, the tunnels, and the time until the bound.\<close>

definition relay_work :: "Relaying \<Rightarrow> nat" where
  "relay_work rl = phase_rank (c2u (rl_bridge rl)) + phase_rank (u2c (rl_bridge rl))"

definition work :: "nat \<Rightarrow> Program \<Rightarrow> nat" where
  "work e p = own_work (pr_server p) + sum_list (map relay_work (pr_relays p)) + (e - clock (pr_server p))"

lemma own_work_end: "t \<in> set (tasks s) \<Longrightarrow> own_work (end_task t s) < own_work s"
  using length_pos_if_in_set [of t "tasks s"] by (simp add: own_work_def length_remove1)

lemma timer_relay_work:
  "timer_step (rl_bridge rl) b \<Longrightarrow> relay_work (rl\<lparr>rl_bridge := b\<rparr>) < relay_work rl"
  by (auto elim!: timer_stepE simp: relay_work_def phase_rank_pos)

lemma own_progress:
  assumes "prog_own A J telemetry p p'" and ok: "tasks_ok p" and "pr_flush p = NotYet" "pr_flush p' = NotYet"
  shows "work e p' < work e p"
  using assms(1)
proof (cases rule: prog_ownE)
  case (server_own s)
  then show ?thesis using own_work_step [of "pr_server p" s] own_clock [of "pr_server p" s] by (simp add: work_def)
next
  case (tunnel_dropped tun)
  then show ?thesis using own_work_end [OF tasks_ok_waiting [OF ok]] by (auto simp: work_def)
next
  case (relay_dropped before rl after)
  then show ?thesis using own_work_end [OF tasks_ok_bridge [OF ok]] by (auto simp: work_def)
next
  case (relay_ends before rl after)
  then show ?thesis using own_work_end [OF tasks_ok_bridge [OF ok]] by (auto simp: work_def)
next
  case (relay_timer before rl after b)
  then show ?thesis using timer_relay_work [of rl b] by (simp add: work_def)
next
  case poller_stops
  then show ?thesis by (simp add: work_def own_work_def)
qed (use assms(3,4) in simp_all)

lemma later_progress:
  assumes quiet: "\<nexists>p'. prog_own A J telemetry p p'" and ok: "tasks_ok p" and t: "in_time d e p"
    and "pr_flush p = NotYet"
  shows "work e (later p) < work e p"
proof -
  have "clock (pr_server p) < e" using in_time_later [OF quiet ok t] assms(4) by blast
  moreover have "map relay_work (pr_relays (later p)) = map relay_work (pr_relays p)"
    by (simp add: later_def relay_work_def)
  moreover have "own_work (pr_server (later p)) = own_work (pr_server p)"
    by (simp add: own_work_def)
  ultimately show ?thesis by (simp add: work_def)
qed

lemma alone_flush: "prog_alone A J telemetry p p' \<Longrightarrow> pr_flush p' = NotYet \<Longrightarrow> pr_flush p = NotYet"
  by (auto elim!: prog_aloneE dest: prog_own_flush)

lemma alone_run: "(prog_alone A J telemetry ^^ n) p p' \<Longrightarrow> (prog_step A J grace telemetry)\<^sup>*\<^sup>* p p'"
  by (rule relpowp_imp_rtranclp [of n], erule relpowp_mono [rotated]) (rule prog_step.alone)

lemma alone_bound:
  assumes "(prog_alone A J telemetry ^^ n) p p'" and "prog_ok A J telemetry l p" and "in_time d e p"
  shows "pr_flush p' = NotYet \<Longrightarrow> n + work e p' \<le> work e p"
  using assms(1)
proof (induction n arbitrary: p')
  case (Suc n)
  then obtain q where q: "(prog_alone A J telemetry ^^ n) p q" "prog_alone A J telemetry q p'" by auto
  have f: "pr_flush q = NotYet" using alone_flush [OF q(2)] Suc.prems by simp
  from q(1) have run: "(prog_step A J 0 telemetry)\<^sup>*\<^sup>* p q" by (rule alone_run)
  then have tasks: "tasks_ok q" and t: "in_time d e q"
    using prog_ok_run [OF run assms(2)] in_time_run [OF run assms(2,3)] by (simp_all add: prog_ok_def Let_def)
  from q(2) have "work e p' < work e q"
  proof (cases rule: prog_aloneE)
    case own
    then show ?thesis using own_progress tasks f Suc.prems by blast
  next
    case time_passes
    then show ?thesis using later_progress [OF _ tasks t f] by blast
  qed
  with Suc.IH [OF f q(1)] show ?case by simp
qed simp

text \<open>The program is never stuck, so alone it gets to its end.\<close>

lemma alone_possible: "\<exists>p'. (prog_alone A J telemetry ^^ n) p p'"
proof (induction n)
  case (Suc n)
  then obtain q where "(prog_alone A J telemetry ^^ n) p q" by blast
  moreover obtain q' where "prog_alone A J telemetry q q'" using prog_alone.intros by blast
  ultimately show ?case by (metis relpowp_Suc_I)
qed simp


lemma in_time_start:
  assumes "prog_ok A J telemetry l p" and "shutdown (pr_server p) = Announced d" and "pr_flush p = NotYet"
  shows "in_time d (max d (clock (pr_server p) + 100)) p"
  using bounded_by_start [of "pr_server p" d] assms
  by (auto simp: prog_ok_def in_time_def accept_backoff_def Let_def)


lemma flush_prefix: "flush_ok telemetry p \<Longrightarrow> prefix (flush_calls (pr_flush p)) (finish telemetry)"
proof (cases "pr_flush p")
  case (Flushing made rest)
  assume "flush_ok telemetry p"
  with Flushing have "finish telemetry = (made @ take 1 rest) @ drop 1 rest" by (simp add: flush_ok_def)
  then have "prefix (made @ take 1 rest) (finish telemetry)" by (metis prefixI)
  with Flushing show ?thesis by (simp add: flush_calls_def)
qed (auto simp: flush_ok_def flush_calls_def)

lemma alone_flushes:
  assumes "prog_ok A J telemetry l p" and "in_time d e p" and "(prog_alone A J telemetry ^^ Suc (work e p)) p p'"
  shows "pr_flush p' \<noteq> NotYet \<and> stage (pr_server p') = Returned"
proof -
  have "pr_flush p' \<noteq> NotYet" using alone_bound [OF assms(3,1,2)] by fastforce
  moreover have "prog_ok A J telemetry l p'" using prog_ok_run [OF alone_run [OF assms(3)] assms(1)] .
  ultimately show ?thesis by (simp add: prog_ok_def flush_ok_def Let_def)
qed

section \<open>A sample run\<close>

definition sample_config :: Config where
  "sample_config = default_config\<lparr>mock_eth_syncing := True\<rparr>"

abbreviation "sample_launch l \<equiv>
  launch sample_http sample_json dead_net 1000 Map.empty (\<lambda>_. Inr 0) None sample_config = Inr l"

lemma sample_launched: "\<exists>l. sample_launch l"
proof -
  obtain st where "run_inner_setup sample_http False sample_config = Inr st"
    using sample_setup
    by (auto simp: sample_config_def run_inner_setup_def default_config_def resolve_cl_genesis_time_def
        resolve_cl_seconds_per_slot_def Let_def and_then_Inr_iff)
  moreover have "bind_all (\<lambda>_. Inr 0) (listen sample_config) = Inr (map (\<lambda>_. 0) (listen sample_config))"
    by (simp add: bind_all_Inr)
  ultimately show ?thesis by (simp add: launch_eq Let_def)
qed

text \<open>One connection is accepted, and over it any request is answered (or opens a tunnel).\<close>

abbreviation "sample_step \<equiv> prog_step sample_http sample_json 10 None"

definition sample_accepted :: "Launched \<Rightarrow> Program" where
  "sample_accepted l = (program_start l)\<lparr>pr_server := spawn sample_conn ((la_server l)\<lparr>accepted := Suc (accepted (la_server l))\<rparr>)\<rparr>"

lemma sample_accepted_run:
  assumes "sample_launch l"
  shows "sample_step\<^sup>*\<^sup>* (program_start l) (sample_accepted l)" and "serves (pr_server (sample_accepted l))"
proof -
  let ?s = "(la_server l)\<lparr>selecting := Suc (selecting (la_server l))\<rparr>"
  let ?p = "(program_start l)\<lparr>pr_server := ?s\<rparr>"
  obtain n q where s: "la_server l = server_start (Suc n) q"
    using launch_Inr [OF assms] by (metis length_greater_0_conv gr0_implies_Suc)
  have "env_step 10 (la_server l) ?s"
    by (rule env_step.accept_polls) (simp_all add: s server_start_def loop_waits_def deadline_def)
  then have "sample_step (program_start l) ?p"
    using prog_step.server_moves [of 10 "program_start l" ?s] by (simp add: program_start_def relay_tasks_def)
  moreover have "env_step 10 ?s (pr_server (sample_accepted l))"
    using env_step.accept [of ?s 10] by (simp add: s sample_accepted_def sample_conn_def)
  then have "sample_step ?p (?p\<lparr>pr_server := pr_server (sample_accepted l)\<rparr>)"
    by (intro prog_step.server_moves) (simp_all add: sample_accepted_def sample_conn_def relay_tasks_def)
  ultimately show "sample_step\<^sup>*\<^sup>* (program_start l) (sample_accepted l)"
    by (simp add: sample_accepted_def converse_rtranclp_into_rtranclp)
  show "serves (pr_server (sample_accepted l))"
    by (simp add: sample_accepted_def serves_def sample_conn_def)
qed

definition sample_serving_env :: proxy_env where
  "sample_serving_env = sample_env\<lparr>http := sample_http\<rparr>"

lemma sample_request_run:
  assumes "sample_launch l"
  shows "\<exists>p e. sample_step\<^sup>*\<^sup>* (program_start l) p \<and> pr_log p = [e] \<and> sv_request e = req
     \<and> sv_answer e = Some (dis_response (dispatch sample_serving_env req (sv_state e)))"
proof -
  let ?p = "sample_accepted l"
  let ?d = "dispatch sample_serving_env req (shared ?p)"
  have E: "http sample_serving_env = sample_http" "json sample_serving_env = sample_json"
    by (simp_all add: sample_serving_env_def sample_env_def)
  note run = sample_accepted_run [OF assms]
  have log: "pr_log ?p = []" by (simp add: sample_accepted_def program_start_def)
  show ?thesis
  proof (cases "tunnel_by ?d")
    case None
    from prog_step.request_answered [OF run(2) E refl this] run(1)
    show ?thesis using log by (intro exI conjI) (erule rtranclp.rtrancl_into_rtrancl, assumption, auto)
  next
    case (Some tun)
    from prog_step.tunnel_spawned [OF run(2) E refl this] run(1)
    show ?thesis using log by (intro exI conjI) (erule rtranclp.rtrancl_into_rtrancl, assumption, auto)
  qed
qed

section \<open>Properties\<close>

text \<open>C7: the whole program is made of its parts. However requests, tunnels, polls and the shutdown
  interleave, what the server's tasks do is a run of the server from its start, what clients see of
  it is the abstract shutdown, and what the poller does is a run of its loop from the warm-up, up
  to the verdict of a poll under way. So everything proved of the parts alone holds in the whole.\<close>

theorem program_refines_parts:
  assumes "launch A J N now g bind telemetry c = Inr l"
    and "(prog_step A J grace telemetry)\<^sup>*\<^sup>* (program_start l) p"
  shows "(server_step grace)\<^sup>*\<^sup>* (server_start (length (listen c)) (\<not> trust_upstream c)) (pr_server p)
     \<and> life_step\<^sup>*\<^sup>* (Open 0) (life_of (pr_server p))
     \<and> (\<exists>evs. let ps = poll_loop A J evs (poll_start (warm_app (la_warm l)) (warm_gauges (la_warm l))) in
          pr_poll p = ps
          \<or> (\<exists>N. pr_polling p = Some N \<and> pr_poll p = ps\<lparr>ps_app := verdict_after J (Some N) (ps_app ps)\<rparr>))"
proof -
  let ?s = "server_start (length (listen c)) (\<not> trust_upstream c)"
  have "pr_server (program_start l) = ?s"
    using launch_Inr [OF assms(1)] by (auto simp: program_start_def)
  then have run: "(server_step grace)\<^sup>*\<^sup>* ?s (pr_server p)"
    using program.refines [OF conjI [OF assms(1) refl] assms(2)] by simp
  moreover have "life_step\<^sup>*\<^sup>* (Open 0) (life_of (pr_server p))"
    by (rule server_refines_life [OF run])
  moreover have poll: "poll_ok A J l p"
    using reached(1) [OF assms] by (simp add: prog_ok_def Let_def)
  then have "\<exists>evs. let ps = poll_loop A J evs (poll_start (warm_app (la_warm l)) (warm_gauges (la_warm l))) in
          pr_poll p = ps
          \<or> (\<exists>N. pr_polling p = Some N \<and> pr_poll p = ps\<lparr>ps_app := verdict_after J (Some N) (ps_app ps)\<rparr>)"
    by (rule poll_ok_loop)
  ultimately show ?thesis by blast
qed

theorem program_refines_parts_witness:
  "\<exists>l p. sample_launch l \<and> sample_step\<^sup>*\<^sup>* (program_start l) p \<and> life_of (pr_server p) = Open 1
     \<and> life_step\<^sup>*\<^sup>* (Open 0) (Open 1)"
proof -
  obtain l where l: "sample_launch l" using sample_launched by blast
  note run = sample_accepted_run(1) [OF l]
  obtain n q where "la_server l = server_start n q" using launch_Inr [OF l] by blast
  then have o: "life_of (pr_server (sample_accepted l)) = Open 1"
    by (simp add: sample_accepted_def life_of_def connections_def sample_conn_def server_start_def)
  from program_refines_parts [OF l run] have "life_step\<^sup>*\<^sup>* (Open 0) (life_of (pr_server (sample_accepted l)))"
    by (rule conjunct1 [OF conjunct2])
  with l run o show ?thesis by (intro exI conjI) (assumption, assumption, assumption, simp)
qed

text \<open>C4: the shield holds for the whole program. With \<open>--mock-eth-syncing\<close>, at any moment of any run, no
  text the mock handles has reached the execution layer: every POST ever sent there, by a request
  that was answered or cancelled, carries a body the mock passed on, and so does every text that any
  tunnel, open or closed, has delivered.\<close>

theorem mock_shields_upstreams:
  assumes "launch A J N now g bind telemetry c = Inr l"
    and "(prog_step A J grace telemetry)\<^sup>*\<^sup>* (program_start l) p" and "mock_eth_syncing c"
  shows "(\<forall>e \<in> set (pr_log p). \<forall>cl r. HttpRequest cl r \<in> set (sv_sent e)
            \<and> classify_request A (sv_request e) = ProxyRoute El \<and> req_method r = POST \<longrightarrow>
          (\<exists>b. req_body r = Full b \<and> mock_syncing J b = Forward))
     \<and> (\<forall>rl \<in> set (pr_relays p @ pr_closed p). \<forall>text.
          Text text \<in> set (delivered (u_tx (rl_bridge rl))) \<longrightarrow> mock_syncing J text = Forward)"
proof (intro conjI ballI allI impI; (elim conjE)?)
  note ok = reached [OF assms(1,2)]
  fix e cl r
  assume e: "e \<in> set (pr_log p)" and r: "HttpRequest cl r \<in> set (sv_sent e)"
    and El: "classify_request A (sv_request e) = ProxyRoute El" and POST: "req_method r = POST"
  have s: "served_ok A J l (pr_polls p) e" by (rule logged [OF ok(1) e])
  then have J: "json (sv_env e) = J" and c: "cfg (sv_state e) = c"
    using settings_fields(1) [of "sv_state e" "warm_app (la_warm l)"] ok(2)
    by (auto simp: served_ok_def)
  from route_contact [OF served_sent [OF s r El]] obtain uri body where
    "r = (forwarded (sv_env e) (sv_state e) (sv_request e) uri)\<lparr>req_body := body\<rparr>"
    "\<not> body_inspected (sv_state e) (sv_request e)
     \<or> (\<exists>b. mock_syncing (json (sv_env e)) b = Forward \<and> body = Full b)" by auto
  moreover from this(1) have "body_inspected (sv_state e) (sv_request e)"
    using POST c assms(3) by (simp add: body_inspected_def forwarded_def)
  ultimately show "\<exists>b. req_body r = Full b \<and> mock_syncing J b = Forward" using J by auto
next
  note ok = reached [OF assms(1,2)]
  fix rl msg
  assume rl: "rl \<in> set (pr_relays p @ pr_closed p)" and t: "Text msg \<in> set (delivered (u_tx (rl_bridge rl)))"
  from relayed_by [OF ok(1) rl] obtain c_room u_room where
    "(bridge_step J True)\<^sup>*\<^sup>* (bridge_start (rl_client rl) (rl_upstream rl) c_room u_room) (rl_bridge rl)"
    using assms(3) ok(2) by (auto simp: relaying_ok_def)
  from set_mono_prefix [OF bridge_prefix [OF this]] t show "mock_syncing J msg = Forward"
    by (auto simp: outgoing_def inspected_def)
qed

definition sample_el_post :: Request where
  "sample_el_post = sample_get\<lparr>req_method := POST, req_version := HTTP_11\<rparr>"

lemma sample_el_post_route: "classify_request sample_http sample_el_post = ProxyRoute El"
proof -
  have "classify sample_http sample_el_post = None" "\<not> is_cl_path (uri_path (req_uri sample_el_post))"
    by code_simp+
  then show ?thesis by (simp add: classify_request_def sample_el_post_def)
qed

theorem mock_shields_upstreams_witness:
  "\<exists>l p e. sample_launch l \<and> sample_step\<^sup>*\<^sup>* (program_start l) p \<and> pr_log p = [e]
     \<and> classify_request sample_http (sv_request e) = ProxyRoute El
     \<and> (\<forall>cl r. HttpRequest cl r \<in> set (sv_sent e) \<and> req_method r = POST \<longrightarrow>
          (\<exists>b. req_body r = Full b \<and> mock_syncing sample_json b = Forward))"
proof -
  obtain l where l: "sample_launch l" using sample_launched by blast
  from sample_request_run [OF l, of sample_el_post] obtain p e where
    p: "sample_step\<^sup>*\<^sup>* (program_start l) p" "pr_log p = [e]" "sv_request e = sample_el_post" by blast
  moreover have "mock_eth_syncing sample_config" by (simp add: sample_config_def)
  ultimately show ?thesis
    using mock_shields_upstreams [OF l p(1)] l sample_el_post_route by auto
qed

text \<open>C6: every readiness answer comes from the last completed poll. Whatever else the program is doing,
  a GET or HEAD of \<open>/readyz\<close> is answered without asking an upstream, from the probe of the last poll
  this run has completed before, made with the verdict its earlier polls had come to, or from the
  warm-up's as long as there is none; never from the placeholder; and with 200 exactly when that
  probe is good enough for the configuration at the time of the request.\<close>

theorem readiness_from_polls:
  assumes "launch A J N now g bind telemetry c = Inr l"
    and "(prog_step A J grace telemetry)\<^sup>*\<^sup>* (program_start l) p"
    and "e \<in> set (pr_log p)" and "sv_answer e = Some r"
    and "req_method (sv_request e) \<in> {GET, HEAD}" and "uri_path (req_uri (sv_request e)) = ''/readyz''"
  shows "\<exists>st. run_inner_setup A (telemetry \<noteq> None) c = Inr st \<and> prefix (sv_polls e) (pr_polls p)
     \<and> (let polls = map (\<lambda>(N, t). Polled N t True) (butlast (sv_polls e));
            before = poll_loop A J polls (poll_start (warm_app (la_warm l)) (warm_gauges (la_warm l)));
            pr = fst (if sv_polls e = [] then probe_once A J N st
                      else probe_once A J (fst (last (sv_polls e))) (ps_app before)) in
        polled_probe pr \<and> sv_sent e = []
        \<and> res_status r =
            (if trust_upstream c
                \<or> synced pr \<and> (readyz_strict c \<longrightarrow> fresh (sv_state e) pr (now_unix (sv_env e)))
             then 200 else 503))"
proof -
  note ok = reached [OF assms(1,2)]
  let ?d = "dispatch (sv_env e) (sv_request e) (sv_state e)" and ?app0 = "warm_app (la_warm l)"
  let ?ps = "\<lambda>polls. poll_loop A J (poll_events polls) (poll_start ?app0 (warm_gauges (la_warm l)))"
  let ?pr = "fst (if sv_polls e = [] then probe_once A J N (projr (run_inner_setup A (telemetry \<noteq> None) c))
      else probe_once A J (fst (last (sv_polls e))) (ps_app (?ps (butlast (sv_polls e)))))"
  have s: "served_ok A J l (pr_polls p) e" by (rule logged [OF ok(1) assms(3)])
  then have st: "settings (sv_state e) = settings ?app0" and pre: "prefix (sv_polls e) (pr_polls p)"
    and pr: "probe (sv_state e) = probe (app_after A J l (sv_polls e))"
    and d: "r = dis_response ?d" "sv_sent e = sent_by ?d"
    using assms(4) by (auto simp: served_ok_def Let_def)
  obtain st0 where st0: "run_inner_setup A (telemetry \<noteq> None) c = Inr st0" "la_warm l = warm_up A J N now g st0"
    using launch_Inr [OF assms(1)] by blast
  have probe: "probe (sv_state e) = ?pr"
  proof (cases "sv_polls e" rule: rev_cases)
    case Nil
    then show ?thesis using pr st0 by (simp add: app_after_def poll_events_def poll_start_def warm_up_app)
  next
    case (snoc earlier x)
    have nd: "\<not> ps_done (?ps earlier)" by (rule polls_not_done)
    obtain N' t where x: "x = (N', t)" by fastforce
    have "probe (app_after A J l (sv_polls e)) = fst (probe_once A J N' (ps_app (?ps earlier)))"
      using poll_step_published [OF nd, of A J N' t]
      by (simp add: app_after_def snoc x poll_events_def poll_loop_snoc)
    with pr snoc x show ?thesis by simp
  qed
  have c: "cfg (sv_state e) = c"
    using settings_fields(1) [OF st] ok(2) by simp
  note a = dispatch_ready [OF assms(5,6), of "sv_env e" "sv_state e"]
  have status: "res_status r = (if trust_upstream (cfg (sv_state e)) \<or> synced (probe (sv_state e))
      \<and> (readyz_strict (cfg (sv_state e)) \<longrightarrow> fresh (sv_state e) (probe (sv_state e)) (now_unix (sv_env e)))
      then 200 else 503)"
    using is_ready_iff [of "sv_state e" "probe (sv_state e)" "now_unix (sv_env e)"]
    by (auto simp: d(1) a(2) ready_def Let_def is_ready_def)
  have "polled_probe ?pr" using probe_once_polled by simp
  moreover have "sv_sent e = []" using d(2) a(1) by (simp add: sent_by_def)
  ultimately show ?thesis
    using pre status unfolding c probe st0(1) Let_def poll_events_def by auto
qed

theorem readiness_from_polls_witness:
  "\<exists>l p e. sample_launch l \<and> sample_step\<^sup>*\<^sup>* (program_start l) p \<and> pr_log p = [e] \<and> sv_sent e = []"
proof -
  obtain l where l: "sample_launch l" using sample_launched by blast
  let ?req = "sample_get\<lparr>req_uri := sample_uri\<lparr>path_and_query := Some \<lparr>pq_path = ''/readyz'', pq_query = None\<rparr>\<rparr>\<rparr>"
  from sample_request_run [OF l, of ?req] obtain p e r where
    p: "sample_step\<^sup>*\<^sup>* (program_start l) p" "pr_log p = [e]" "sv_request e = ?req" "sv_answer e = Some r" by blast
  have "req_method (sv_request e) \<in> {GET, HEAD}" "uri_path (req_uri (sv_request e)) = ''/readyz''"
    "e \<in> set (pr_log p)"
    using p by (simp_all add: sample_get_def uri_path_def)
  from readiness_from_polls [OF l p(1) this(3) p(4) this(1,2)] p l show ?thesis
    by (auto simp: Let_def)
qed

text \<open>C10: connections and tunnels are accounted for, whatever else runs. At every moment the \<open>tcp\<close> gauge is
  the number of connections being served and the \<open>ws\<close> gauge the number of open tunnels, the server holds exactly one task for each open tunnel and each one still waiting
  for its client, and every tunnel, open or closed, is a run of a bridge from its two streams with
  the mock setting of the configuration, so it relays what a tunnel on its own relays.\<close>

theorem tunnels_accounted:
  assumes "launch A J N now g bind telemetry c = Inr l"
    and "(prog_step A J grace telemetry)\<^sup>*\<^sup>* (program_start l) p"
  shows "ws_gauge (pr_server p) = int (length (pr_relays p))
     \<and> tcp_gauge (pr_server p) = int (length (connections (pr_server p)))
     \<and> length (relay_tasks (pr_server p)) = length (pr_pending p) + length (pr_relays p)
     \<and> (\<forall>rl \<in> set (pr_relays p @ pr_closed p). \<exists>c_room u_room.
          (bridge_step J (mock_eth_syncing c))\<^sup>*\<^sup>*
            (bridge_start (rl_client rl) (rl_upstream rl) c_room u_room) (rl_bridge rl))"
proof (intro conjI ballI)
  note ok = reached [OF assms]
  show "ws_gauge (pr_server p) = int (length (pr_relays p))" by (rule relay_count [OF ok(1)])
  have "gauges_ok (pr_server p)" using ok(1) by (simp add: prog_ok_def Let_def)
  then show "tcp_gauge (pr_server p) = int (length (connections (pr_server p)))"
    by (rule tcp_gauge_connections)
  have "tasks_ok p" using ok(1) by (simp add: prog_ok_def Let_def)
  from arg_cong [OF this [unfolded tasks_ok_def], of size]
  show "length (relay_tasks (pr_server p)) = length (pr_pending p) + length (pr_relays p)" by simp
  show "\<exists>c_room u_room. (bridge_step J (mock_eth_syncing c))\<^sup>*\<^sup>*
      (bridge_start (rl_client rl) (rl_upstream rl) c_room u_room) (rl_bridge rl)"
    if "rl \<in> set (pr_relays p @ pr_closed p)" for rl
    using relayed_by [OF ok(1) that] ok(2) by (auto simp: relaying_ok_def)
qed

theorem tunnels_accounted_witness:
  "\<exists>l p. sample_launch l \<and> sample_step\<^sup>*\<^sup>* (program_start l) p \<and> serves (pr_server p)
     \<and> ws_gauge (pr_server p) = int (length (pr_relays p))"
proof -
  obtain l where l: "sample_launch l" using sample_launched by blast
  note run = sample_accepted_run [OF l]
  from tunnels_accounted [OF l run(1)]
  have "ws_gauge (pr_server (sample_accepted l)) = int (length (pr_relays (sample_accepted l)))" by (rule conjunct1)
  with l run show ?thesis by (intro exI conjI) assumption+
qed

text \<open>C9: when \<open>run\<close> is about to return, the program is over. Once the drain barrier is passed nothing is
  left: no task, no tunnel, no poll, both gauges at 0; from then on no request is answered, no message
  moves and the shared state stays as it is. The telemetry providers are shut down then and not
  before, metrics first: the calls made at any moment are an initial part of the two, none is ever
  repeated, and \<open>run\<close> returns after both unless one has panicked.\<close>

theorem nothing_after_return:
  assumes "launch A J N now g bind telemetry c = Inr l"
    and "(prog_step A J grace telemetry)\<^sup>*\<^sup>* (program_start l) p"
    and "stage (pr_server p) = Returned \<or> pr_flush p \<noteq> NotYet"
    and "(prog_step A J grace telemetry)\<^sup>*\<^sup>* p p'"
  shows "stage (pr_server p') = Returned
     \<and> tasks (pr_server p') = [] \<and> pr_pending p' = [] \<and> pr_relays p' = [] \<and> pr_polling p' = None
     \<and> tcp_gauge (pr_server p') = 0 \<and> ws_gauge (pr_server p') = 0
     \<and> pr_log p' = pr_log p \<and> pr_closed p' = pr_closed p \<and> shared p' = shared p
     \<and> prefix (flush_calls (pr_flush p)) (flush_calls (pr_flush p'))
     \<and> (let calls = (case telemetry of None \<Rightarrow> []
          | Some (traces, metrics) \<Rightarrow> [MetricsShutdown metrics, TracesShutdown traces]) in
        prefix (flush_calls (pr_flush p')) calls
        \<and> (\<forall>made. pr_flush p' = RunOver made False \<longrightarrow> made = calls))"
proof -
  let ?calls = "case telemetry of None \<Rightarrow> []
      | Some (traces, metrics) \<Rightarrow> [MetricsShutdown metrics, TracesShutdown traces]"
  have ok: "prog_ok A J telemetry l p" by (rule reached(1) [OF assms(1,2)])
  then have "pr_flush p \<noteq> NotYet \<longrightarrow> stage (pr_server p) = Returned"
    by (simp add: prog_ok_def flush_ok_def Let_def)
  with assms(3) have st: "stage (pr_server p) = Returned" by blast
  from returned_steps [OF assms(4) ok st] have r: "ended_like p p'" and ok': "prog_ok A J telemetry l p'" by auto
  from r have st': "stage (pr_server p') = Returned" by (simp add: ended_like_def)
  have "finish telemetry = ?calls"
    by (simp add: finish_def telemetry_shutdown_def split: option.split)
  moreover have "flush_ok telemetry p'" using ok' by (simp add: prog_ok_def Let_def)
  ultimately have "prefix (flush_calls (pr_flush p')) ?calls \<and> (\<forall>made. pr_flush p' = RunOver made False \<longrightarrow> made = ?calls)"
    using flush_prefix [of telemetry p'] by (auto simp: flush_ok_def)
  with returned_empty [OF ok' st'] r st' show ?thesis by (simp add: ended_like_def Let_def)
qed


text \<open>The sample connection is being served when the signal comes.\<close>

definition sample_signalled :: "Launched \<Rightarrow> Program" where
  "sample_signalled l = (sample_accepted l)\<lparr>pr_server := (pr_server (sample_accepted l))\<lparr>
     shutdown := Announced 10, stage := Joining\<rparr>\<rparr>"

lemma sample_signalled_run:
  assumes "sample_launch l"
  shows "sample_step\<^sup>*\<^sup>* (program_start l) (sample_signalled l)"
    and "shutdown (pr_server (sample_signalled l)) = Announced 10"
    and "clock (pr_server (sample_signalled l)) = 0" and "pr_flush (sample_signalled l) = NotYet"
proof -
  let ?p = "sample_accepted l"
  obtain n q where "la_server l = server_start n q" using launch_Inr [OF assms] by blast
  then have s: "stage (pr_server ?p) = Serving" "clock (pr_server ?p) = 0"
    by (simp_all add: sample_accepted_def server_start_def)
  then have "sample_step ?p (sample_signalled l)"
    using prog_step.server_moves [OF env_step.shutdown_signal [OF s(1), of 10]]
    by (simp add: sample_signalled_def relay_tasks_def)
  with sample_accepted_run(1) [OF assms] show "sample_step\<^sup>*\<^sup>* (program_start l) (sample_signalled l)"
    by (rule rtranclp.rtrancl_into_rtrancl)
  show "shutdown (pr_server (sample_signalled l)) = Announced 10" "clock (pr_server (sample_signalled l)) = 0"
    "pr_flush (sample_signalled l) = NotYet"
    using s(2) by (simp_all add: sample_signalled_def sample_accepted_def program_start_def)
qed


text \<open>The same run, to its end, for a program that has returned.\<close>

lemma sample_returned: "\<exists>l p. sample_launch l \<and> sample_step\<^sup>*\<^sup>* (program_start l) p \<and> stage (pr_server p) = Returned"
proof -
  obtain l where l: "sample_launch l" using sample_launched by blast
  note run = sample_signalled_run [OF l]
  have ok: "prog_ok sample_http sample_json None l (sample_signalled l)" by (rule reached(1) [OF l run(1)])
  note t = in_time_start [OF ok run(2,4)]
  obtain p where p: "(prog_alone sample_http sample_json None ^^ Suc (work (max 10 (clock (pr_server (sample_signalled l)) + 100)) (sample_signalled l)))
      (sample_signalled l) p"
    using alone_possible by blast
  from alone_flushes [OF ok t p] alone_run [OF p] rtranclp_trans [OF run(1)] l show ?thesis by blast
qed

theorem nothing_after_return_witness:
  "\<exists>l p. sample_launch l \<and> sample_step\<^sup>*\<^sup>* (program_start l) p \<and> stage (pr_server p) = Returned
     \<and> tasks (pr_server p) = [] \<and> ws_gauge (pr_server p) = 0"
proof -
  obtain l p where l: "sample_launch l" and p: "sample_step\<^sup>*\<^sup>* (program_start l) p" "stage (pr_server p) = Returned"
    using sample_returned by blast
  from nothing_after_return [OF l p(1) disjI1 [OF p(2)] rtranclp.rtrancl_refl] l p show ?thesis by blast
qed

end
