(* ===== verification/Serde.thy ===== *)
theory Serde
  imports Rpc
begin

text \<open>
  A JSON reader in the place of serde_json: an instance of \<open>json_api\<close> that reads whole documents
  (RFC 8259), with escapes, surrogate pairs, numbers and the raw text of every value. It is not
  code of the repository; it shows that what the properties assume of the parser holds of a real
  one (\<open>serde_literal\<close>), and the program's own unit tests run on it. Unlike serde_json it has no
  limit on the nesting of a document.
\<close>

section \<open>Evaluation\<close>

text \<open>Bytes below 128 and below 32, read off the bits, so that documents evaluate fast.\<close>

fun is_ascii :: "char \<Rightarrow> bool" where
  "is_ascii (Char b0 b1 b2 b3 b4 b5 b6 b7) = (\<not> b7)"

fun is_control :: "char \<Rightarrow> bool" where
  "is_control (Char b0 b1 b2 b3 b4 b5 b6 b7) = (\<not> b5 \<and> \<not> b6 \<and> \<not> b7)"

lemma is_ascii_code: "is_ascii c \<longleftrightarrow> code c < 128"
  by (cases c) (auto simp: of_char_Char)

lemma is_control_code: "is_control c \<longleftrightarrow> code c < 32"
  by (cases c) (auto simp: of_char_Char)

lemma utf8_ok_ascii: "list_all is_ascii s \<Longrightarrow> utf8_ok (map code s)"
  by (induction s) (auto simp: is_ascii_code)

lemma is_utf8_eval [code]: "is_utf8 s = (if list_all is_ascii s then True else utf8_ok (map code s))"
  by (simp add: is_utf8_def utf8_ok_ascii)

section \<open>Lexical elements\<close>

definition json_space :: "char \<Rightarrow> bool" where
  "json_space c \<longleftrightarrow> c = CHR '' '' \<or> c = CHR 0x09 \<or> c = CHR 0x0A \<or> c = CHR 0x0D"

definition skip_ws :: "string \<Rightarrow> string" where
  "skip_ws s = dropWhile json_space s"

text \<open>What a string is made of: bytes that stand for themselves (or for which a short escape
  stands), and UTF-16 units written \<open>\u\<close>.\<close>

datatype Unit = Byte char | Utf16 int

definition short_escape :: "char \<Rightarrow> char option" where
  "short_escape e =
     map_of [(CHR 0x22, CHR 0x22), (CHR 0x5C, CHR 0x5C), (CHR ''/'', CHR ''/''), (CHR ''b'', CHR 0x08),
             (CHR ''f'', CHR 0x0C), (CHR ''n'', CHR 0x0A), (CHR ''r'', CHR 0x0D), (CHR ''t'', CHR 0x09)] e"

definition hex_digit :: "char \<Rightarrow> int option" where
  "hex_digit c =
     (case map_of (zip ''0123456789abcdef'' [0, 1, 2, 3, 4, 5, 6, 7, 8, 9, 10, 11, 12, 13, 14, 15]) c of
        Some d \<Rightarrow> Some d
      | None \<Rightarrow> map_of (zip ''ABCDEF'' [10, 11, 12, 13, 14, 15]) c)"

fun hex4 :: "char list \<Rightarrow> int option" where
  "hex4 [a, b, c, d] =
     (case (hex_digit a, hex_digit b, hex_digit c, hex_digit d) of
        (Some w, Some x, Some y, Some z) \<Rightarrow> Some (((w * 16 + x) * 16 + y) * 16 + z)
      | _ \<Rightarrow> None)"
| "hex4 _ = None"

text \<open>The rest of a string after its opening quote, up to the closing one.\<close>

fun read_chars :: "string \<Rightarrow> (Unit list \<times> string) option" where
  "read_chars [] = None"
| "read_chars (c # s) =
     (if c = CHR 0x22 then Some ([], s)
      else if c = CHR 0x5C then
        (case s of
           [] \<Rightarrow> None
         | e # s' \<Rightarrow>
             if e = CHR ''u'' then
               (case hex4 (take 4 s') of
                  None \<Rightarrow> None
                | Some n \<Rightarrow> map_option (\<lambda>(us, r). (Utf16 n # us, r)) (read_chars (drop 4 s')))
             else
               (case short_escape e of
                  None \<Rightarrow> None
                | Some x \<Rightarrow> map_option (\<lambda>(us, r). (Byte x # us, r)) (read_chars s')))
      else if is_control c then None
      else map_option (\<lambda>(us, r). (Byte c # us, r)) (read_chars s))"

definition utf8_of :: "int \<Rightarrow> string" where
  "utf8_of n =
     map char_of
       (if n < 128 then [n]
        else if n < 2048 then [192 + n div 64, 128 + n mod 64]
        else if n < 65536 then [224 + n div 4096, 128 + n div 64 mod 64, 128 + n mod 64]
        else [240 + n div 262144, 128 + n div 4096 mod 64, 128 + n div 64 mod 64, 128 + n mod 64])"

text \<open>The bytes a string decodes to, unless a surrogate stands alone.\<close>

fun decode_units :: "Unit list \<Rightarrow> string option" where
  "decode_units [] = Some []"
| "decode_units (Byte c # us) = map_option (Cons c) (decode_units us)"
| "decode_units (Utf16 n # us) =
     (if 55296 \<le> n \<and> n < 56320 then
        (case us of
           Utf16 m # us' \<Rightarrow>
             if 56320 \<le> m \<and> m < 57344
             then map_option (append (utf8_of (65536 + (n - 55296) * 1024 + (m - 56320)))) (decode_units us')
             else None
         | _ \<Rightarrow> None)
      else if 56320 \<le> n \<and> n < 57344 then None
      else map_option (append (utf8_of n)) (decode_units us))"

definition decoded :: "Unit list \<Rightarrow> string option" where
  "decoded us =
     (case decode_units us of None \<Rightarrow> None | Some s \<Rightarrow> if is_utf8 s then Some s else None)"

section \<open>Numbers\<close>

definition json_digit :: "char \<Rightarrow> bool" where
  "json_digit c \<longleftrightarrow> c \<in> set ''0123456789''"

definition digits :: "string \<Rightarrow> string \<times> string" where
  "digits s = (takeWhile json_digit s, dropWhile json_digit s)"

text \<open>An optional part of a number: \<open>None\<close> when it starts but has no digit.\<close>

definition skip_fraction :: "string \<Rightarrow> (bool \<times> string) option" where
  "skip_fraction s =
     (case s of
        c # s' \<Rightarrow> if c = CHR ''.'' then (case digits s' of (ds, r) \<Rightarrow> if ds = [] then None else Some (True, r))
                 else Some (False, s)
      | [] \<Rightarrow> Some (False, s))"

definition skip_exponent :: "string \<Rightarrow> (bool \<times> string) option" where
  "skip_exponent s =
     (case s of
        c # s' \<Rightarrow>
          if c = CHR ''e'' \<or> c = CHR ''E'' then
            (let s'' = (case s' of d # t \<Rightarrow> if d = CHR ''+'' \<or> d = CHR ''-'' then t else s' | [] \<Rightarrow> s') in
             case digits s'' of (ds, r) \<Rightarrow> if ds = [] then None else Some (True, r))
          else Some (False, s)
      | [] \<Rightarrow> Some (False, s))"

definition digits_value :: "string \<Rightarrow> int" where
  "digits_value ds = foldl (\<lambda>a c. a * 10 + (int (code c) - 48)) 0 ds"

text \<open>An integer that fits 64 bits, signed or not, has a value; every other number is a float.\<close>

definition number_value :: "bool \<Rightarrow> string \<Rightarrow> int option" where
  "number_value negative ds =
     (let n = digits_value ds in
      if negative then (if 0 < n \<and> n \<le> 2 ^ 63 then Some (- n) else None)
      else (if n < 2 ^ 64 then Some n else None))"

definition read_number :: "string \<Rightarrow> (json \<times> string) option" where
  "read_number s =
     (let negative = (case s of c # _ \<Rightarrow> c = CHR ''-'' | [] \<Rightarrow> False);
          s' = (if negative then tl s else s)
      in case digits s' of (ds, r) \<Rightarrow>
           if ds = [] \<or> (hd ds = CHR ''0'' \<and> length ds > 1) then None
           else (case skip_fraction r of
                   None \<Rightarrow> None
                 | Some (frac, r) \<Rightarrow>
                     (case skip_exponent r of
                        None \<Rightarrow> None
                      | Some (ex, r) \<Rightarrow>
                          Some (JNum (if frac \<or> ex then None else number_value negative ds), r))))"

definition read_literal :: "string \<Rightarrow> json \<Rightarrow> string \<Rightarrow> (json \<times> string) option" where
  "read_literal word v s = map_option (\<lambda>r. (v, r)) (strip_prefix word s)"

section \<open>Values\<close>

definition raw_text :: "string \<Rightarrow> string \<Rightarrow> string option" where
  "raw_text s r = (let t = take (length s - length r) s in if is_utf8 t then Some t else None)"

definition read_scalar :: "string \<Rightarrow> (json \<times> string) option" where
  "read_scalar s =
     (case s of
        [] \<Rightarrow> None
      | c # cs \<Rightarrow>
          if c = CHR 0x22 then map_option (\<lambda>(us, r). (JStr (decoded us), r)) (read_chars cs)
          else if c = CHR ''n'' then read_literal ''null'' JNull s
          else if c = CHR ''t'' then read_literal ''true'' (JBool True) s
          else if c = CHR ''f'' then read_literal ''false'' (JBool False) s
          else read_number s)"

text \<open>The fuel bounds the number of calls, of which there are at most two for each byte read.\<close>

fun read_value :: "nat \<Rightarrow> string \<Rightarrow> (node \<times> string) option"
  and read_elems :: "nat \<Rightarrow> string \<Rightarrow> (node list \<times> string) option"
  and read_members :: "nat \<Rightarrow> string \<Rightarrow> ((string option \<times> node) list \<times> string) option"
where
  "read_value 0 s = None"
| "read_value (Suc n) s =
     map_option (\<lambda>(v, r). (Node (raw_text s r) v, r))
       (case s of
          [] \<Rightarrow> None
        | c # cs \<Rightarrow>
            if c = CHR ''['' then
              (case skip_ws cs of
                 [] \<Rightarrow> None
               | d # ds \<Rightarrow> if d = CHR '']'' then Some (JArr [], ds)
                         else map_option (\<lambda>(ns, r). (JArr ns, r)) (read_elems n (d # ds)))
            else if c = CHR ''{'' then
              (case skip_ws cs of
                 [] \<Rightarrow> None
               | d # ds \<Rightarrow> if d = CHR ''}'' then Some (JObj [], ds)
                         else map_option (\<lambda>(kvs, r). (JObj kvs, r)) (read_members n (d # ds)))
            else read_scalar s)"
| "read_elems 0 s = None"
| "read_elems (Suc n) s =
     (case read_value n s of
        None \<Rightarrow> None
      | Some (v, r) \<Rightarrow>
          (case skip_ws r of
             [] \<Rightarrow> None
           | d # ds \<Rightarrow>
               if d = CHR '']'' then Some ([v], ds)
               else if d = CHR '','' then map_option (\<lambda>(vs, r). (v # vs, r)) (read_elems n (skip_ws ds))
               else None))"
| "read_members 0 s = None"
| "read_members (Suc n) s =
     (case s of
        [] \<Rightarrow> None
      | q # cs \<Rightarrow>
          if q \<noteq> CHR 0x22 then None
          else (case read_chars cs of
                  None \<Rightarrow> None
                | Some (us, r) \<Rightarrow>
                    (case skip_ws r of
                       [] \<Rightarrow> None
                     | d # ds \<Rightarrow>
                         if d \<noteq> CHR '':'' then None
                         else (case read_value n (skip_ws ds) of
                                 None \<Rightarrow> None
                               | Some (v, r) \<Rightarrow>
                                   (case skip_ws r of
                                      [] \<Rightarrow> None
                                    | e # es \<Rightarrow>
                                        if e = CHR ''}'' then Some ([(decoded us, v)], es)
                                        else if e = CHR '','' then
                                          map_option (\<lambda>(kvs, r). ((decoded us, v) # kvs, r))
                                            (read_members n (skip_ws es))
                                        else None)))))"

definition read_document :: "bytes \<Rightarrow> node option" where
  "read_document b =
     (case read_value (2 * length b + 2) (skip_ws b) of
        None \<Rightarrow> None
      | Some (n, r) \<Rightarrow> if skip_ws r = [] then Some n else None)"

definition serde :: json_api where
  "serde = \<lparr>from_slice = read_document, de_error = (\<lambda>t b. ''invalid '' @ t)\<rparr>"

section \<open>What is read is a prefix of the text\<close>

lemma read_chars_text:
  "read_chars s = Some (us, r) \<Longrightarrow>
     \<exists>p. s = p @ CHR 0x22 # r \<and> (CHR 0x5C \<notin> set p \<longrightarrow> us = map Byte p)"
proof (induction s arbitrary: us r rule: read_chars.induct)
  case 1
  then show ?case by simp
next
  case (2 c s)
  consider (quote) "c = CHR 0x22" | (escape) "c = CHR 0x5C" | (byte) "c \<noteq> CHR 0x22" "c \<noteq> CHR 0x5C" by blast
  then show ?case
  proof cases
    case quote
    with 2 show ?thesis by auto
  next
    case escape
    with 2(4) obtain e s' where s: "s = e # s'" by (cases s) auto
    have "\<exists>q. s' = q @ CHR 0x22 # r"
    proof (cases "e = CHR ''u''")
      case True
      with 2(4) escape s obtain n us' where n: "hex4 (take 4 s') = Some n"
        and "read_chars (drop 4 s') = Some (us', r)"
        by (auto split: option.splits)
      with 2(1) [OF _ escape s True n] escape obtain p where "drop 4 s' = p @ CHR 0x22 # r" by auto
      then have "s' = (take 4 s' @ p) @ CHR 0x22 # r" by (metis append_assoc append_take_drop_id)
      then show ?thesis by blast
    next
      case False
      with 2(4) escape s obtain x us' where x: "short_escape e = Some x" and "read_chars s' = Some (us', r)"
        by (auto split: option.splits)
      with 2(2) [OF _ escape s False x] escape show ?thesis by auto
    qed
    then obtain q where "s' = q @ CHR 0x22 # r" by blast
    with s escape have "c # s = (c # e # q) @ CHR 0x22 # r \<and> CHR 0x5C \<in> set (c # e # q)" by simp
    then show ?thesis by blast
  next
    case byte
    with 2(4) obtain us' where c: "\<not> is_control c" and r: "read_chars s = Some (us', r)" and us: "us = Byte c # us'"
      by (auto split: if_splits)
    from 2(3) [OF byte c r] obtain p where "s = p @ CHR 0x22 # r" "CHR 0x5C \<notin> set p \<longrightarrow> us' = map Byte p" by blast
    with us byte have "c # s = (c # p) @ CHR 0x22 # r" "CHR 0x5C \<notin> set (c # p) \<longrightarrow> us = map Byte (c # p)" by auto
    then show ?thesis by blast
  qed
qed

lemma decode_bytes: "decode_units (map Byte p) = Some p"
  by (induction p) auto

lemma decoded_bytes: "decoded (map Byte p) = Some x \<Longrightarrow> x = p"
  by (auto simp: decoded_def decode_bytes split: if_splits)

text \<open>Strings of what was read occur in it, unless it holds a backslash.\<close>

definition literal_in :: "string \<Rightarrow> string set \<Rightarrow> bool" where
  "literal_in p ss \<longleftrightarrow> CHR 0x5C \<in> set p \<or> (\<forall>x \<in> ss. sublist x p)"

lemma literal_in_mono: "literal_in p ss \<Longrightarrow> literal_in (a @ p @ b) ss"
  unfolding literal_in_def sublist_def by (simp, metis append_assoc)

lemma literal_in_empty [simp]: "literal_in p {}"
  by (simp add: literal_in_def)

lemma literal_in_Un: "literal_in p (A \<union> B) \<longleftrightarrow> literal_in p A \<and> literal_in p B"
  by (auto simp: literal_in_def)

lemma skip_ws_text: "\<exists>p. s = p @ skip_ws s"
  by (metis skip_ws_def takeWhile_dropWhile_id)

lemma digits_text: "digits s = (ds, r) \<Longrightarrow> s = ds @ r"
  by (auto simp: digits_def)

lemma skip_fraction_text: "skip_fraction s = Some (b, r) \<Longrightarrow> \<exists>p. s = p @ r"
  by (force simp: skip_fraction_def split: list.splits if_splits prod.splits dest!: digits_text)

lemma skip_exponent_text: "skip_exponent s = Some (b, r) \<Longrightarrow> \<exists>p. s = p @ r"
  by (force simp: skip_exponent_def Let_def split: list.splits if_splits prod.splits dest!: digits_text)

lemma read_number_text:
  assumes "read_number s = Some (v, r)"
  shows "(\<exists>p. s = p @ r) \<and> json_strings v = {}"
proof -
  define s' where "s' = (if (case s of c # _ \<Rightarrow> c = CHR ''-'' | [] \<Rightarrow> False) then tl s else s)"
  have s: "\<exists>q. s = q @ s'"
    by (cases s) (auto simp: s'_def)
  obtain ds r1 where d: "digits s' = (ds, r1)" by fastforce
  with assms obtain frac r2 ex where f: "skip_fraction r1 = Some (frac, r2)"
    and e: "skip_exponent r2 = Some (ex, r)" and v: "\<exists>n. v = JNum n"
    by (auto simp: read_number_def Let_def s'_def split: option.splits if_splits prod.splits)
  from digits_text [OF d] skip_fraction_text [OF f] skip_exponent_text [OF e] s
  have "\<exists>p. s = p @ r" by (metis append_assoc)
  with v show ?thesis by auto
qed

lemma read_literal_text: "read_literal w v s = Some (v', r) \<Longrightarrow> s = w @ r \<and> v' = v"
  by (auto simp: read_literal_def strip_prefix_Some)

lemma read_scalar_text:
  assumes "read_scalar s = Some (v, r)"
  shows "\<exists>p. s = p @ r \<and> literal_in p (json_strings v)"
proof (cases s)
  case Nil
  with assms show ?thesis by (simp add: read_scalar_def)
next
  case (Cons c cs)
  show ?thesis
  proof (cases "c = CHR 0x22")
    case True
    with assms Cons obtain us where us: "read_chars cs = Some (us, r)" and v: "v = JStr (decoded us)"
      by (auto simp: read_scalar_def)
    from read_chars_text [OF us] obtain p where p: "cs = p @ CHR 0x22 # r"
      "CHR 0x5C \<notin> set p \<longrightarrow> us = map Byte p" by blast
    have "literal_in p (json_strings v)"
      using p(2) v decoded_bytes [of p] by (cases "decoded us") (auto simp: literal_in_def)
    then have "literal_in ([CHR 0x22] @ p @ [CHR 0x22]) (json_strings v)" by (rule literal_in_mono)
    moreover have "s = ([CHR 0x22] @ p @ [CHR 0x22]) @ r" using Cons True p(1) by simp
    ultimately show ?thesis by blast
  next
    case False
    with assms Cons have "(\<exists>w u. read_literal w u s = Some (v, r) \<and> json_strings u = {}) \<or> read_number s = Some (v, r)"
      by (fastforce simp: read_scalar_def split: if_splits)
    then have "(\<exists>p. s = p @ r) \<and> json_strings v = {}"
      using read_number_text read_literal_text by blast
    then show ?thesis by auto
  qed
qed

lemma literal_in_cons: "literal_in p ss \<Longrightarrow> literal_in (c # p) ss"
  using literal_in_mono [of p ss "[c]" "[]"] by simp

lemma literal_in_front: "literal_in p ss \<Longrightarrow> literal_in (a @ p) ss"
  using literal_in_mono [of p ss a "[]"] by simp

lemma literal_in_back: "literal_in p ss \<Longrightarrow> literal_in (p @ b) ss"
  using literal_in_mono [of p ss "[]" b] by simp

lemma skip_ws_step: "skip_ws s = d # ds \<Longrightarrow> \<exists>p. s = p @ d # ds"
  using skip_ws_text [of s] by simp

lemma read_text:
  "read_value n s = Some (v, r) \<Longrightarrow> \<exists>p. s = p @ r \<and> literal_in p (node_strings v)"
  "read_elems n s = Some (vs, r) \<Longrightarrow> \<exists>p. s = p @ r \<and> literal_in p (json_strings (JArr vs))"
  "read_members n s = Some (kvs, r) \<Longrightarrow> \<exists>p. s = p @ r \<and> literal_in p (json_strings (JObj kvs))"
proof (induction n s and n s and n s arbitrary: v r and vs r and kvs r
    rule: read_value_read_elems_read_members.induct)
  case (2 n s)
  from 2(3) obtain c cs w where s: "s = c # cs" and v: "v = Node (raw_text s r) w"
    and w: "(if c = CHR ''['' then
              (case skip_ws cs of
                 [] \<Rightarrow> None
               | d # ds \<Rightarrow> if d = CHR '']'' then Some (JArr [], ds)
                         else map_option (\<lambda>(ns, r). (JArr ns, r)) (read_elems n (d # ds)))
            else if c = CHR ''{'' then
              (case skip_ws cs of
                 [] \<Rightarrow> None
               | d # ds \<Rightarrow> if d = CHR ''}'' then Some (JObj [], ds)
                         else map_option (\<lambda>(kvs, r). (JObj kvs, r)) (read_members n (d # ds)))
            else read_scalar s) = Some (w, r)"
    by (cases s) auto
  have "\<exists>p. cs = p @ r \<and> literal_in p (json_strings w)" if br: "c = CHR ''['' \<or> c = CHR ''{''"
  proof -
    from br w obtain d ds where d: "skip_ws cs = d # ds" by (cases "skip_ws cs") auto
    obtain q where q: "cs = q @ d # ds" using skip_ws_step [OF d] by blast
    consider (empty) "d = (if c = CHR ''['' then CHR '']'' else CHR ''}'')" "json_strings w = {}" "r = ds"
      | (elems) ns where "read_elems n (d # ds) = Some (ns, r)" "w = JArr ns" "c = CHR ''[''" "d \<noteq> CHR '']''"
      | (members) kvs where "read_members n (d # ds) = Some (kvs, r)" "w = JObj kvs" "c = CHR ''{''" "d \<noteq> CHR ''}''"
      using br w d by (cases "c = CHR ''[''") (auto split: if_splits)
    then show ?thesis
    proof cases
      case empty
      with q show ?thesis by (intro exI [of _ "q @ [d]"]) simp
    next
      case elems
      from 2(1) [OF s elems(3) d elems(4) elems(1)] q elems(2) show ?thesis
        by (metis append_assoc literal_in_front)
    next
      case members
      have "c \<noteq> CHR ''[''" using members(3) by simp
      from 2(2) [OF s this members(3) d members(4) members(1)] q members(2) show ?thesis
        by (metis append_assoc literal_in_front)
    qed
  qed
  moreover have "\<exists>p. s = p @ r \<and> literal_in p (json_strings w)" if "c \<noteq> CHR ''[''" "c \<noteq> CHR ''{''"
    using w that read_scalar_text by simp
  ultimately show ?case
    using s v by (metis append_Cons literal_in_cons node_strings.simps)
next
  case (4 n s)
  from 4(3) obtain w r1 where w: "read_value n s = Some (w, r1)" by (auto split: option.splits)
  from 4(1) [OF w] obtain p where p: "s = p @ r1" "literal_in p (node_strings w)" by blast
  from 4(3) w obtain d ds where d: "skip_ws r1 = d # ds" by (cases "skip_ws r1") auto
  obtain q where q: "r1 = q @ d # ds" using skip_ws_step [OF d] by blast
  consider (last) "vs = [w]" "r = ds"
    | (more) ws where "read_elems n (skip_ws ds) = Some (ws, r)" "vs = w # ws" "d \<noteq> CHR '']''" "d = CHR '',''"
    using 4(3) w d by (auto split: if_splits)
  then show ?case
  proof cases
    case last
    with p q have "s = (p @ q @ [d]) @ r" by simp
    moreover have "literal_in (p @ q @ [d]) (json_strings (JArr vs))"
      using last p(2) literal_in_back by simp
    ultimately show ?thesis by blast
  next
    case more
    from 4(2) [OF w _ d more(3) more(4) more(1)] obtain p' where p': "skip_ws ds = p' @ r"
      "literal_in p' (json_strings (JArr ws))" by auto
    obtain q' where q': "ds = q' @ skip_ws ds" using skip_ws_text by blast
    have "s = (p @ q @ d # q' @ p') @ r" using p(1) q p'(1) q' by simp
    moreover have "literal_in (p @ q @ d # q' @ p') (json_strings (JArr ws))"
      using literal_in_front [OF p'(2), of "p @ q @ d # q'"] by simp
    then have "literal_in (p @ q @ d # q' @ p') (json_strings (JArr vs))"
      using more(2) p(2) literal_in_back [of p _ "q @ d # q' @ p'"] by (simp add: literal_in_Un)
    ultimately show ?thesis by blast
  qed
next
  case (6 n s)
  from 6(3) obtain cs us r1 where s: "s = CHR 0x22 # cs" and us: "read_chars cs = Some (us, r1)"
    by (auto split: list.splits option.splits if_splits)
  from read_chars_text [OF us] obtain p where p: "cs = p @ CHR 0x22 # r1" by blast
  from 6(3) s us obtain ds where d: "skip_ws r1 = CHR '':'' # ds" by (auto split: list.splits if_splits)
  obtain q where q: "r1 = q @ CHR '':'' # ds" using skip_ws_step [OF d] by blast
  from 6(3) s us d obtain w r2 where w: "read_value n (skip_ws ds) = Some (w, r2)" by (auto split: option.splits)
  obtain q' where q': "ds = q' @ skip_ws ds" using skip_ws_text by blast
  from 6(1) [OF s _ us _ d _ w] obtain p' where p': "skip_ws ds = p' @ r2" "literal_in p' (node_strings w)" by auto
  from 6(3) s us d w obtain e es where e: "skip_ws r2 = e # es" by (cases "skip_ws r2") auto
  obtain q2 where q2: "r2 = q2 @ e # es" using skip_ws_step [OF e] by blast
  define a where "a = CHR 0x22 # p @ CHR 0x22 # q @ CHR '':'' # q' @ p'"
  have a: "s = (a @ q2 @ [e]) @ es" using s p q q' p'(1) q2 by (simp add: a_def)
  have l: "literal_in a (node_strings w)"
    using literal_in_front [OF p'(2), of "CHR 0x22 # p @ CHR 0x22 # q @ CHR '':'' # q'"] by (simp add: a_def)
  consider (last) "kvs = [(decoded us, w)]" "r = es"
    | (more) kvs' where "read_members n (skip_ws es) = Some (kvs', r)" "kvs = (decoded us, w) # kvs'"
        "e \<noteq> CHR ''}''" "e = CHR '',''"
    using 6(3) s us d w e by (auto split: if_splits)
  then show ?case
  proof cases
    case last
    then show ?thesis using a literal_in_back [OF l] by auto
  next
    case more
    from 6(2) [OF s _ us _ d _ w _ e more(3) more(4) more(1)] obtain p2 where p2: "skip_ws es = p2 @ r"
      "literal_in p2 (json_strings (JObj kvs'))" by auto
    obtain q3 where q3: "es = q3 @ skip_ws es" using skip_ws_text by blast
    have "s = (a @ q2 @ e # q3 @ p2) @ r" using a p2(1) q3 by simp
    moreover have "literal_in (a @ q2 @ e # q3 @ p2) (json_strings (JObj kvs'))"
      using literal_in_front [OF p2(2), of "a @ q2 @ e # q3"] by simp
    then have "literal_in (a @ q2 @ e # q3 @ p2) (json_strings (JObj kvs))"
      using more(2) l literal_in_back [OF l, of "q2 @ e # q3 @ p2"] by (simp add: literal_in_Un)
    ultimately show ?thesis by blast
  qed
qed simp_all

lemma serde_literal: "literal_law serde"
  unfolding literal_law_def
proof (intro allI impI)
  fix b n s
  assume "from_slice serde b = Some n" and s: "s \<in> node_strings n"
  then obtain r where r: "read_value (2 * length b + 2) (skip_ws b) = Some (n, r)"
    by (auto simp: serde_def read_document_def split: option.splits if_splits)
  from read_text(1) [OF r] obtain p where "skip_ws b = p @ r" "literal_in p (node_strings n)" by blast
  moreover obtain q where "b = q @ skip_ws b" using skip_ws_text by blast
  ultimately have "b = q @ p @ r" "literal_in (q @ p @ r) (node_strings n)" by (simp_all add: literal_in_mono)
  then show "contains_str b s \<or> CHR 0x5C \<in> set b"
    using s by (auto simp: literal_in_def contains_str_def)
qed

section \<open>Reading does not look past what it reads\<close>

text \<open>A number is the only value whose end is seen by what follows it.\<close>

definition ends_number :: "string \<Rightarrow> bool" where
  "ends_number t \<longleftrightarrow> (case t of [] \<Rightarrow> True | c # _ \<Rightarrow> \<not> json_digit c \<and> c \<notin> set ''.eE'')"

lemma read_chars_more: "read_chars s = Some (us, r) \<Longrightarrow> read_chars (s @ t) = Some (us, r @ t)"
proof (induction s arbitrary: us r rule: read_chars.induct)
  case (2 c s)
  show ?case
  proof (cases "c = CHR 0x5C")
    case True
    with 2(4) obtain e s' where s: "s = e # s'" by (cases s) auto
    show ?thesis
    proof (cases "e = CHR ''u''")
      case u: True
      with 2(4) True s obtain n us' where n: "hex4 (take 4 s') = Some n" "read_chars (drop 4 s') = Some (us', r)"
        and us: "us = Utf16 n # us'"
        by (auto split: option.splits)
      have "length (take 4 s') = 4" using n(1) by (cases "take 4 s'" rule: hex4.cases) auto
      then have "4 \<le> length s'" by simp
      then show ?thesis using 2(1) [OF _ True s u n(1) n(2)] True s u n us by simp
    next
      case False
      with 2(4) True s obtain x us' where "short_escape e = Some x" "read_chars s' = Some (us', r)" "us = Byte x # us'"
        by (auto split: option.splits)
      then show ?thesis using 2(2) [OF _ True s False] True s False by simp
    qed
  next
    case False
    then show ?thesis using 2(3,4) by (auto split: if_splits)
  qed
qed simp

lemma digits_more: "digits s = (ds, r) \<Longrightarrow> r = [] \<longrightarrow> ends_number t \<Longrightarrow> digits (s @ t) = (ds, r @ t)"
proof (induction s arbitrary: ds)
  case Nil
  then show ?case by (cases t) (auto simp: digits_def ends_number_def)
next
  case (Cons c s)
  then show ?case by (auto simp: digits_def split: if_splits)
qed

lemma skip_fraction_more:
  assumes "skip_fraction s = Some (b, r)" and "r = [] \<longrightarrow> ends_number t"
  shows "skip_fraction (s @ t) = Some (b, r @ t)"
proof (cases s)
  case Nil
  with assms show ?thesis by (cases t) (auto simp: skip_fraction_def ends_number_def)
next
  case (Cons c s')
  obtain ds r' where d: "digits s' = (ds, r')" by fastforce
  with assms Cons show ?thesis
    using digits_more [OF d] by (auto simp: skip_fraction_def split: if_splits)
qed

lemma skip_exponent_more:
  assumes "skip_exponent s = Some (b, r)" and "r = [] \<longrightarrow> ends_number t"
  shows "skip_exponent (s @ t) = Some (b, r @ t)"
proof (cases s)
  case Nil
  with assms show ?thesis by (cases t) (auto simp: skip_exponent_def ends_number_def)
next
  case (Cons c s')
  show ?thesis
  proof (cases "c = CHR ''e'' \<or> c = CHR ''E''")
    case True
    define sg where "sg u = (case u of d # v \<Rightarrow> if d = CHR ''+'' \<or> d = CHR ''-'' then v else u | [] \<Rightarrow> u)" for u :: string
    obtain ds r' where d: "digits (sg s') = (ds, r')" by fastforce
    with assms(1) Cons True have ds: "ds \<noteq> []" "r' = r" "b = True"
      by (auto simp: skip_exponent_def Let_def sg_def split: if_splits)
    have "s' \<noteq> []" using d ds(1) by (auto simp: sg_def digits_def)
    then have "sg (s' @ t) = sg s' @ t" by (cases s') (auto simp: sg_def)
    then have "digits (sg (s' @ t)) = (ds, r @ t)" using digits_more [OF d] ds(2) assms(2) by simp
    then show ?thesis using Cons True ds(1,3) by (auto simp: skip_exponent_def Let_def sg_def)
  next
    case False
    with assms Cons show ?thesis by (auto simp: skip_exponent_def)
  qed
qed

lemma read_number_more:
  assumes "read_number s = Some (v, r)" and t: "r = [] \<longrightarrow> ends_number t"
  shows "read_number (s @ t) = Some (v, r @ t)"
proof -
  define neg where "neg u = (case u of c # _ \<Rightarrow> c = CHR ''-'' | [] \<Rightarrow> False)" for u :: string
  define s' where "s' = (if neg s then tl s else s)"
  obtain ds r1 where d: "digits s' = (ds, r1)" by fastforce
  with assms(1) obtain frac r2 ex where z: "ds \<noteq> []" "\<not> (hd ds = CHR ''0'' \<and> length ds > 1)"
    and f: "skip_fraction r1 = Some (frac, r2)" and e: "skip_exponent r2 = Some (ex, r)"
    and v: "v = JNum (if frac \<or> ex then None else number_value (neg s) ds)"
    by (auto simp: read_number_def Let_def s'_def neg_def split: option.splits if_splits prod.splits)
  have "s \<noteq> []" using d z(1) by (auto simp: s'_def neg_def digits_def)
  then have n: "neg (s @ t) = neg s" "(if neg (s @ t) then tl (s @ t) else s @ t) = s' @ t"
    by (cases s; simp add: neg_def s'_def)+
  have e': "skip_exponent (r2 @ t) = Some (ex, r @ t)" by (rule skip_exponent_more [OF e t])
  have r2: "r2 = [] \<longrightarrow> ends_number t" using skip_exponent_text [OF e] t by auto
  have f': "skip_fraction (r1 @ t) = Some (frac, r2 @ t)" by (rule skip_fraction_more [OF f r2])
  have "r1 = [] \<longrightarrow> ends_number t" using skip_fraction_text [OF f] r2 by auto
  then have "digits (s' @ t) = (ds, r1 @ t)" by (rule digits_more [OF d])
  with n z e' f' v show ?thesis
    by (simp add: read_number_def Let_def flip: neg_def)
qed

lemma read_literal_more: "read_literal w u s = Some (v, r) \<Longrightarrow> read_literal w u (s @ t) = Some (v, r @ t)"
  by (auto simp: read_literal_def strip_prefix_Some)

lemma read_scalar_more:
  assumes "read_scalar s = Some (v, r)" and "r = [] \<longrightarrow> ends_number t"
  shows "read_scalar (s @ t) = Some (v, r @ t)"
  using assms read_number_more [of s v r t] read_literal_more [of _ _ s v r t]
  by (cases s) (auto simp: read_scalar_def read_chars_more split: if_splits)

lemma skip_ws_more: "skip_ws s = d # ds \<Longrightarrow> skip_ws (s @ t) = d # ds @ t"
  by (induction s) (auto simp: skip_ws_def split: if_splits)

lemma skip_ws_idem [simp]: "skip_ws (skip_ws s) = skip_ws s"
  by (induction s) (auto simp: skip_ws_def)

lemma raw_text_more: "raw_text (p @ r @ t) (r @ t) = raw_text (p @ r) r"
  by (simp add: raw_text_def)

lemma read_Nil [simp]: "read_value n [] = None" "read_elems n [] = None" "read_members n [] = None"
proof -
  show v: "read_value n [] = None" for n by (cases n) auto
  show "read_elems n [] = None" "read_members n [] = None" by (cases n; simp add: v)+
qed

text \<open>The rest of an array or object ends with its bracket, so only a value of its own is concerned.\<close>

lemma read_more:
  "read_value n s = Some (v, r) \<Longrightarrow> r = [] \<longrightarrow> ends_number t \<Longrightarrow> read_value n (s @ t) = Some (v, r @ t)"
  "read_elems n s = Some (vs, r) \<Longrightarrow> read_elems n (s @ t) = Some (vs, r @ t)"
  "read_members n s = Some (kvs, r) \<Longrightarrow> read_members n (s @ t) = Some (kvs, r @ t)"
proof (induction n s and n s and n s arbitrary: v r and vs r and kvs r
    rule: read_value_read_elems_read_members.induct)
  case (2 n s)
  have rt: "raw_text (s @ t) (r @ t) = raw_text s r"
    using read_text(1) [OF 2(3)] raw_text_more by fastforce
  from 2(3) obtain c cs where s: "s = c # cs" by (cases s) auto
  consider (arr) "c = CHR ''[''" | (obj) "c = CHR ''{''" | (scalar) "c \<noteq> CHR ''[''" "c \<noteq> CHR ''{''" by blast
  then show ?case
  proof cases
    case arr
    with 2(3) s obtain d ds where d: "skip_ws cs = d # ds" by (cases "skip_ws cs") auto
    then have d': "skip_ws (cs @ t) = d # ds @ t" by (rule skip_ws_more)
    show ?thesis
    proof (cases "d = CHR '']''")
      case True
      with 2(3) s arr d d' rt show ?thesis by auto
    next
      case False
      with 2(3) s arr d obtain ns where ns: "read_elems n (d # ds) = Some (ns, r)" "v = Node (raw_text s r) (JArr ns)"
        by auto
      with 2(1) [OF s arr d False ns(1)] s arr d' False rt show ?thesis by auto
    qed
  next
    case obj
    then have na: "c \<noteq> CHR ''[''" by simp
    with 2(3) s obj obtain d ds where d: "skip_ws cs = d # ds" by (cases "skip_ws cs") auto
    then have d': "skip_ws (cs @ t) = d # ds @ t" by (rule skip_ws_more)
    show ?thesis
    proof (cases "d = CHR ''}''")
      case True
      with 2(3) s obj d d' rt show ?thesis by auto
    next
      case False
      with 2(3) s obj d obtain kvs where kvs: "read_members n (d # ds) = Some (kvs, r)"
        "v = Node (raw_text s r) (JObj kvs)" by auto
      with 2(2) [OF s na obj d False kvs(1)] s obj d' False rt show ?thesis by auto
    qed
  next
    case scalar
    with 2(3) s obtain w where w: "read_scalar s = Some (w, r)" "v = Node (raw_text s r) w" by auto
    with read_scalar_more [OF w(1) 2(4)] s scalar rt show ?thesis by auto
  qed
next
  case (4 n s)
  from 4(3) obtain w r1 where w: "read_value n s = Some (w, r1)" by (auto split: option.splits)
  from 4(3) w obtain d ds where d: "skip_ws r1 = d # ds" by (cases "skip_ws r1") auto
  then have "r1 = [] \<longrightarrow> ends_number t" by (auto simp: skip_ws_def)
  from 4(1) [OF w this] have w': "read_value n (s @ t) = Some (w, r1 @ t)" .
  have d': "skip_ws (r1 @ t) = d # ds @ t" by (rule skip_ws_more [OF d])
  show ?case
  proof (cases "d = CHR '']''")
    case True
    with 4(3) w d w' d' show ?thesis by simp
  next
    case False
    with 4(3) w d obtain ws where c: "d = CHR '',''" and ws: "read_elems n (skip_ws ds) = Some (ws, r)" "vs = w # ws"
      by (auto split: if_splits)
    have "skip_ws ds \<noteq> []" using ws(1) by auto
    then obtain x xs where "skip_ws ds = x # xs" by (cases "skip_ws ds") auto
    then have "skip_ws (ds @ t) = skip_ws ds @ t" using skip_ws_more by simp
    with 4(2) [OF w _ d False c ws(1)] w' d' c ws show ?thesis by simp
  qed
next
  case (6 n s)
  from 6(3) obtain cs us r1 where s: "s = CHR 0x22 # cs" and us: "read_chars cs = Some (us, r1)"
    by (auto split: list.splits option.splits if_splits)
  from 6(3) s us obtain ds where d: "skip_ws r1 = CHR '':'' # ds" by (auto split: list.splits if_splits)
  from 6(3) s us d obtain w r2 where w: "read_value n (skip_ws ds) = Some (w, r2)" by (auto split: option.splits)
  from 6(3) s us d w obtain e es where e: "skip_ws r2 = e # es" by (cases "skip_ws r2") auto
  have us': "read_chars (cs @ t) = Some (us, r1 @ t)" by (rule read_chars_more [OF us])
  have d': "skip_ws (r1 @ t) = CHR '':'' # ds @ t" by (rule skip_ws_more [OF d])
  have "skip_ws ds \<noteq> []" using w by auto
  then obtain x xs where "skip_ws ds = x # xs" by (cases "skip_ws ds") auto
  then have ds': "skip_ws (ds @ t) = skip_ws ds @ t" using skip_ws_more by simp
  have "r2 = [] \<longrightarrow> ends_number t" using e by (auto simp: skip_ws_def)
  with 6(1) [OF s _ us _ d _ w] have w': "read_value n (skip_ws ds @ t) = Some (w, r2 @ t)" by auto
  have e': "skip_ws (r2 @ t) = e # es @ t" by (rule skip_ws_more [OF e])
  show ?case
  proof (cases "e = CHR ''}''")
    case True
    with 6(3) s us d w e us' d' ds' w' e' show ?thesis by simp
  next
    case False
    with 6(3) s us d w e obtain kvs' where c: "e = CHR '',''"
      and kvs: "read_members n (skip_ws es) = Some (kvs', r)" "kvs = (decoded us, w) # kvs'"
      by (auto split: if_splits)
    have "skip_ws es \<noteq> []" using kvs(1) by auto
    then obtain y ys where "skip_ws es = y # ys" by (cases "skip_ws es") auto
    then have "skip_ws (es @ t) = skip_ws es @ t" using skip_ws_more by simp
    with 6(2) [OF s _ us _ d _ w _ e False c kvs(1)] s us' d' ds' w' e' c kvs show ?thesis by simp
  qed
qed simp_all

lemma read_fuel:
  "read_value n s = Some x \<Longrightarrow> n \<le> m \<Longrightarrow> read_value m s = Some x"
  "read_elems n s = Some y \<Longrightarrow> n \<le> m \<Longrightarrow> read_elems m s = Some y"
  "read_members n s = Some z \<Longrightarrow> n \<le> m \<Longrightarrow> read_members m s = Some z"
proof (induction n s and n s and n s arbitrary: x m and y m and z m
    rule: read_value_read_elems_read_members.induct)
  case (2 n s)
  obtain m' where m: "m = Suc m'" "n \<le> m'" using 2(4) by (cases m) auto
  from 2(3) obtain c cs where s: "s = c # cs" by (cases s) auto
  consider (arr) "c = CHR ''[''" | (obj) "c = CHR ''{''" | (scalar) "c \<noteq> CHR ''[''" "c \<noteq> CHR ''{''" by blast
  then show ?case
  proof cases
    case arr
    with 2(3) s obtain d ds where d: "skip_ws cs = d # ds" by (cases "skip_ws cs") auto
    show ?thesis
    proof (cases "d = CHR '']''")
      case True
      with 2(3) s arr d m(1) show ?thesis by simp
    next
      case False
      with 2(3) s arr d obtain ns r where ns: "read_elems n (d # ds) = Some (ns, r)" by auto
      with 2(1) [OF s arr d False ns m(2)] 2(3) s arr d False m(1) show ?thesis by simp
    qed
  next
    case obj
    then have na: "c \<noteq> CHR ''[''" by simp
    with 2(3) s obj obtain d ds where d: "skip_ws cs = d # ds" by (cases "skip_ws cs") auto
    show ?thesis
    proof (cases "d = CHR ''}''")
      case True
      with 2(3) s obj d m(1) show ?thesis by simp
    next
      case False
      with 2(3) s obj d obtain kvs r where kvs: "read_members n (d # ds) = Some (kvs, r)" by auto
      with 2(2) [OF s na obj d False kvs m(2)] 2(3) s obj d False m(1) show ?thesis by simp
    qed
  next
    case scalar
    with 2(3) s m(1) show ?thesis by simp
  qed
next
  case (4 n s)
  obtain m' where m: "m = Suc m'" "n \<le> m'" using 4(4) by (cases m) auto
  from 4(3) obtain w r1 where w: "read_value n s = Some (w, r1)" by (auto split: option.splits)
  from 4(3) w obtain d ds where d: "skip_ws r1 = d # ds" by (cases "skip_ws r1") auto
  have w': "read_value m' s = Some (w, r1)" by (rule 4(1) [OF w m(2)])
  show ?case
  proof (cases "d = CHR '']''")
    case True
    with 4(3) w d w' m(1) show ?thesis by simp
  next
    case False
    with 4(3) w d obtain ws r where c: "d = CHR '',''" and ws: "read_elems n (skip_ws ds) = Some (ws, r)"
      by (auto split: if_splits)
    with 4(2) [OF w _ d False c ws m(2)] 4(3) w d w' False m(1) show ?thesis by simp
  qed
next
  case (6 n s)
  obtain m' where m: "m = Suc m'" "n \<le> m'" using 6(4) by (cases m) auto
  from 6(3) obtain cs us r1 where s: "s = CHR 0x22 # cs" and us: "read_chars cs = Some (us, r1)"
    by (auto split: list.splits option.splits if_splits)
  from 6(3) s us obtain ds where d: "skip_ws r1 = CHR '':'' # ds" by (auto split: list.splits if_splits)
  from 6(3) s us d obtain w r2 where w: "read_value n (skip_ws ds) = Some (w, r2)" by (auto split: option.splits)
  from 6(3) s us d w obtain e es where e: "skip_ws r2 = e # es" by (cases "skip_ws r2") auto
  have w': "read_value m' (skip_ws ds) = Some (w, r2)" using 6(1) [OF s _ us _ d _ w m(2)] by simp
  show ?case
  proof (cases "e = CHR ''}''")
    case True
    with 6(3) s us d w e w' m(1) show ?thesis by simp
  next
    case False
    with 6(3) s us d w e obtain kvs' r where c: "e = CHR '',''" and kvs: "read_members n (skip_ws es) = Some (kvs', r)"
      by (auto split: if_splits)
    with 6(2) [OF s _ us _ d _ w _ e False c kvs m(2)] 6(3) s us d w e w' False m(1) show ?thesis by simp
  qed
qed simp_all

text \<open>Two calls for each byte are enough.\<close>

lemma skip_ws_length: "skip_ws s = d # ds \<Longrightarrow> length ds < length s"
  using skip_ws_step [of s d ds] by auto

lemma skip_ws_shorter: "length (skip_ws s) \<le> length s"
  by (simp add: skip_ws_def length_dropWhile_le)

lemma read_chars_shorter: "read_chars s = Some (us, r) \<Longrightarrow> length r < length s"
  by (auto dest: read_chars_text)

lemma read_number_shorter: "read_number s = Some (v, r) \<Longrightarrow> length r < length s"
proof -
  assume r: "read_number s = Some (v, r)"
  define s' where "s' = (if (case s of c # _ \<Rightarrow> c = CHR ''-'' | [] \<Rightarrow> False) then tl s else s)"
  obtain ds r1 where d: "digits s' = (ds, r1)" by fastforce
  with r obtain frac r2 ex where "ds \<noteq> []" and f: "skip_fraction r1 = Some (frac, r2)"
    and e: "skip_exponent r2 = Some (ex, r)"
    by (auto simp: read_number_def Let_def s'_def split: option.splits if_splits prod.splits)
  moreover have "length s' \<le> length s" by (simp add: s'_def)
  ultimately show ?thesis
    using digits_text [OF d] skip_fraction_text [OF f] skip_exponent_text [OF e] by (cases ds) auto
qed

lemma read_scalar_shorter: "read_scalar s = Some (v, r) \<Longrightarrow> length r < length s"
  using read_number_shorter [of s v r]
  by (cases s) (auto simp: read_scalar_def dest!: read_chars_shorter read_literal_text split: if_splits)

lemma read_enough:
  "read_value n s = Some (v, r) \<Longrightarrow>
     length r < length s \<and> (\<forall>m. 2 * length s \<le> m + 2 * length r \<longrightarrow> read_value m s = Some (v, r))"
  "read_elems n s = Some (vs, r) \<Longrightarrow>
     length r < length s \<and> (\<forall>m. 2 * length s \<le> m + 2 * length r \<longrightarrow> read_elems m s = Some (vs, r))"
  "read_members n s = Some (kvs, r) \<Longrightarrow>
     length r < length s \<and> (\<forall>m. 2 * length s \<le> m + 2 * length r \<longrightarrow> read_members m s = Some (kvs, r))"
proof (induction n s and n s and n s arbitrary: v r and vs r and kvs r
    rule: read_value_read_elems_read_members.induct)
  case (2 n s)
  from 2(3) obtain c cs where s: "s = c # cs" by (cases s) auto
  consider (arr) "c = CHR ''[''" | (obj) "c = CHR ''{''" | (scalar) "c \<noteq> CHR ''[''" "c \<noteq> CHR ''{''" by blast
  then have "length r < length s \<and>
    (\<forall>m. 2 * length s \<le> Suc m + 2 * length r \<longrightarrow> read_value (Suc m) s = Some (v, r))"
  proof cases
    case arr
    with 2(3) s obtain d ds where d: "skip_ws cs = d # ds" by (cases "skip_ws cs") auto
    have l: "length ds < length cs" by (rule skip_ws_length [OF d])
    show ?thesis
    proof (cases "d = CHR '']''")
      case True
      with 2(3) s arr d l show ?thesis by auto
    next
      case False
      with 2(3) s arr d obtain ns where ns: "read_elems n (d # ds) = Some (ns, r)"
        "v = Node (raw_text s r) (JArr ns)" by auto
      have ih: "length r < length (d # ds)" "2 * length (d # ds) \<le> m + 2 * length r \<Longrightarrow>
          read_elems m (d # ds) = Some (ns, r)" for m
        using 2(1) [OF s arr d False ns(1)] by simp_all
      show ?thesis using ih l s arr d False ns(2) by auto
    qed
  next
    case obj
    then have na: "c \<noteq> CHR ''[''" by simp
    with 2(3) s obj obtain d ds where d: "skip_ws cs = d # ds" by (cases "skip_ws cs") auto
    have l: "length ds < length cs" by (rule skip_ws_length [OF d])
    show ?thesis
    proof (cases "d = CHR ''}''")
      case True
      with 2(3) s obj d l show ?thesis by auto
    next
      case False
      with 2(3) s obj d obtain kvs where kvs: "read_members n (d # ds) = Some (kvs, r)"
        "v = Node (raw_text s r) (JObj kvs)" by auto
      have ih: "length r < length (d # ds)" "2 * length (d # ds) \<le> m + 2 * length r \<Longrightarrow>
          read_members m (d # ds) = Some (kvs, r)" for m
        using 2(2) [OF s na obj d False kvs(1)] by simp_all
      show ?thesis using ih l s obj d False kvs(2) by auto
    qed
  next
    case scalar
    with 2(3) s have "read_scalar s = Some (val v, r)" by auto
    with 2(3) s scalar show ?thesis using read_scalar_shorter [of s "val v" r] by auto
  qed
  moreover have "m \<noteq> 0" if "2 * length s \<le> m + 2 * length r" "length r < length s" for m using that by auto
  ultimately show ?case by (metis not0_implies_Suc)
next
  case (4 n s)
  from 4(3) obtain w r1 where w: "read_value n s = Some (w, r1)" by (auto split: option.splits)
  from 4(3) w obtain d ds where d: "skip_ws r1 = d # ds" by (cases "skip_ws r1") auto
  have l: "length ds < length r1" by (rule skip_ws_length [OF d])
  have w': "length r1 < length s" "2 * length s \<le> m + 2 * length r1 \<Longrightarrow> read_value m s = Some (w, r1)" for m
    using 4(1) [OF w] by simp_all
  have "length r < length s \<and>
    (\<forall>m. 2 * length s \<le> Suc m + 2 * length r \<longrightarrow> read_elems (Suc m) s = Some (vs, r))"
  proof (cases "d = CHR '']''")
    case True
    with 4(3) w d w' l show ?thesis by auto
  next
    case False
    with 4(3) w d obtain ws where c: "d = CHR '',''" and ws: "read_elems n (skip_ws ds) = Some (ws, r)" "vs = w # ws"
      by (auto split: if_splits)
    have "length r < length (skip_ws ds)" "2 * length (skip_ws ds) \<le> m + 2 * length r \<Longrightarrow>
        read_elems m (skip_ws ds) = Some (ws, r)" for m
      using 4(2) [OF w _ d False c ws(1)] by simp_all
    with skip_ws_shorter [of ds] w' d l c ws(2) show ?thesis by auto
  qed
  moreover have "m \<noteq> 0" if "2 * length s \<le> m + 2 * length r" "length r < length s" for m using that by auto
  ultimately show ?case by (metis not0_implies_Suc)
next
  case (6 n s)
  from 6(3) obtain cs us r1 where s: "s = CHR 0x22 # cs" and us: "read_chars cs = Some (us, r1)"
    by (auto split: list.splits option.splits if_splits)
  from 6(3) s us obtain ds where d: "skip_ws r1 = CHR '':'' # ds" by (auto split: list.splits if_splits)
  from 6(3) s us d obtain w r2 where w: "read_value n (skip_ws ds) = Some (w, r2)" by (auto split: option.splits)
  from 6(3) s us d w obtain e es where e: "skip_ws r2 = e # es" by (cases "skip_ws r2") auto
  have l: "length r1 < length cs" "length ds < length r1" "length (skip_ws ds) \<le> length ds" "length es < length r2"
    using read_chars_shorter [OF us] skip_ws_length [OF d] skip_ws_shorter [of ds] skip_ws_length [OF e] by simp_all
  have w': "length r2 < length (skip_ws ds)" "2 * length (skip_ws ds) \<le> m + 2 * length r2 \<Longrightarrow>
      read_value m (skip_ws ds) = Some (w, r2)" for m
    using 6(1) [OF s _ us _ d _ w] by simp_all
  have "length r < length s \<and>
    (\<forall>m. 2 * length s \<le> Suc m + 2 * length r \<longrightarrow> read_members (Suc m) s = Some (kvs, r))"
  proof (cases "e = CHR ''}''")
    case True
    with 6(3) s us d w e w' l show ?thesis by auto
  next
    case False
    with 6(3) s us d w e obtain kvs' where c: "e = CHR '',''"
      and kvs: "read_members n (skip_ws es) = Some (kvs', r)" "kvs = (decoded us, w) # kvs'"
      by (auto split: if_splits)
    have "length r < length (skip_ws es)" "2 * length (skip_ws es) \<le> m + 2 * length r \<Longrightarrow>
        read_members m (skip_ws es) = Some (kvs', r)" for m
      using 6(2) [OF s _ us _ d _ w _ e False c kvs(1)] by simp_all
    with skip_ws_shorter [of es] s us d e w' l c kvs(2) show ?thesis by auto
  qed
  moreover have "m \<noteq> 0" if "2 * length s \<le> m + 2 * length r" "length r < length s" for m using that by auto
  ultimately show ?case by (metis not0_implies_Suc)
qed simp_all

section \<open>Documents\<close>

text \<open>A text that is one value, without whitespace around it.\<close>

definition reads_as :: "string \<Rightarrow> node \<Rightarrow> bool" where
  "reads_as t v \<longleftrightarrow> skip_ws t = t \<and> (\<exists>n. read_value n t = Some (v, []))"

lemma reads_before: "reads_as t v \<Longrightarrow> ends_number u \<Longrightarrow> \<exists>n. read_value n (t @ u) = Some (v, u)"
  using read_more(1) by (fastforce simp: reads_as_def)

lemma read_document_eq:
  assumes "read_value n (skip_ws b) = Some (v, r)"
  shows "read_document b = (if skip_ws r = [] then Some v else None)"
proof -
  have "read_value (2 * length b + 2) (skip_ws b) = Some (v, r)"
    using conjunct2 [OF read_enough(1) [OF assms]] skip_ws_shorter [of b] by (simp del: read_value.simps)
  then show ?thesis by (simp add: read_document_def del: read_value.simps)
qed

lemma skip_ws_all: "list_all json_space u \<Longrightarrow> skip_ws (u @ s) = skip_ws s"
  by (induction u) (auto simp: skip_ws_def)

lemma skip_ws_self: "skip_ws t = t \<Longrightarrow> t \<noteq> [] \<Longrightarrow> skip_ws (t @ u) = t @ u"
  using skip_ws_more [of t "hd t" "tl t" u] by (cases t) simp_all

lemma reads_as_nonempty: "reads_as t v \<Longrightarrow> t \<noteq> []"
  by (auto simp: reads_as_def)

lemma reads_as_front: "reads_as t v \<Longrightarrow> skip_ws (t @ u) = t @ u"
  using reads_as_nonempty [of t v] skip_ws_self [of t u] by (simp add: reads_as_def)

text \<open>Whitespace around a value is dropped, anything else after it refused.\<close>

lemma space_ends_number: "list_all json_space u \<Longrightarrow> ends_number u"
  by (cases u) (auto simp: ends_number_def json_space_def json_digit_def)

lemma document_padded:
  assumes "reads_as t v" and "list_all json_space a" and "list_all json_space u"
  shows "read_document (a @ t @ u) = Some v"
proof -
  obtain n where "read_value n (t @ u) = Some (v, u)"
    using reads_before [OF assms(1) space_ends_number [OF assms(3)]] by blast
  moreover have "skip_ws (a @ t @ u) = t @ u"
    using assms(1,2) reads_as_front by (simp add: skip_ws_all)
  moreover have "skip_ws u = []" using skip_ws_all [OF assms(3), of "[]"] by (simp add: skip_ws_def)
  ultimately show ?thesis by (simp add: read_document_eq)
qed

lemma document_garbage:
  assumes "reads_as t v" and "ends_number u" and "skip_ws u \<noteq> []"
  shows "read_document (t @ u) = None"
proof -
  obtain n where "read_value n (t @ u) = Some (v, u)" using reads_before [OF assms(1,2)] by blast
  moreover have "skip_ws (t @ u) = t @ u"
    using assms(1) reads_as_front by blast
  ultimately show ?thesis using assms(3) by (simp add: read_document_eq)
qed

text \<open>The raw text of a value is the text it was read from.\<close>

lemma reads_as_raw: "reads_as t v \<Longrightarrow> raw v = (if is_utf8 t then Some t else None)"
proof -
  assume "reads_as t v"
  then obtain n where "read_value n t = Some (v, [])" by (auto simp: reads_as_def)
  then show ?thesis by (cases n) (auto simp: raw_text_def)
qed

section \<open>Composing documents\<close>

definition array_text :: "string list \<Rightarrow> string" where
  "array_text ts = ''['' @ join '','' ts @ '']''"

definition quoted :: "string \<Rightarrow> string" where
  "quoted k = CHR 0x22 # k @ [CHR 0x22]"

definition object_text :: "(string \<times> string) list \<Rightarrow> string" where
  "object_text fs = ''{'' @ join '','' (map (\<lambda>(k, t). quoted k @ '':'' @ t) fs) @ ''}''"

text \<open>A string that needs no escape.\<close>

definition plain_text :: "string \<Rightarrow> bool" where
  "plain_text k \<longleftrightarrow> list_all (\<lambda>c. c \<noteq> CHR 0x22 \<and> c \<noteq> CHR 0x5C \<and> \<not> is_control c) k \<and> is_utf8 k"

lemma read_chars_plain: "plain_text k \<Longrightarrow> read_chars (k @ CHR 0x22 # u) = Some (map Byte k, u)"
proof -
  have "list_all (\<lambda>c. c \<noteq> CHR 0x22 \<and> c \<noteq> CHR 0x5C \<and> \<not> is_control c) k \<Longrightarrow>
      read_chars (k @ CHR 0x22 # u) = Some (map Byte k, u)" by (induction k) auto
  then show "plain_text k \<Longrightarrow> read_chars (k @ CHR 0x22 # u) = Some (map Byte k, u)" by (simp add: plain_text_def)
qed

lemma decoded_plain: "plain_text k \<Longrightarrow> decoded (map Byte k) = Some k"
  by (simp add: decoded_def decode_bytes plain_text_def)

lemma reads_as_quoted: "plain_text k \<Longrightarrow>
    reads_as (quoted k) (Node (if is_utf8 (quoted k) then Some (quoted k) else None) (JStr (Some k)))"
proof -
  assume k: "plain_text k"
  have "read_value 1 (quoted k) = Some (Node (raw_text (quoted k) []) (JStr (Some k)), [])"
    using read_chars_plain [OF k, of "[]"] decoded_plain [OF k] by (simp add: quoted_def read_scalar_def)
  moreover have "skip_ws (quoted k) = quoted k" by (simp add: quoted_def skip_ws_def json_space_def)
  moreover have "raw_text (quoted k) [] = (if is_utf8 (quoted k) then Some (quoted k) else None)"
    by (simp add: raw_text_def)
  ultimately show ?thesis unfolding reads_as_def by metis
qed

lemma read_elems_join:
  "list_all2 reads_as ts vs \<Longrightarrow> ts \<noteq> [] \<Longrightarrow> \<exists>n. read_elems n (join '','' ts @ CHR '']'' # u) = Some (vs, u)"
proof (induction ts vs rule: list_all2_induct)
  case (Cons t ts v vs)
  have e: "ends_number (c # w)" if "c = CHR '']'' \<or> c = CHR '',''" for c w
    using that by (auto simp: ends_number_def json_digit_def)
  show ?case
  proof (cases "ts = []")
    case True
    obtain n where "read_value n (t @ CHR '']'' # u) = Some (v, CHR '']'' # u)"
      using reads_before [OF Cons.hyps(1)] e by blast
    then have "read_elems (Suc n) (t @ CHR '']'' # u) = Some ([v], u)" by (simp add: skip_ws_def json_space_def)
    moreover have "vs = []" using True Cons.hyps(2) by simp
    ultimately show ?thesis using True by (metis join.simps(2))
  next
    case False
    let ?w = "join '','' ts @ CHR '']'' # u"
    obtain t' ts' where ts: "ts = t' # ts'" using False by (cases ts) auto
    with Cons.hyps(2) obtain v' where "reads_as t' v'" by (auto simp: list_all2_Cons1)
    then have w: "skip_ws ?w = ?w"
      using reads_as_front [of t' v'] ts by (cases ts') simp_all
    obtain n1 where n1: "read_value n1 (t @ CHR '','' # ?w) = Some (v, CHR '','' # ?w)"
      using reads_before [OF Cons.hyps(1)] e by blast
    obtain n2 where n2: "read_elems n2 ?w = Some (vs, u)" using Cons.IH False by blast
    have "read_value (n1 + n2) (t @ CHR '','' # ?w) = Some (v, CHR '','' # ?w)"
      "read_elems (n1 + n2) ?w = Some (vs, u)"
      using read_fuel(1) [OF n1] read_fuel(2) [OF n2] by simp_all
    then have "read_elems (Suc (n1 + n2)) (t @ CHR '','' # ?w) = Some (v # vs, u)"
      using w by (simp add: skip_ws_def json_space_def)
    moreover have "join '','' (t # ts) @ CHR '']'' # u = t @ CHR '','' # ?w" using ts by simp
    ultimately show ?thesis by metis
  qed
qed simp

lemma no_value_bracket: "read_value n (CHR '']'' # s) = None"
  by (cases n) (simp_all add: read_scalar_def read_number_def digits_def json_digit_def)

lemma reads_as_array:
  assumes "list_all2 reads_as ts vs" and "ts \<noteq> []"
  shows "\<exists>rt. reads_as (array_text ts) (Node rt (JArr vs))"
proof -
  obtain n where n: "read_elems n (join '','' ts @ '']'') = Some (vs, [])"
    using read_elems_join [OF assms, of "[]"] by auto
  obtain t ts' v where t: "ts = t # ts'" "reads_as t v"
    using assms by (cases ts) (auto simp: list_all2_Cons1)
  obtain d ds where d: "t = d # ds" using reads_as_nonempty [OF t(2)] by (cases t) auto
  have nb: "d \<noteq> CHR '']''" using t(2) no_value_bracket d by (auto simp: reads_as_def)
  obtain w where w: "join '','' ts @ '']'' = d # w" using t(1) d by (cases ts') auto
  have "\<exists>u. join '','' ts @ '']'' = t @ u" using t(1) by (cases ts') simp_all
  then have "skip_ws (d # w) = d # w" using reads_as_front [OF t(2)] w by metis
  then have "read_value (Suc n) (array_text ts) = Some (Node (raw_text (array_text ts) []) (JArr vs), [])"
    using n w nb by (simp add: array_text_def)
  moreover have "skip_ws (array_text ts) = array_text ts" by (simp add: array_text_def skip_ws_def json_space_def)
  ultimately show ?thesis unfolding reads_as_def by blast
qed

lemma read_members_join:
  "list_all2 (\<lambda>(k, t) (k', v). plain_text k \<and> k' = Some k \<and> reads_as t v) fs kvs \<Longrightarrow> fs \<noteq> [] \<Longrightarrow>
   \<exists>n. read_members n (join '','' (map (\<lambda>(k, t). quoted k @ '':'' @ t) fs) @ CHR ''}'' # u) = Some (kvs, u)"
proof (induction fs kvs rule: list_all2_induct)
  case (Cons f fs kv kvs)
  obtain k t v where f: "f = (k, t)" "kv = (Some k, v)" "plain_text k" "reads_as t v"
    using Cons.hyps(1) by (cases f; cases kv) auto
  have e: "ends_number (c # w)" if "c = CHR ''}'' \<or> c = CHR '',''" for c w
    using that by (auto simp: ends_number_def json_digit_def)
  have k: "read_chars (k @ CHR 0x22 # w) = Some (map Byte k, w)" "decoded (map Byte k) = Some k" for w
    using f(3) by (simp_all add: read_chars_plain decoded_plain)
  have t: "skip_ws (t @ w) = t @ w" for w by (rule reads_as_front [OF f(4)])
  have sp: "skip_ws (CHR '':'' # w) = CHR '':'' # w" "skip_ws (CHR '','' # w) = CHR '','' # w"
    "skip_ws (CHR ''}'' # w) = CHR ''}'' # w" "skip_ws (CHR 0x22 # w) = CHR 0x22 # w" for w
    by (simp_all add: skip_ws_def json_space_def)
  show ?case
  proof (cases "fs = []")
    case True
    obtain n where "read_value n (t @ CHR ''}'' # u) = Some (v, CHR ''}'' # u)"
      using reads_before [OF f(4)] e by blast
    then have "read_members (Suc n) (CHR 0x22 # k @ CHR 0x22 # CHR '':'' # t @ CHR ''}'' # u) = Some ([kv], u)"
      using k t sp f(2) by simp
    moreover have "kvs = []" using True Cons.hyps(2) by simp
    ultimately show ?thesis using True f(1) by (intro exI [of _ "Suc n"]) (simp add: quoted_def)
  next
    case False
    let ?w = "join '','' (map (\<lambda>(k, t). quoted k @ '':'' @ t) fs) @ CHR ''}'' # u"
    obtain f' fs' where fs: "fs = f' # fs'" using False by (cases fs) auto
    have w: "skip_ws ?w = ?w" using fs sp(4) by (cases f'; cases fs') (simp_all add: quoted_def)
    obtain n1 where n1: "read_value n1 (t @ CHR '','' # ?w) = Some (v, CHR '','' # ?w)"
      using reads_before [OF f(4)] e by blast
    obtain n2 where n2: "read_members n2 ?w = Some (kvs, u)" using Cons.IH False by blast
    have "read_value (n1 + n2) (t @ CHR '','' # ?w) = Some (v, CHR '','' # ?w)"
      "read_members (n1 + n2) ?w = Some (kvs, u)"
      using read_fuel(1) [OF n1] read_fuel(3) [OF n2] by simp_all
    then have "read_members (Suc (n1 + n2)) (CHR 0x22 # k @ CHR 0x22 # CHR '':'' # t @ CHR '','' # ?w) = Some (kv # kvs, u)"
      using k t sp w f(2) by simp
    moreover have "join '','' (map (\<lambda>(k, t). quoted k @ '':'' @ t) (f # fs)) @ CHR ''}'' # u =
        CHR 0x22 # k @ CHR 0x22 # CHR '':'' # t @ CHR '','' # ?w" using fs f(1) by (simp add: quoted_def)
    ultimately show ?thesis by metis
  qed
qed simp

lemma reads_as_object:
  assumes "list_all2 (\<lambda>(k, t) (k', v). plain_text k \<and> k' = Some k \<and> reads_as t v) fs kvs" and "fs \<noteq> []"
  shows "\<exists>rt. reads_as (object_text fs) (Node rt (JObj kvs))"
proof -
  obtain n where n: "read_members n (join '','' (map (\<lambda>(k, t). quoted k @ '':'' @ t) fs) @ ''}'') = Some (kvs, [])"
    using read_members_join [OF assms, of "[]"] by auto
  obtain f fs' where "fs = f # fs'" using assms(2) by (cases fs) auto
  then obtain w where w: "join '','' (map (\<lambda>(k, t). quoted k @ '':'' @ t) fs) @ ''}'' = CHR 0x22 # w"
    by (cases f; cases fs') (auto simp: quoted_def)
  have "skip_ws (CHR 0x22 # w) = CHR 0x22 # w" by (simp add: skip_ws_def json_space_def)
  then have "read_value (Suc n) (object_text fs) = Some (Node (raw_text (object_text fs) []) (JObj kvs), [])"
    using n w by (simp add: object_text_def)
  moreover have "skip_ws (object_text fs) = object_text fs" by (simp add: object_text_def skip_ws_def json_space_def)
  ultimately show ?thesis unfolding reads_as_def by blast
qed

lemma serde_slice [simp]: "from_slice serde = read_document"
  by (simp add: serde_def)

text \<open>Evaluating one value.\<close>

definition one_value :: "string \<Rightarrow> node option" where
  "one_value t =
     (case read_value 60 t of
        Some (v, []) \<Rightarrow> if skip_ws t = t then Some v else None
      | _ \<Rightarrow> None)"

lemma one_value_reads: "one_value t = Some v \<Longrightarrow> reads_as t v"
  by (auto simp: one_value_def reads_as_def split: option.splits list.splits if_splits)

end
