(* ===== verification/Unit_Tests.thy ===== *)
theory Unit_Tests
  imports Proxy Cli
begin

text \<open>
  The unit tests of the repository, run on the model. Each definition is one \<open>#[test]\<close> function, its
  assertions as one proposition; the lemmas show that they hold. Where a test calls a parser of the
  \<open>http\<close> crate, the instance \<open>rfc_api\<close> stands for it, where it calls clap, \<open>reference_clap\<close>.
  That a refused offer leaves the headers as they were needs no assertion: the model's error holds none.
\<close>

section \<open>Building inputs\<close>

definition append_header :: "HeaderMap \<Rightarrow> HeaderName \<Rightarrow> HeaderValue \<Rightarrow> HeaderMap" where
  "append_header m n v = m(n := m n @ [v])"

text \<open>\<open>h\<close> of the tests of \<open>headers.rs\<close>; a \<open>HeaderMap\<close> takes names in any case.\<close>

definition header_map :: "(string \<times> string) list \<Rightarrow> HeaderMap" where
  "header_map pairs =
     fold (\<lambda>(k, v) m. append_header m (map to_ascii_lowercase k) v) pairs empty_headers"

lemma header_map_eval [code]:
  "header_map pairs = (\<lambda>n. map snd (filter (\<lambda>(k, v). map to_ascii_lowercase k = n) pairs))"
proof
  fix n
  have "fold (\<lambda>(k, v) m. append_header m (map to_ascii_lowercase k) v) pairs m n =
      m n @ map snd (filter (\<lambda>(k, v). map to_ascii_lowercase k = n) pairs)" for m
    by (induction pairs arbitrary: m) (auto simp: append_header_def)
  then show "header_map pairs n = map snd (filter (\<lambda>(k, v). map to_ascii_lowercase k = n) pairs)"
    by (simp add: header_map_def empty_headers_def)
qed

text \<open>\<open>HeaderMap::len\<close>, of a map whose names are among the given ones.\<close>

definition header_count :: "HeaderName list \<Rightarrow> HeaderMap \<Rightarrow> nat" where
  "header_count names m = sum_list (map (\<lambda>n. length (m n)) (remdups names))"

text \<open>A URI literal: \<open>scheme://authority\<close> with an optional path and query, or a path and query.\<close>

definition literal_pq :: "string \<Rightarrow> PathAndQuery" where
  "literal_pq s =
     (let p = takeWhile (\<lambda>c. c \<noteq> CHR ''?'') s; r = drop (length p) s
      in \<lparr>pq_path = (if p = [] then ''/'' else p), pq_query = (if r = [] then None else Some (tl r))\<rparr>)"

fun after_scheme :: "string \<Rightarrow> (string \<times> string) option" where
  "after_scheme [] = None"
| "after_scheme (c # s) =
     (if prefix ''://'' (c # s) then Some ([], drop 2 s)
      else map_option (\<lambda>(t, r). (c # t, r)) (after_scheme s))"

definition literal_uri :: "string \<Rightarrow> Uri" where
  "literal_uri s =
     (case (if prefix ''/'' s then None else after_scheme s) of
        None \<Rightarrow> \<lparr>scheme_str = None, authority = None, path_and_query = Some (literal_pq s)\<rparr>
      | Some (scheme, r) \<Rightarrow>
          (let auth = takeWhile (\<lambda>c. c \<noteq> CHR ''/'' \<and> c \<noteq> CHR ''?'' \<and> c \<noteq> CHR ''#'') r
           in \<lparr>scheme_str = Some scheme, authority = Some auth,
               path_and_query = Some (literal_pq (takeWhile (\<lambda>c. c \<noteq> CHR ''#'') (drop (length auth) r)))\<rparr>))"

section \<open>\<open>headers.rs\<close>\<close>

definition removes_known_hop_by_hop :: bool where
  "removes_known_hop_by_hop \<longleftrightarrow>
     (let m = strip_hop_by_hop rfc_api (header_map
        [(''host'', ''example.com''), (''connection'', ''keep-alive''), (''content-length'', ''42''),
         (''transfer-encoding'', ''chunked''), (''upgrade'', ''websocket''),
         (''content-type'', ''application/json'')])
      in \<not> contains_key m ''host'' \<and> \<not> contains_key m ''connection'' \<and> \<not> contains_key m ''content-length''
         \<and> \<not> contains_key m ''transfer-encoding'' \<and> \<not> contains_key m ''upgrade''
         \<and> contains_key m ''content-type'')"

definition is_case_insensitive_via_canonical_lookup :: bool where
  "is_case_insensitive_via_canonical_lookup \<longleftrightarrow>
     header_count [''host'', ''connection'', ''close'']
       (strip_hop_by_hop rfc_api (header_map [(''Host'', ''x''), (''CONNECTION'', ''close''), (''Close'', ''1'')])) = 0"

definition empty_map_is_noop :: bool where
  "empty_map_is_noop \<longleftrightarrow> strip_hop_by_hop rfc_api empty_headers = empty_headers"

definition preserves_unrelated_headers :: bool where
  "preserves_unrelated_headers \<longleftrightarrow>
     header_count [''authorization'', ''x-custom'', ''user-agent'']
       (strip_hop_by_hop rfc_api (header_map
          [(''authorization'', ''Bearer x''), (''x-custom'', ''1''), (''user-agent'', ''ethryx'')])) = 3"

definition removes_options_from_every_connection_field :: bool where
  "removes_options_from_every_connection_field \<longleftrightarrow>
     (let m = strip_hop_by_hop rfc_api (header_map
        [(''connection'', ''keep-alive, X-One, , connection''),
         (''connection'', CHR 0x09 # ''X-TWO'' @ CHR 0x09 # '', X-One''),
         (''x-one'', ''first''), (''x-one'', ''second''), (''x-two'', ''third''),
         (''proxy-connection'', ''keep-alive''), (''authorization'', ''Bearer token'')])
      in header_count [''connection'', ''x-one'', ''x-two'', ''proxy-connection'', ''authorization''] m = 1
         \<and> get_header m ''authorization'' = Some ''Bearer token'')"

definition invalid_options_do_not_hide_valid_options :: bool where
  "invalid_options_do_not_hide_valid_options \<longleftrightarrow>
     (let m = header_map
        [(''connection'', ''bad option, x-remove, :invalid, ,''), (''x-remove'', ''removed''), (''x-keep'', ''kept'')];
          m = append_header m ''connection'' (CHR 0xFF # '', x-last'');
          m = insert_header m ''x-last'' ''removed'';
          m = strip_hop_by_hop rfc_api m
      in header_count [''connection'', ''x-remove'', ''x-keep'', ''x-last''] m = 1
         \<and> get_header m ''x-keep'' = Some ''kept'')"

lemma headers_tests:
  removes_known_hop_by_hop is_case_insensitive_via_canonical_lookup preserves_unrelated_headers
  removes_options_from_every_connection_field invalid_options_do_not_hide_valid_options
  by code_simp+

lemma headers_test_empty: empty_map_is_noop
  by (simp add: empty_map_is_noop_def fun_eq_iff strip_hop_by_hop_apply empty_headers_def)

section \<open>\<open>config.rs\<close>\<close>

definition presets_match_known_genesis_times :: bool where
  "presets_match_known_genesis_times \<longleftrightarrow>
     preset_genesis_time Mainnet = Some 1606824023 \<and> preset_genesis_time Hoodi = Some 1742213400
     \<and> preset_genesis_time Sepolia = Some 1655733600 \<and> preset_genesis_time Holesky = Some 1695902400"

definition presets_use_ethereum_slot_duration :: bool where
  "presets_use_ethereum_slot_duration \<longleftrightarrow>
     list_all (\<lambda>n. preset_seconds_per_slot n = Some 12) [Mainnet, Hoodi, Sepolia, Holesky]"

definition custom_has_no_presets :: bool where
  "custom_has_no_presets \<longleftrightarrow> preset_genesis_time Custom = None \<and> preset_seconds_per_slot Custom = None"

text \<open>\<open>parse\<close> of the tests: it panics when clap refuses.\<close>

definition try_parse :: "string list \<Rightarrow> Config option" where
  "try_parse argv = parse_config reference_clap Map.empty argv"

definition parses :: "string list \<Rightarrow> (Config \<Rightarrow> bool) \<Rightarrow> bool" where
  "parses extra P \<longleftrightarrow> (case try_parse extra of None \<Rightarrow> False | Some c \<Rightarrow> P c)"

definition explicit_genesis_overrides_network_preset :: bool where
  "explicit_genesis_overrides_network_preset \<longleftrightarrow>
     parses [''--network'', ''hoodi'', ''--cl-genesis-time'', ''999''] (\<lambda>c. resolve_cl_genesis_time c = Inr 999)"

definition network_preset_used_when_genesis_not_provided :: bool where
  "network_preset_used_when_genesis_not_provided \<longleftrightarrow>
     parses [''--network'', ''sepolia''] (\<lambda>c. resolve_cl_genesis_time c = Inr 1655733600
       \<and> resolve_cl_seconds_per_slot c = Inr 12)"

definition custom_without_genesis_fails :: bool where
  "custom_without_genesis_fails \<longleftrightarrow>
     parses [''--network'', ''custom''] (\<lambda>c. isl (resolve_cl_genesis_time c) \<and> isl (resolve_cl_seconds_per_slot c))"

definition custom_with_explicit_values_resolves :: bool where
  "custom_with_explicit_values_resolves \<longleftrightarrow>
     parses [''--network'', ''custom'', ''--cl-genesis-time'', ''1700000000'', ''--cl-seconds-per-slot'', ''6'']
       (\<lambda>c. resolve_cl_genesis_time c = Inr 1700000000 \<and> resolve_cl_seconds_per_slot c = Inr 6)"

definition cl_genesis_zero_disables_check_but_still_resolves :: bool where
  "cl_genesis_zero_disables_check_but_still_resolves \<longleftrightarrow>
     parses [''--cl-genesis-time'', ''0''] (\<lambda>c. resolve_cl_genesis_time c = Inr 0)"

definition listen_accepts_repeated_flag :: bool where
  "listen_accepts_repeated_flag \<longleftrightarrow>
     parses [''--listen'', ''127.0.0.1:1'', ''--listen'', ''127.0.0.1:2'']
       (\<lambda>c. listen c = [''127.0.0.1:1'', ''127.0.0.1:2''])"

definition listen_accepts_comma_separated :: bool where
  "listen_accepts_comma_separated \<longleftrightarrow>
     parses [''--listen'', ''127.0.0.1:1,127.0.0.1:2,127.0.0.1:3'']
       (\<lambda>c. length (listen c) = 3 \<and> listen c ! 2 = ''127.0.0.1:3'')"

definition readyz_strict_defaults_off :: bool where
  "readyz_strict_defaults_off \<longleftrightarrow> parses [] (\<lambda>c. \<not> readyz_strict c)"

definition readyz_strict_bare_flag_enables :: bool where
  "readyz_strict_bare_flag_enables \<longleftrightarrow> parses [''--readyz-strict''] readyz_strict"

definition readyz_strict_accepts_explicit_bool :: bool where
  "readyz_strict_accepts_explicit_bool \<longleftrightarrow>
     parses [''--readyz-strict'', ''true''] readyz_strict
     \<and> parses [''--readyz-strict'', ''false''] (\<lambda>c. \<not> readyz_strict c)"

definition health_poll_interval_defaults_to_1s :: bool where
  "health_poll_interval_defaults_to_1s \<longleftrightarrow> parses [] (\<lambda>c. health_poll_interval c = 1)"

definition log_level_defaults_to_info :: bool where
  "log_level_defaults_to_info \<longleftrightarrow> parses [] (\<lambda>c. log_level c = ''info'')"

definition access_log_defaults_off :: bool where
  "access_log_defaults_off \<longleftrightarrow> parses [] (\<lambda>c. \<not> access_log c)"

definition access_log_bare_flag_enables :: bool where
  "access_log_bare_flag_enables \<longleftrightarrow> parses [''--access-log''] access_log"

definition trust_upstream_defaults_off :: bool where
  "trust_upstream_defaults_off \<longleftrightarrow> parses [] (\<lambda>c. \<not> trust_upstream c)"

definition trust_upstream_bare_flag_enables :: bool where
  "trust_upstream_bare_flag_enables \<longleftrightarrow> parses [''--trust-upstream''] trust_upstream"

definition log_level_rejects_unknown_value :: bool where
  "log_level_rejects_unknown_value \<longleftrightarrow> try_parse [''--log-level'', ''bogus''] = None"

definition parse_secs_accepts_integer :: bool where
  "parse_secs_accepts_integer \<longleftrightarrow> parse_secs id ''30'' = Inr 30 \<and> parse_secs id ''0'' = Inr 0"

definition parse_secs_rejects_non_integer :: bool where
  "parse_secs_rejects_non_integer \<longleftrightarrow>
     isl (parse_secs id ''abc'') \<and> isl (parse_secs id ''3.14'') \<and> isl (parse_secs id ''-1'')"

text \<open>What clap's instance and the attributes make of the command lines of the tests.\<close>

lemma parsed_hoodi:
  "try_parse [''--network'', ''hoodi'', ''--cl-genesis-time'', ''999''] =
     Some (default_config\<lparr>network := Hoodi, cfg_cl_genesis_time := Some 999\<rparr>)"
  by code_simp

lemma parsed_custom_values:
  "try_parse [''--network'', ''custom'', ''--cl-genesis-time'', ''1700000000'', ''--cl-seconds-per-slot'', ''6''] =
     Some (default_config\<lparr>network := Custom, cfg_cl_genesis_time := Some 1700000000,
       cfg_cl_seconds_per_slot := Some 6\<rparr>)"
  by code_simp

lemma parsed_zero:
  "try_parse [''--cl-genesis-time'', ''0''] = Some (default_config\<lparr>cfg_cl_genesis_time := Some 0\<rparr>)"
  by code_simp

lemma parsed_sepolia:
  "try_parse [''--network'', ''sepolia''] = Some (default_config\<lparr>network := Sepolia\<rparr>)"
  by code_simp

lemma parsed_custom:
  "try_parse [''--network'', ''custom''] = Some (default_config\<lparr>network := Custom\<rparr>)"
  by code_simp

lemma parsed_bogus:
  "try_parse [''--log-level'', ''bogus''] = None"
  by code_simp

lemma parsed_repeated:
  "try_parse [''--listen'', ''127.0.0.1:1'', ''--listen'', ''127.0.0.1:2''] =
     Some (default_config\<lparr>listen := [''127.0.0.1:1'', ''127.0.0.1:2'']\<rparr>)"
  by code_simp

lemma parsed_commas:
  "try_parse [''--listen'', ''127.0.0.1:1,127.0.0.1:2,127.0.0.1:3''] =
     Some (default_config\<lparr>listen := [''127.0.0.1:1'', ''127.0.0.1:2'', ''127.0.0.1:3'']\<rparr>)"
  by code_simp

lemma parsed_nothing:
  "try_parse [] = Some default_config"
  by code_simp

lemma parsed_strict:
  "try_parse [''--readyz-strict''] = Some (default_config\<lparr>readyz_strict := True\<rparr>)"
  by code_simp

lemma parsed_strict_true:
  "try_parse [''--readyz-strict'', ''true''] = Some (default_config\<lparr>readyz_strict := True\<rparr>)"
  by code_simp

lemma parsed_strict_false:
  "try_parse [''--readyz-strict'', ''false''] = Some default_config"
  by code_simp

lemma parsed_access_log:
  "try_parse [''--access-log''] = Some (default_config\<lparr>access_log := True\<rparr>)"
  by code_simp

lemma parsed_trust:
  "try_parse [''--trust-upstream''] = Some (default_config\<lparr>trust_upstream := True\<rparr>)"
  by code_simp

lemmas parsed = parsed_hoodi parsed_custom_values parsed_zero parsed_sepolia parsed_custom parsed_bogus parsed_repeated
  parsed_commas parsed_nothing parsed_strict parsed_strict_true parsed_strict_false parsed_access_log parsed_trust

lemma preset_tests: presets_match_known_genesis_times presets_use_ethereum_slot_duration custom_has_no_presets
  by (simp_all add: presets_match_known_genesis_times_def presets_use_ethereum_slot_duration_def
      custom_has_no_presets_def)

lemma resolution_tests:
  explicit_genesis_overrides_network_preset network_preset_used_when_genesis_not_provided
  custom_without_genesis_fails custom_with_explicit_values_resolves
  cl_genesis_zero_disables_check_but_still_resolves
  by (simp_all add: explicit_genesis_overrides_network_preset_def network_preset_used_when_genesis_not_provided_def
      custom_without_genesis_fails_def custom_with_explicit_values_resolves_def
      cl_genesis_zero_disables_check_but_still_resolves_def parses_def parsed resolve_cl_genesis_time_def
      resolve_cl_seconds_per_slot_def default_config_def)

lemma flag_tests:
  listen_accepts_repeated_flag listen_accepts_comma_separated readyz_strict_defaults_off
  readyz_strict_bare_flag_enables readyz_strict_accepts_explicit_bool health_poll_interval_defaults_to_1s
  log_level_defaults_to_info access_log_defaults_off access_log_bare_flag_enables trust_upstream_defaults_off
  trust_upstream_bare_flag_enables log_level_rejects_unknown_value
  by (simp_all add: listen_accepts_repeated_flag_def listen_accepts_comma_separated_def
      readyz_strict_defaults_off_def readyz_strict_bare_flag_enables_def readyz_strict_accepts_explicit_bool_def
      health_poll_interval_defaults_to_1s_def log_level_defaults_to_info_def access_log_defaults_off_def
      access_log_bare_flag_enables_def trust_upstream_defaults_off_def trust_upstream_bare_flag_enables_def
      log_level_rejects_unknown_value_def parses_def parsed default_config_def)

lemma seconds_tests: parse_secs_accepts_integer parse_secs_rejects_non_integer
  by code_simp+

section \<open>\<open>lib.rs\<close>\<close>

definition test_method_to_static_str :: bool where
  "test_method_to_static_str \<longleftrightarrow>
     method_to_static_str GET = ''GET'' \<and> method_to_static_str POST = ''POST''
     \<and> method_to_static_str CONNECT = ''CONNECT'' \<and> method_to_static_str ''OPTIONS'' = ''OPTIONS''
     \<and> method_to_static_str ''PURGE'' = ''OTHER''"

definition test_status_to_static_str :: bool where
  "test_status_to_static_str \<longleftrightarrow>
     status_to_static_str 200 = ''200'' \<and> status_to_static_str 404 = ''404'' \<and> status_to_static_str 502 = ''502''
     \<and> status_to_static_str 418 = ''OTHER'' \<and> status_to_static_str 307 = ''OTHER''"

lemma labels_tests: test_method_to_static_str test_status_to_static_str
  by code_simp+

section \<open>\<open>otel.rs\<close>\<close>

definition otlp_signal_paths_preserve_the_base_path :: bool where
  "otlp_signal_paths_preserve_the_base_path \<longleftrightarrow>
     (let A = rfc_api\<lparr>parse_uri := (\<lambda>s. Inr (literal_uri s))\<rparr> in
      list_all (\<lambda>base. signal_endpoint A base ''traces'' = Inr ''https://collector:4318/prefix/v1/traces''
          \<and> signal_endpoint A base ''metrics'' = Inr ''https://collector:4318/prefix/v1/metrics'')
        [''https://collector:4318/prefix'', ''https://collector:4318/prefix/'']
      \<and> list_all (\<lambda>invalid. isl (signal_endpoint A invalid ''traces''))
          [''collector:4318'', ''ftp://collector'', ''http://collector?x=1'', ''http://collector/#fragment''])"

lemma otel_test: otlp_signal_paths_preserve_the_base_path
  by code_simp


section \<open>\<open>proxy.rs\<close>\<close>

definition test_is_cl_path :: bool where
  "test_is_cl_path \<longleftrightarrow>
     list_all is_cl_path
       [''/eth'', ''/eth/'', ''/eth/v1/node/syncing'', ''/teku'', ''/teku/'', ''/teku/v1/node/syncing'',
        ''/prysm'', ''/prysm/'', ''/prysm/v1/node/syncing'', ''/nimbus'', ''/nimbus/'', ''/nimbus/v1/node/syncing'',
        ''/lodestar'', ''/lodestar/'', ''/lodestar/v1/node/syncing'',
        ''/lighthouse'', ''/lighthouse/'', ''/lighthouse/v1/node/syncing'']
     \<and> list_all (\<lambda>p. \<not> is_cl_path p)
       [''/'', [], ''/healthz'', ''/readyz'', ''/livez'', ''/lighthousestuff'', ''/prys'', ''eth'']"

text \<open>\<open>Request::builder()\<close> with a URI and headers.\<close>

definition build_request :: "Version \<Rightarrow> Method \<Rightarrow> string \<Rightarrow> (string \<times> string) list \<Rightarrow> string option \<Rightarrow> Request" where
  "build_request v meth uri hs protocol =
     \<lparr>req_method = meth, req_uri = literal_uri uri, req_version = v, req_headers = header_map hs,
      protocol_ext = protocol, req_body = Full []\<rparr>"

definition test_classify_request :: bool where
  "test_classify_request \<longleftrightarrow>
     classify_request rfc_api (build_request HTTP_11 GET ''/eth/v1/node/syncing'' [] None) = ProxyRoute Cl
     \<and> classify_request rfc_api (build_request HTTP_11 GET ''/'' [] None) = ProxyRoute El
     \<and> classify_request rfc_api (build_request HTTP_11 GET ''/''
          [(''connection'', ''upgrade''), (''upgrade'', ''websocket'')] None) = ProxyRoute (WebSocket Upgrade)
     \<and> classify_request rfc_api (build_request HTTP_2 CONNECT ''/'' [] (Some ''websocket''))
        = ProxyRoute (WebSocket ExtendedConnect)"

definition routing_preserves_probe_and_cl_precedence :: bool where
  "routing_preserves_probe_and_cl_precedence \<longleftrightarrow>
     list_all (\<lambda>(path, p).
       list_all (\<lambda>meth.
         (let req = build_request HTTP_11 meth (path @ ''?check=1'') [] None;
              expected = (if meth = GET \<or> meth = HEAD then ProbeRoute p else ProxyRoute El)
          in classify_request rfc_api req = expected
             \<and> (if meth = CONNECT
                then classify_request rfc_api (req\<lparr>req_version := HTTP_2, protocol_ext := Some ''websocket''\<rparr>)
                     = ProxyRoute (WebSocket ExtendedConnect)
                else classify_request rfc_api (req\<lparr>req_headers :=
                       insert_header (insert_header (req_headers req) ''connection'' ''keep-alive, Upgrade'')
                         ''upgrade'' ''WebSocket''\<rparr>)
                     = (if meth = POST then ProxyRoute (WebSocket Upgrade) else expected))))
         [GET, HEAD, POST, CONNECT])
       [(''/healthz'', HealthProbe), (''/readyz'', ReadyProbe), (''/livez'', LiveProbe), (''/metrics'', MetricsProbe)]
     \<and> list_all (\<lambda>path. classify_request rfc_api (build_request HTTP_11 CONNECT path
          [(''connection'', ''upgrade''), (''upgrade'', ''websocket'')] (Some ''websocket'')) = ProxyRoute Cl)
         [''/eth'', ''/eth/v1/node/health'', ''/lighthouse/peers'']
     \<and> classify_request rfc_api (build_request HTTP_11 CONNECT ''/'' [] (Some ''other'')) = ProxyRoute El"

definition upstream_uri_separates_path_joining_from_query_merging :: bool where
  "upstream_uri_separates_path_joining_from_query_merging \<longleftrightarrow>
     list_all (\<lambda>(base, inbound, override_path, expected).
       case upstream_uri rfc_api (literal_uri base) (literal_uri inbound) override_path of
         Inl _ \<Rightarrow> False
       | Inr uri \<Rightarrow> map_option (\<lambda>pq. show_pq (pq_path pq) (pq_query pq)) (path_and_query uri) = Some expected)
     [(''http://127.0.0.1:8545'', ''/'', None, ''/''),
      (''http://127.0.0.1:8545/'', ''/'', None, ''/''),
      (''http://127.0.0.1:5052'', ''/eth/v1/node/syncing'', None, ''/eth/v1/node/syncing''),
      (''http://127.0.0.1:5052/'', ''/eth/v1/node/syncing?tag=1'', None, ''/eth/v1/node/syncing?tag=1''),
      (''http://127.0.0.1:5052'', ''/eth/v1/validator/register_validator?tag=1'',
         Some ''/eth/v1/builder/validators'', ''/eth/v1/builder/validators?tag=1''),
      (''http://127.0.0.1:8545/rpc/'', ''/'', None, ''/rpc/''),
      (''http://127.0.0.1:8545/rpc/'', ''/?tag=1'', None, ''/rpc/?tag=1''),
      (''http://127.0.0.1:8545/rpc?api_key=secret'', ''/'', None, ''/rpc?api_key=secret''),
      (''http://127.0.0.1:8545/rpc?api_key=secret'', ''/?tag=1'', None, ''/rpc?api_key=secret&tag=1''),
      (''http://127.0.0.1:8545/rpc?api_key=secret'', ''/extra'', None, ''/rpc/extra?api_key=secret''),
      (''http://127.0.0.1:8545/rpc?api_key=secret'', ''/extra?tag=1'', None, ''/rpc/extra?api_key=secret&tag=1''),
      (''https://relay.example/prefix?api_key=secret'', ''/eth/v1/validator/register_validator?tag=1'',
         Some ''/eth/v1/builder/validators'', ''/prefix/eth/v1/builder/validators?api_key=secret&tag=1'')]"

text \<open>The length limit of a URI is only looked at for long texts.\<close>

lemma rfc_parse_pq_eval [code]:
  "rfc_parse_pq s =
     (if prefix ''/'' s \<and> list_all query_char s \<and> (if length s \<le> 100 then True else length s \<le> max_uri_len)
      then (let p = takeWhile (\<lambda>c. c \<noteq> CHR ''?'') s; r = drop (length p) s
            in Inr \<lparr>pq_path = p, pq_query = (if r = [] then None else Some (tl r))\<rparr>)
      else Inl ''invalid uri character'')"
proof -
  have "(if length s \<le> 100 then True else length s \<le> max_uri_len) = (length s \<le> max_uri_len)"
    by (simp add: max_uri_len_def)
  then show ?thesis by (simp only: rfc_parse_pq_def)
qed

lemma proxy_tests:
  test_is_cl_path test_classify_request routing_preserves_probe_and_cl_precedence
  by code_simp+

lemma proxy_uri_test: upstream_uri_separates_path_joining_from_query_merging
  by code_simp

section \<open>\<open>websocket.rs\<close>\<close>

definition subprotocol_offers_preserve_all_lines_and_reject_invalid_tokens :: bool where
  "subprotocol_offers_preserve_all_lines_and_reject_invalid_tokens \<longleftrightarrow>
     list_all (\<lambda>(vals, expected).
       let headers = insert_header empty_headers ''x-preserved'' ''original'';
           headers = fold (\<lambda>v m. append_header m ''sec-websocket-protocol'' v) vals headers
       in case (normalize_subprotocols rfc_api headers, expected) of
            (Inr m, Some expected) \<Rightarrow>
              get_header m ''x-preserved'' = Some ''original''
              \<and> (case get_header m ''sec-websocket-protocol'' of None \<Rightarrow> [] | Some v \<Rightarrow> v) = expected
              \<and> length (get_all m ''sec-websocket-protocol'') \<le> 1
          | (Inl _, None) \<Rightarrow> True
          | _ \<Rightarrow> False)
     [([], Some []),
      ([''first'', ''second, Third''], Some ''first, second, Third''),
      ([('' first'' @ CHR 0x09 # '',second ''), ''THIRD''], Some ''first, second, THIRD''),
      ([''first'', ''First''], Some ''first, First''),
      ([''rpc.v2, rpc'', ''RPC''], Some ''rpc.v2, rpc, RPC''),
      ([''!#$%&'' @ CHR 0x27 # ''*+-.^_`|~''], Some (''!#$%&'' @ CHR 0x27 # ''*+-.^_`|~'')),
      ([''first'', ''first''], None),
      ([''first, first''], None),
      ([''first, second'', ''Third, first''], None),
      ([''first, second'', CHR 0x09 # ''second ''], None),
      ([''first'', [], ''second''], None),
      ([''first'', CHR 0x09 # '' '', ''second''], None),
      ([''first'', '',second''], None),
      ([[]], None),
      ([''first,''], None),
      ([''first,,second''], None),
      ([''not a token''], None),
      ([''first/second''], None),
      ([CHR 0x22 # ''first'' @ [CHR 0x22]], None)]"

definition subprotocol_offers_reject_non_ascii_without_replacing_headers :: bool where
  "subprotocol_offers_reject_non_ascii_without_replacing_headers \<longleftrightarrow>
     (let headers = append_header empty_headers ''sec-websocket-protocol'' ''valid'';
          headers = append_header headers ''sec-websocket-protocol'' (''other, '' @ [CHR 0xFF])
      in isl (normalize_subprotocols rfc_api headers))"

definition extended_connect_requires_http2_connect_and_websocket_protocol :: bool where
  "extended_connect_requires_http2_connect_and_websocket_protocol \<longleftrightarrow>
     list_all (\<lambda>version. list_all (\<lambda>meth. list_all (\<lambda>protocol.
       let req = build_request version meth ''/'' [] protocol;
           extended = (version = HTTP_2 \<and> meth = CONNECT \<and> protocol = Some ''websocket'')
       in classify rfc_api req = (if extended then Some ExtendedConnect else None)
          \<and> classify rfc_api (req\<lparr>req_headers := insert_header
                (insert_header (req_headers req) ''connection'' ''Upgrade'') ''upgrade'' ''websocket''\<rparr>)
             = Some (if extended then ExtendedConnect else Upgrade))
       [None, Some ''websocket'', Some ''other'']) [GET, POST, CONNECT]) [HTTP_10, HTTP_11, HTTP_2]"

text \<open>tungstenite's side of the next test: it accepts the handshake and generates some key.\<close>

definition accepting_ws :: ws_api where
  "accepting_ws = \<lparr>create_response = (\<lambda>_. Inr \<lparr>res_status = SWITCHING_PROTOCOLS,
       res_headers = empty_headers, res_body = Full []\<rparr>),
     generate_key = ''AAAAAAAAAAAAAAAAAAAAAA=='', dial = (\<lambda>_. DialFailed)\<rparr>"

definition handshake_request :: "WsMode \<Rightarrow> Request" where
  "handshake_request mode =
     (let req = build_request (if mode = Upgrade then HTTP_11 else HTTP_2)
            (if mode = Upgrade then GET else CONNECT) ''/sub?tag=1''
            [(''connection'', ''Upgrade, keep-alive, X-Internal, sec-websocket-key, sec-websocket-version, sec-websocket-protocol''),
             (''upgrade'', ''websocket''), (''sec-websocket-version'', ''13''),
             (''sec-websocket-protocol'', ''first, second''),
             (''sec-websocket-extensions'', ''permessage-deflate''), (''x-internal'', ''secret''),
             (''proxy-authorization'', ''Basic Zm9vOmJhcg==''), (''proxy-connection'', ''keep-alive''),
             (''te'', ''trailers''), (''authorization'', ''Bearer token'')] None
      in if mode = Upgrade
         then req\<lparr>req_headers := insert_header (req_headers req) ''sec-websocket-key''
                ''dGhlIHNhbXBsZSBub25jZQ==''\<rparr>
         else req)"

definition handshake_strips_hop_by_hop_and_restores_canonical_ws_headers :: bool where
  "handshake_strips_hop_by_hop_and_restores_canonical_ws_headers \<longleftrightarrow>
     (let base = literal_uri ''ws://127.0.0.1:8546/ws?api_key=secret'' in
      list_all (\<lambda>mode.
        case response rfc_api accepting_ws mode (handshake_request mode) of
          Inl _ \<Rightarrow> False
        | Inr (req, resp) \<Rightarrow>
            res_status resp = (if mode = Upgrade then SWITCHING_PROTOCOLS else OK_200)
            \<and> (case build_ws_request rfc_api accepting_ws req base mode of
                 Inl _ \<Rightarrow> False
               | Inr ws_req \<Rightarrow>
                   (let m = req_headers ws_req in
                    list_all (\<lambda>n. \<not> contains_key m n)
                      [''x-internal'', ''proxy-authorization'', ''proxy-connection'', ''te'', ''keep-alive'',
                       ''sec-websocket-extensions'']
                    \<and> get_header m ''connection'' = Some ''Upgrade''
                    \<and> get_header m ''upgrade'' = Some ''websocket''
                    \<and> get_header m ''sec-websocket-version'' = Some ''13''
                    \<and> get_header m ''sec-websocket-protocol'' = Some ''first, second''
                    \<and> contains_key m ''sec-websocket-key''
                    \<and> get_header m ''host'' = Some ''127.0.0.1:8546''
                    \<and> get_header m ''authorization'' = Some ''Bearer token''
                    \<and> map_option (\<lambda>pq. show_pq (pq_path pq) (pq_query pq)) (path_and_query (req_uri ws_req))
                       = Some ''/ws/sub?api_key=secret&tag=1'')))
        [Upgrade, ExtendedConnect])"

lemma websocket_tests:
  subprotocol_offers_preserve_all_lines_and_reject_invalid_tokens
  subprotocol_offers_reject_non_ascii_without_replacing_headers
  extended_connect_requires_http2_connect_and_websocket_protocol
  by code_simp+

text \<open>The parts of the handshake, evaluated one by one.\<close>

lemma handshake_connection:
  "req_headers (handshake_request mode) ''connection'' = [''Upgrade, keep-alive, X-Internal, sec-websocket-key, sec-websocket-version, sec-websocket-protocol'']"
  by (induction mode) code_simp+

lemma handshake_version: "req_headers (handshake_request mode) ''sec-websocket-version'' = [''13'']"
  by (induction mode) code_simp+

lemma handshake_protocol: "req_headers (handshake_request mode) ''sec-websocket-protocol'' = [''first, second'']"
  by (induction mode) code_simp+

lemma handshake_authorization: "req_headers (handshake_request mode) ''authorization'' = [''Bearer token'']"
  by (induction mode) code_simp+

lemma handshake_upgrade:
  "req_headers (handshake_request Upgrade) ''sec-websocket-key'' = [''dGhlIHNhbXBsZSBub25jZQ=='']"
  "req_version (handshake_request Upgrade) = HTTP_11" "req_uri (handshake_request mode) = literal_uri ''/sub?tag=1''"
  by (simp_all add: handshake_request_def build_request_def insert_header_def)

lemmas handshake_lookups = handshake_connection handshake_version handshake_protocol handshake_authorization
  handshake_upgrade

lemma handshake_options:
  "connection_options rfc_api ((req_headers (handshake_request mode))(''sec-websocket-protocol'' := x)) =
     [''upgrade'', ''keep-alive'', ''x-internal'', ''sec-websocket-key'', ''sec-websocket-version'', ''sec-websocket-protocol'']"
proof -
  have "connection_options rfc_api ((req_headers (handshake_request mode))(''sec-websocket-protocol'' := x)) =
      List.map_filter (\<lambda>name. header_name rfc_api (trim_ascii name))
        (split CHR '','' ''Upgrade, keep-alive, X-Internal, sec-websocket-key, sec-websocket-version, sec-websocket-protocol'')"
    by (simp add: connection_options_def get_all_def handshake_lookups)
  also have "\<dots> = [''upgrade'', ''keep-alive'', ''x-internal'', ''sec-websocket-key'', ''sec-websocket-version'', ''sec-websocket-protocol'']"
    by code_simp
  finally show ?thesis .
qed

lemma handshake_offer: "normalize_subprotocols rfc_api (req_headers (handshake_request mode)) =
    Inr ((req_headers (handshake_request mode))(''sec-websocket-protocol'' := [''first, second'']))"
proof -
  have "take_values rfc_api [''first, second''] ([], []) = Inr (''first, second'', [''second'', ''first''])"
    "header_value rfc_api ''first, second'' = Inr ''first, second''" by code_simp+
  then show ?thesis by (simp add: normalize_subprotocols_def get_all_def handshake_lookups insert_header_def)
qed

lemma handshake_uri:
  "upstream_uri rfc_api (literal_uri ''ws://127.0.0.1:8546/ws?api_key=secret'') (literal_uri ''/sub?tag=1'') None =
     Inr (literal_uri ''ws://127.0.0.1:8546/ws/sub?api_key=secret&tag=1'')"
  "authority (literal_uri ''ws://127.0.0.1:8546/ws/sub?api_key=secret&tag=1'') = Some ''127.0.0.1:8546''"
  "path_and_query (literal_uri ''ws://127.0.0.1:8546/ws/sub?api_key=secret&tag=1'') =
     Some \<lparr>pq_path = ''/ws/sub'', pq_query = Some ''api_key=secret&tag=1''\<rparr>"
  by code_simp+

lemma handshake_values:
  "header_value rfc_api ''127.0.0.1:8546'' = Inr ''127.0.0.1:8546''"
  "header_value rfc_api ''AAAAAAAAAAAAAAAAAAAAAA=='' = Inr ''AAAAAAAAAAAAAAAAAAAAAA==''"
  by code_simp+

lemma websocket_handshake_test: handshake_strips_hop_by_hop_and_restores_canonical_ws_headers
  by (simp add: handshake_strips_hop_by_hop_and_restores_canonical_ws_headers_def response_def take_key_def
      handshake_lookups handshake_offer handshake_options handshake_uri handshake_values canonical_headers_def
      build_ws_request_def header_defs strip_hop_by_hop_apply accepting_ws_def HOP_BY_HOP_def show_pq_def)

section \<open>\<open>health.rs\<close>\<close>

definition hex_with_0x_prefix :: bool where
  "hex_with_0x_prefix \<longleftrightarrow>
     hex_to_u64 ''0x10'' = Some 16 \<and> hex_to_u64 ''0xff'' = Some 255 \<and> hex_to_u64 ''0x0'' = Some 0"

definition hex_rejects_non_canonical_or_malformed_quantities :: bool where
  "hex_rejects_non_canonical_or_malformed_quantities \<longleftrightarrow>
     list_all (\<lambda>invalid. hex_to_u64 invalid = None)
       [[], ''0x'', ''0X10'', ''ff'', ''a'', ''0x00'', ''0x01'', ''0x+10'', ''0x-10'', ''0x0x10'', ''0xZZ'', ''not hex'',
        ''0x10000000000000000'']"

definition hex_handles_block_timestamp_width :: bool where
  "hex_handles_block_timestamp_width \<longleftrightarrow> hex_to_u64 ''0x671E0000'' = Some 0x671E0000"

definition el_syncing_false_is_synced :: bool where
  "el_syncing_false_is_synced \<longleftrightarrow>
     (let c = check_el_syncing (Inr (Synced False)) in ok c \<and> detail c = ''synced'')"

definition el_syncing_object_reports_block_progress :: bool where
  "el_syncing_object_reports_block_progress \<longleftrightarrow>
     (let c = check_el_syncing (Inr (Syncing 0x10 0x20))
      in \<not> ok c \<and> detail c = ''syncing (block 16, distance 16)'')"

definition el_syncing_error_is_prefixed :: bool where
  "el_syncing_error_is_prefixed \<longleftrightarrow>
     (let c = check_el_syncing (Inl ''boom'') in \<not> ok c \<and> detail c = ''eth_syncing: boom'')"

definition cl_syncing_synced_is_ok :: bool where
  "cl_syncing_synced_is_ok \<longleftrightarrow>
     (let s = \<lparr>cl_head_slot = 42, cl_sync_distance = 0, cl_is_syncing = False\<rparr>; c = check_cl_syncing (Inr s)
      in ok c \<and> detail c = ''synced (slot 42, distance 0)'')"

definition cl_syncing_in_progress_fails :: bool where
  "cl_syncing_in_progress_fails \<longleftrightarrow>
     (let s = \<lparr>cl_head_slot = 42, cl_sync_distance = 5, cl_is_syncing = True\<rparr>; c = check_cl_syncing (Inr s)
      in \<not> ok c \<and> detail c = ''syncing (slot 42, distance 5)'')"

definition el_block_fresh_within_threshold_is_ok :: bool where
  "el_block_fresh_within_threshold_is_ok \<longleftrightarrow>
     (let block = \<lparr>blk_number = 5, blk_timestamp = 0x3e2\<rparr>; c = check_el_block_fresh (Inr block) 60 1000
      in ok c \<and> detail c = ''block 5, age 6s'')"

definition el_block_fresh_past_threshold_is_stale :: bool where
  "el_block_fresh_past_threshold_is_stale \<longleftrightarrow>
     (let block = \<lparr>blk_number = 5, blk_timestamp = 0x384\<rparr>; c = check_el_block_fresh (Inr block) 60 1000
      in \<not> ok c \<and> detail c = ''block 5 stale: 100s (max 60)'')"

definition cl_slot_fresh_disabled_when_genesis_zero :: bool where
  "cl_slot_fresh_disabled_when_genesis_zero \<longleftrightarrow>
     (let s = \<lparr>cl_head_slot = 7, cl_sync_distance = 0, cl_is_syncing = False\<rparr>;
          c = check_cl_slot_fresh (Inr s) 0 12 60 9999999
      in ok c \<and> detail c = ''slot 7 (age check disabled)'')"

definition cl_slot_fresh_past_threshold_is_stale :: bool where
  "cl_slot_fresh_past_threshold_is_stale \<longleftrightarrow>
     (let s = \<lparr>cl_head_slot = 10, cl_sync_distance = 0, cl_is_syncing = False\<rparr>;
          c = check_cl_slot_fresh (Inr s) 1000 12 60 1300
      in \<not> ok c \<and> detail c = ''slot 10 stale: 180s (max 60)'')"

definition slot_age_computes_wall_clock_age :: bool where
  "slot_age_computes_wall_clock_age \<longleftrightarrow> slot_age 10 1000 12 1300 = 180"

definition slot_age_saturates_on_garbage_head_slot :: bool where
  "slot_age_saturates_on_garbage_head_slot \<longleftrightarrow> slot_age 18446744073709551615 1606824023 12 2000000000 = 0"

definition readiness_transitions_log_only_on_change :: bool where
  "readiness_transitions_log_only_on_change \<longleftrightarrow>
     readiness_transition None False = BecameNotReady \<and> readiness_transition None True = Transition.Silent
     \<and> readiness_transition (Some True) True = Transition.Silent
     \<and> readiness_transition (Some False) False = Transition.Silent
     \<and> readiness_transition (Some True) False = BecameNotReady
     \<and> readiness_transition (Some False) True = Recovered"

definition snapshot_reports_numeric_values_when_healthy :: bool where
  "snapshot_reports_numeric_values_when_healthy \<longleftrightarrow>
     (let snap = build_snapshot (Inr (Synced False)) (Inr 0x10) (Inr \<lparr>blk_number = 5, blk_timestamp = 0x3e2\<rparr>)
            (Inr \<lparr>cl_head_slot = 10, cl_sync_distance = 0, cl_is_syncing = False\<rparr>) (Inr 64) 1000 12 1300;
          el = snap_el snap; cl = snap_cl snap
      in eh_syncing el = Some False \<and> eh_peers el = Some 16 \<and> eh_block_number el = Some 5
         \<and> eh_block_age_secs el = Some 306 \<and> eh_errors el = []
         \<and> ch_syncing cl = Some False \<and> ch_peers cl = Some 64 \<and> ch_head_slot cl = Some 10
         \<and> ch_slot_age_secs cl = Some 180)"

definition snapshot_records_errors_and_omits_values_on_failure :: bool where
  "snapshot_records_errors_and_omits_values_on_failure \<longleftrightarrow>
     (let snap = build_snapshot (Inl ''timeout'') (Inl ''http 500'') (Inl ''timeout'') (Inl ''http 404'')
            (Inl ''http 404'') 1000 12 1300;
          el = snap_el snap; cl = snap_cl snap
      in eh_syncing el = None \<and> eh_peers el = None \<and> eh_block_number el = None \<and> length (eh_errors el) = 3
         \<and> ch_head_slot cl = None \<and> length (ch_errors cl) = 2)"

definition snapshot_reports_el_sync_distance_while_syncing :: bool where
  "snapshot_reports_el_sync_distance_while_syncing \<longleftrightarrow>
     (let snap = build_snapshot (Inr (Syncing 0x10 0x20)) (Inl ''skip'') (Inl ''skip'') (Inl ''skip'')
            (Inl ''skip'') 0 12 1300
      in eh_syncing (snap_el snap) = Some True \<and> eh_sync_distance (snap_el snap) = Some 16)"

definition snapshot_omits_cl_slot_age_when_genesis_disabled :: bool where
  "snapshot_omits_cl_slot_age_when_genesis_disabled \<longleftrightarrow>
     (let snap = build_snapshot (Inr (Synced False)) (Inr 0x10) (Inr \<lparr>blk_number = 5, blk_timestamp = 0x3e2\<rparr>)
            (Inr \<lparr>cl_head_slot = 10, cl_sync_distance = 0, cl_is_syncing = False\<rparr>) (Inr 64) 0 12 1300
      in ch_head_slot (snap_cl snap) = Some 10 \<and> ch_slot_age_secs (snap_cl snap) = None)"

lemma hex_tests:
  hex_with_0x_prefix hex_rejects_non_canonical_or_malformed_quantities hex_handles_block_timestamp_width
  by (simp_all add: hex_with_0x_prefix_def hex_rejects_non_canonical_or_malformed_quantities_def
      hex_handles_block_timestamp_width_def hex_to_u64_def from_str_radix_def to_digit_def ascii_defs Let_def
      strip_prefix_def)

lemma decimal_chars:
  "char_of (48 :: nat) = CHR ''0''" "char_of (49 :: nat) = CHR ''1''" "char_of (50 :: nat) = CHR ''2''"
  "char_of (52 :: nat) = CHR ''4''" "char_of (53 :: nat) = CHR ''5''" "char_of (54 :: nat) = CHR ''6''"
  "char_of (55 :: nat) = CHR ''7''" "char_of (56 :: nat) = CHR ''8''"
  by code_simp+

lemma decimals:
  "show_u64 0 = ''0''" "show_u64 5 = ''5''" "show_u64 6 = ''6''" "show_u64 7 = ''7''" "show_u64 10 = ''10''"
  "show_u64 16 = ''16''" "show_u64 42 = ''42''" "show_u64 60 = ''60''" "show_u64 100 = ''100''" "show_u64 180 = ''180''"
  by (simp_all add: show_u64_def show_base.simps digit_char_def decimal_chars)

lemma saturating_numbers:
  "saturating_sub 0x20 0x10 = 16" "saturating_sub 1000 0x3e2 = 6" "saturating_sub 1000 0x384 = 100"
  "saturating_sub 1300 0x3e2 = 306" "slot_age 10 1000 12 1300 = 180" "slot_age 18446744073709551615 1606824023 12 2000000000 = 0"
  by (simp_all add: slot_age_def saturating_sub_def saturating_add_def saturating_mul_def unsigned_minus_1_eq_mask
      mask_eq_exp_minus_1)

lemma check_tests:
  el_syncing_false_is_synced el_syncing_object_reports_block_progress el_syncing_error_is_prefixed
  cl_syncing_synced_is_ok cl_syncing_in_progress_fails el_block_fresh_within_threshold_is_ok
  el_block_fresh_past_threshold_is_stale cl_slot_fresh_disabled_when_genesis_zero
  cl_slot_fresh_past_threshold_is_stale slot_age_computes_wall_clock_age slot_age_saturates_on_garbage_head_slot
  by (simp_all add: el_syncing_false_is_synced_def el_syncing_object_reports_block_progress_def
      el_syncing_error_is_prefixed_def cl_syncing_synced_is_ok_def cl_syncing_in_progress_fails_def
      el_block_fresh_within_threshold_is_ok_def el_block_fresh_past_threshold_is_stale_def
      cl_slot_fresh_disabled_when_genesis_zero_def cl_slot_fresh_past_threshold_is_stale_def
      slot_age_computes_wall_clock_age_def slot_age_saturates_on_garbage_head_slot_def saturating_numbers decimals)

lemma transition_test: readiness_transitions_log_only_on_change
  by (simp add: readiness_transitions_log_only_on_change_def readiness_transition_def)

lemma snapshot_tests:
  snapshot_reports_numeric_values_when_healthy snapshot_records_errors_and_omits_values_on_failure
  snapshot_reports_el_sync_distance_while_syncing snapshot_omits_cl_slot_age_when_genesis_disabled
  by (simp_all add: snapshot_reports_numeric_values_when_healthy_def
      snapshot_records_errors_and_omits_values_on_failure_def snapshot_reports_el_sync_distance_while_syncing_def
      snapshot_omits_cl_slot_age_when_genesis_disabled_def build_snapshot_def default_el_def default_cl_def
      saturating_numbers Let_def)

end
