(* ===== verification/Rpc_Tests.thy ===== *)
theory Rpc_Tests
  imports Serde
begin

unbundle bit_operations_syntax

text \<open>
  The unit tests of \<open>src/rpc.rs\<close>, run on the model with the JSON reader of \<open>Serde\<close>. Texts are
  composed as the tests compose them, so the lemmas on composed documents carry the long ones.
\<close>

section \<open>The mock on composed documents\<close>

lemma mock_eq: "mock_syncing serde b = parse_mock_syncing serde b"
proof (cases "all_local serde b")
  case True
  then have "contains_str b ''eth_syncing'' \<or> CHR 0x5C \<in> set b"
    using all_local_has_method serde_literal by (fastforce simp: literal_law_def)
  then show ?thesis by (auto simp: mock_syncing_def)
next
  case False
  then show ?thesis using mock.not_handled_forward full_parser.not_handled_forward by simp
qed

text \<open>A text that reads as one value, of which the inspection makes \<open>q\<close>.\<close>

definition calls_as :: "string \<Rightarrow> string option option \<Rightarrow> bool" where
  "calls_as t q \<longleftrightarrow> (\<exists>v. reads_as t v \<and> request_of v = q)"

fun verdict :: "string option option \<Rightarrow> MockResult" where
  "verdict None = Forward"
| "verdict (Some None) = Silent"
| "verdict (Some (Some i)) = Reply (reply_of i)"

lemma mock_single:
  assumes "calls_as (CHR ''{'' # t) q" and "list_all json_space u"
  shows "mock_syncing serde ((CHR ''{'' # t) @ u) = verdict q"
proof -
  obtain v where v: "reads_as (CHR ''{'' # t) v" "request_of v = q" using assms(1) by (auto simp: calls_as_def)
  have "read_document (CHR ''{'' # t @ u) = Some v"
    using document_padded [OF v(1) _ assms(2), of "[]"] by simp
  then show ?thesis
    using v(2) by (cases q rule: verdict.cases)
      (simp_all add: mock_eq parse_mock_syncing_def ascii_defs reply_of_def)
qed

lemma calls_as_reads: "list_all2 calls_as ts qs \<Longrightarrow> \<exists>vs. list_all2 reads_as ts vs \<and> map request_of vs = qs"
proof (induction ts qs rule: list_all2_induct)
  case (Cons t ts q qs)
  then obtain v vs where "reads_as t v" "request_of v = q" "list_all2 reads_as ts vs" "map request_of vs = qs"
    by (auto simp: calls_as_def)
  then show ?case by (intro exI [of _ "v # vs"]) simp
qed simp

lemma mock_batch:
  assumes "list_all2 calls_as ts qs" and "ts \<noteq> []" and "list_all json_space u"
  shows "mock_syncing serde (array_text ts @ u) =
    (if None \<in> set qs then Forward else batch_reply (List.map_filter (\<lambda>q. Option.bind q id) qs))"
proof -
  obtain vs where vs: "list_all2 reads_as ts vs" "map request_of vs = qs"
    using calls_as_reads [OF assms(1)] by blast
  obtain rt where "reads_as (array_text ts) (Node rt (JArr vs))" using reads_as_array [OF vs(1) assms(2)] by blast
  then have d: "read_document (array_text ts @ u) = Some (Node rt (JArr vs))"
    using document_padded [of "array_text ts" _ "[]" u] assms(3) by simp
  have "vs \<noteq> []" using vs(1) assms(2) by auto
  moreover have "(\<exists>n \<in> set vs. request_of n = None) \<longleftrightarrow> None \<in> set qs" using vs(2) by force
  moreover have "call_ids vs = List.map_filter (\<lambda>q. Option.bind q id) qs"
    by (simp add: call_ids_def List.map_filter_def comp_def filter_map flip: vs(2))
  ultimately show ?thesis
    using d by (simp add: mock_eq parse_mock_syncing_def array_text_def ascii_defs batch_of_def batch_loop_eq)
qed

text \<open>A request composed of its fields.\<close>

lemma plain_names:
  "plain_text ''jsonrpc''" "plain_text ''method''" "plain_text ''id''" "plain_text ''2.0''"
  by code_simp+

lemma reads_as_version: "\<exists>rt. reads_as (quoted ''2.0'') (Node rt (JStr (Some ''2.0'')))"
  using reads_as_quoted [OF plain_names(4)] by blast

lemma request_fields_eval:
  "fields_of request_fields [(Some ''jsonrpc'', a), (Some ''method'', m)] = Some [''jsonrpc'' \<mapsto> a, ''method'' \<mapsto> m]"
  "fields_of request_fields [(Some ''jsonrpc'', a), (Some ''method'', m), (Some ''id'', i)] =
     Some [''jsonrpc'' \<mapsto> a, ''method'' \<mapsto> m, ''id'' \<mapsto> i]"
  by (simp_all add: fields_of_def request_fields_def)

lemma calls_as_request:
  assumes "reads_as m v" and "reads_as i w"
  shows "calls_as (object_text [(''jsonrpc'', quoted ''2.0''), (''method'', m), (''id'', i)])
    (if val v = JStr (Some ''eth_syncing'') then map_option Some (present_id w) else None)"
proof -
  obtain rt where r: "reads_as (quoted ''2.0'') (Node rt (JStr (Some ''2.0'')))" using reads_as_version by blast
  obtain rt' where "reads_as (object_text [(''jsonrpc'', quoted ''2.0''), (''method'', m), (''id'', i)])
      (Node rt' (JObj [(Some ''jsonrpc'', Node rt (JStr (Some ''2.0''))), (Some ''method'', v), (Some ''id'', w)]))"
    using reads_as_object [of "[(''jsonrpc'', quoted ''2.0''), (''method'', m), (''id'', i)]"
        "[(Some ''jsonrpc'', Node rt (JStr (Some ''2.0''))), (Some ''method'', v), (Some ''id'', w)]"]
      assms r plain_names by auto
  then show ?thesis
    unfolding calls_as_def by (intro exI conjI) (auto simp: request_of_def request_fields_eval)
qed

lemma calls_as_notification:
  assumes "reads_as m v"
  shows "calls_as (object_text [(''jsonrpc'', quoted ''2.0''), (''method'', m)])
    (if val v = JStr (Some ''eth_syncing'') then Some None else None)"
proof -
  obtain rt where r: "reads_as (quoted ''2.0'') (Node rt (JStr (Some ''2.0'')))" using reads_as_version by blast
  obtain rt' where "reads_as (object_text [(''jsonrpc'', quoted ''2.0''), (''method'', m)])
      (Node rt' (JObj [(Some ''jsonrpc'', Node rt (JStr (Some ''2.0''))), (Some ''method'', v)]))"
    using reads_as_object [of "[(''jsonrpc'', quoted ''2.0''), (''method'', m)]"
        "[(Some ''jsonrpc'', Node rt (JStr (Some ''2.0''))), (Some ''method'', v)]"]
      assms r plain_names by auto
  then show ?thesis
    unfolding calls_as_def by (intro exI conjI) (auto simp: request_of_def request_fields_eval)
qed

definition request_text :: "string \<Rightarrow> string \<Rightarrow> string" where
  \<open>request_text m i = ''{"jsonrpc":"2.0","method":'' @ m @ '',"id":'' @ i @ ''}''\<close>

definition reply_text :: "string \<Rightarrow> string" where
  \<open>reply_text i = ''{"jsonrpc":"2.0","id":'' @ i @ '',"result":false}''\<close>

lemma request_text_object:
  "request_text m i = object_text [(''jsonrpc'', quoted ''2.0''), (''method'', m), (''id'', i)]"
  by (simp add: request_text_def object_text_def quoted_def)

lemma reply_text_of: "reply_text i = reply_of i"
  by (simp add: reply_text_def reply_of_def append_reply_def REPLY_PREFIX_def REPLY_SUFFIX_def)

text \<open>An id of a request, kept as it is written.\<close>

definition id_text :: "string \<Rightarrow> bool" where
  "id_text i \<longleftrightarrow> (\<exists>w. reads_as i w \<and> present_id w = Some i)"

lemma calls_as_text:
  assumes "reads_as m v" and "id_text i"
  shows "calls_as (request_text m i) (if val v = JStr (Some ''eth_syncing'') then Some (Some i) else None)"
proof -
  obtain w where "reads_as i w" "present_id w = Some i" using assms(2) by (auto simp: id_text_def)
  with calls_as_request [OF assms(1) this(1)] show ?thesis by (simp add: request_text_object split: if_splits)
qed

lemma request_text_brace: "\<exists>t. request_text m i = CHR ''{'' # t"
  by (simp add: request_text_def)

lemma single_text:
  assumes "reads_as m v" and "id_text i" and "list_all json_space u"
  shows "mock_syncing serde (request_text m i @ u) =
    (if val v = JStr (Some ''eth_syncing'') then Reply (reply_text i) else Forward)"
  using mock_single [OF _ assms(3)] calls_as_text [OF assms(1,2)] request_text_brace [of m i] reply_text_of
  by (smt (verit) verdict.simps)

section \<open>Classification of methods\<close>

definition method_cases :: "(string \<times> bool) list" where
  \<open>method_cases =
    [(''"eth_syncing"'', True), (''"eth_'' @ CHR 0x5C # ''u0073yncing"'', True),
     (''"'' @ CHR 0x5C # ''u0065th_syncing"'', True), (''"eth_syncing "'', False), (''"ETH_SYNCING"'', False),
     (''"eth_syn'' @ [CHR 0xD1, CHR 0x81] @ ''ing"'', False), (''"eth_syncing'' @ CHR 0x5C # ''u0000"'', False),
     (''""'', False), (''null'', False), (''true'', False), (''false'', False), (''1'', False), (''[]'', False),
     (''["eth_syncing"]'', False), (''{"eth_syncing":null}'', False)]\<close>

definition method_classification_requires_an_exact_json_string :: bool where
  \<open>method_classification_requires_an_exact_json_string \<longleftrightarrow>
     list_all (\<lambda>(meth, local).
       let request = request_text meth ''7'' in
       list_all (\<lambda>batch.
         let input = (if batch then ''['' @ request @ '']'' else request) in
         list_all (\<lambda>padding.
           let input = input @ replicate padding CHR '' '';
               expected =
                 (if local
                  then (let reply = reply_text ''7''
                        in Reply (if batch then ''['' @ reply @ '']'' else reply))
                  else Forward)
           in mock_syncing serde input = expected) [0, 512]) [False, True]) method_cases
     \<and> list_all (\<lambda>input. mock_syncing serde input = Forward)
         [''{"jsonrpc":"2.0","is_syncing":true,"id":7}'',
          ''{"jsonrpc":"2.0","method":"eth_syncing","method":"eth_syncing","id":7}'',
          ''{"jsonrpc":"2.0","method":"eth_syncing","metho'' @ CHR 0x5C # ''u0064":"eth_syncing","id":7}'']\<close>

lemma id_7: "id_text ''7''"
proof -
  have "one_value ''7'' = Some (Node (Some ''7'') (JNum (Some 7)))" by code_simp
  moreover have "present_id (Node (Some ''7'') (JNum (Some 7))) = Some ''7''" by code_simp
  ultimately show ?thesis using one_value_reads unfolding id_text_def by blast
qed

lemma method_cases_read:
  "list_all (\<lambda>(m, local). case one_value m of None \<Rightarrow> False
      | Some v \<Rightarrow> (case val v of JStr (Some s) \<Rightarrow> s = ''eth_syncing'' | _ \<Rightarrow> False) = local) method_cases"
  by code_simp

lemma method_rejected:
  \<open>mock_syncing serde ''{"jsonrpc":"2.0","is_syncing":true,"id":7}'' = Forward\<close>
  \<open>mock_syncing serde ''{"jsonrpc":"2.0","method":"eth_syncing","method":"eth_syncing","id":7}'' = Forward\<close>
  \<open>mock_syncing serde (''{"jsonrpc":"2.0","method":"eth_syncing","metho'' @ CHR 0x5C # ''u0064":"eth_syncing","id":7}'') = Forward\<close>
  by code_simp+

lemma spaces: "list_all json_space (replicate n CHR '' '')"
  by (simp add: list_all_iff json_space_def)

lemma classification_test: method_classification_requires_an_exact_json_string
proof -
  have "mock_syncing serde (request_text m ''7'' @ replicate n CHR '' '') =
        (if local then Reply (reply_text ''7'') else Forward)"
    and "mock_syncing serde ((''['' @ request_text m ''7'' @ '']'') @ replicate n CHR '' '') =
        (if local then Reply (''['' @ reply_text ''7'' @ '']'') else Forward)"
    if mc: "(m, local) \<in> set method_cases" for m local n
  proof -
    from mc method_cases_read obtain v where v: "one_value m = Some v"
      "(case val v of JStr (Some s) \<Rightarrow> s = ''eth_syncing'' | _ \<Rightarrow> False) = local"
      by (fastforce simp: list_all_iff split: option.splits)
    have l: "val v = JStr (Some ''eth_syncing'') \<longleftrightarrow> local"
      using v(2) by (auto split: json.splits option.splits)
    have r: "reads_as m v" using v(1) by (rule one_value_reads)
    show "mock_syncing serde (request_text m ''7'' @ replicate n CHR '' '') =
        (if local then Reply (reply_text ''7'') else Forward)"
      using single_text [OF r id_7 spaces] l by simp
    have "list_all2 calls_as [request_text m ''7''] [if local then Some (Some ''7'') else None]"
      using calls_as_text [OF r id_7] l by simp
    from mock_batch [OF this _ spaces]
    show "mock_syncing serde ((''['' @ request_text m ''7'' @ '']'') @ replicate n CHR '' '') =
        (if local then Reply (''['' @ reply_text ''7'' @ '']'') else Forward)"
      by (auto simp: array_text_def batch_reply_def map_filter_simps reply_text_of)
  qed
  then have "mock_syncing serde ((if batch then ''['' @ request_text m ''7'' @ '']'' else request_text m ''7'') @ replicate n CHR '' '') =
      (if local then Reply (if batch then ''['' @ reply_text ''7'' @ '']'' else reply_text ''7'') else Forward)"
    if "(m, local) \<in> set method_cases" for m local batch n
    using that by (cases batch) (simp_all only: if_True if_False)
  then show ?thesis
    unfolding method_classification_requires_an_exact_json_string_def Let_def list_all_iff
    by (intro conjI ballI) (simp only: split_paired_all prod.case, blast, use method_rejected in auto)
qed


section \<open>Batches\<close>

lemma batch_texts:
  assumes "reads_as m v" and "val v = JStr (Some ''eth_syncing'')" and "\<forall>i \<in> set is. id_text i" and "is \<noteq> []"
    and "list_all json_space u"
  shows "mock_syncing serde (array_text (map (request_text m) is) @ u) = Reply (array_text (map reply_text is))"
proof -
  have "list_all2 calls_as (map (request_text m) is) (map (\<lambda>i. Some (Some i)) is)"
    using assms(1-3) calls_as_text [OF assms(1)] by (auto simp: list_all2_conv_all_nth)
  from mock_batch [OF this _ assms(5)] assms(4) show ?thesis
    by (auto simp: batch_reply_def map_filter_map_filter comp_def reply_text_of array_text_def
        List.map_filter_def reply_text_of [abs_def])
qed

lemma read_eth_syncing: "\<exists>v. reads_as (quoted ''eth_syncing'') v \<and> val v = JStr (Some ''eth_syncing'')"
proof -
  have "plain_text ''eth_syncing''" by code_simp
  from reads_as_quoted [OF this] show ?thesis by (metis node.sel(2))
qed

lemma read_eth_blockNumber: "\<exists>v. reads_as (quoted ''eth_blockNumber'') v \<and> val v = JStr (Some ''eth_blockNumber'')"
proof -
  have "plain_text ''eth_blockNumber''" by code_simp
  from reads_as_quoted [OF this] show ?thesis by (metis node.sel(2))
qed

lemma local_text: "id_text i \<Longrightarrow> calls_as (request_text (quoted ''eth_syncing'') i) (Some (Some i))"
proof -
  assume i: "id_text i"
  obtain v where v: "reads_as (quoted ''eth_syncing'') v" "val v = JStr (Some ''eth_syncing'')"
    using read_eth_syncing by blast
  from calls_as_text [OF v(1) i] show ?thesis by (simp only: v(2) simp_thms if_True)
qed

lemma remote_text: "id_text i \<Longrightarrow> calls_as (request_text (quoted ''eth_blockNumber'') i) None"
proof -
  assume i: "id_text i"
  obtain v where v: "reads_as (quoted ''eth_blockNumber'') v" "val v = JStr (Some ''eth_blockNumber'')"
    using read_eth_blockNumber by blast
  have "''eth_blockNumber'' \<noteq> ''eth_syncing''" by simp
  with calls_as_text [OF v(1) i] show ?thesis by (simp only: v(2) json.inject option.inject if_False)
qed

text \<open>Anything after the closing bracket is refused.\<close>

lemma batch_garbage:
  assumes "list_all2 calls_as ts qs" and "ts \<noteq> []" and "ends_number u" and "skip_ws u \<noteq> []"
  shows "mock_syncing serde (array_text ts @ u) = Forward"
proof -
  obtain vs rt where "reads_as (array_text ts) (Node rt (JArr vs))"
    using calls_as_reads [OF assms(1)] reads_as_array assms(2) by blast
  then have "read_document (array_text ts @ u) = None"
    using document_garbage assms(3,4) by blast
  then show ?thesis by (simp add: mock_eq parse_mock_syncing_def Let_def)
qed

definition large_id :: string where
  "large_id = quoted (replicate 4096 CHR ''x'')"

definition growth_ids :: "string list" where
  \<open>growth_ids = [''1'', ''null'', ''900719925474099312345'',
     CHR 0x22 # [CHR 0xC3, CHR 0xA9, CHR 0xF0, CHR 0x9F, CHR 0x98, CHR 0x80] @ [CHR 0x22],
     ''"x'' @ [CHR 0x5C, CHR 0x5C] @ ''y'' @ [CHR 0x5C, CHR 0x22] @ ''z"'', large_id]\<close>

definition batch_reply_growth_preserves_raw_ids_and_late_forwarding :: bool where
  \<open>batch_reply_growth_preserves_raw_ids_and_late_forwarding \<longleftrightarrow>
     list_all (\<lambda>i.
       let request = request_text (quoted ''eth_syncing'') i; response = reply_text i in
       list_all (\<lambda>count.
         let pre = join '','' (replicate count request);
             input = ''['' @ pre @ '']'';
             expected = ''['' @ join '','' (replicate count response) @ '']''
         in mock_syncing serde input = Reply expected
            \<and> mock_syncing serde (''['' @ pre @ '','' @ request_text (quoted ''eth_blockNumber'') ''2'' @ '']'') = Forward
            \<and> mock_syncing serde (input @ ''x'') = Forward) [1, 2, 64]) growth_ids\<close>

lemma id_textI: "one_value i = Some v \<Longrightarrow> present_id v = Some i \<Longrightarrow> id_text i"
  using one_value_reads unfolding id_text_def by blast

lemma id_text_eval: "(case one_value i of None \<Rightarrow> False | Some v \<Rightarrow> present_id v = Some i) \<Longrightarrow> id_text i"
  by (auto intro: id_textI split: option.splits)

lemma large_id_text: "id_text large_id"
proof -
  have "list_all is_ascii (replicate 4096 CHR ''x'')" "list_all is_ascii large_id"
    by (simp_all add: list_all_iff large_id_def quoted_def)
  then have u: "is_utf8 (replicate 4096 CHR ''x'')" "is_utf8 large_id"
    by (simp_all only: is_utf8_eval if_True)
  have "plain_text (replicate 4096 CHR ''x'')"
    using u(1) by (auto simp: plain_text_def list_all_iff)
  from reads_as_quoted [OF this] u(2)
  have "reads_as large_id (Node (Some large_id) (JStr (Some (replicate 4096 CHR ''x''))))"
    by (simp only: large_id_def if_True)
  moreover have "present_id (Node (Some large_id) w) = Some large_id" for w
    by (simp add: present_id_def large_id_def quoted_def id_start_def)
  ultimately show ?thesis unfolding id_text_def by blast
qed

lemma growth_ids_texts: "\<forall>i \<in> set growth_ids. id_text i"
proof -
  have "list_all (\<lambda>i. case one_value i of None \<Rightarrow> False | Some v \<Rightarrow> present_id v = Some i) (butlast growth_ids)"
    unfolding growth_ids_def butlast.simps by code_simp
  then have "\<forall>i \<in> set (butlast growth_ids). id_text i" using id_text_eval by (simp only: list_all_iff) blast
  then show ?thesis using large_id_text by (auto simp: growth_ids_def)
qed


lemma id_2: "id_text ''2''"
  by (rule id_text_eval) code_simp

lemma growth:
  assumes "id_text i" and "0 < n"
  shows "mock_syncing serde (''['' @ join '','' (replicate n (request_text (quoted ''eth_syncing'') i)) @ '']'') =
      Reply (''['' @ join '','' (replicate n (reply_text i)) @ '']'')" (is ?reply)
    and "mock_syncing serde (''['' @ join '','' (replicate n (request_text (quoted ''eth_syncing'') i)) @ '','' @
      request_text (quoted ''eth_blockNumber'') ''2'' @ '']'') = Forward" (is ?mixed)
    and "mock_syncing serde ((''['' @ join '','' (replicate n (request_text (quoted ''eth_syncing'') i)) @ '']'') @ ''x'') =
      Forward" (is ?garbage)
proof -
  let ?r = "replicate n (request_text (quoted ''eth_syncing'') i)"
  have ne: "?r \<noteq> []" using assms(2) by simp
  have c: "list_all2 calls_as ?r (replicate n (Some (Some i)))"
    using local_text [OF assms(1)] by (simp add: list_all2_conv_all_nth)
  obtain v where v: "reads_as (quoted ''eth_syncing'') v" "val v = JStr (Some ''eth_syncing'')"
    using read_eth_syncing by blast
  show ?reply
    using batch_texts [OF v, of "replicate n i" "[]"] assms by (simp add: array_text_def map_replicate)
  have "list_all2 calls_as (?r @ [request_text (quoted ''eth_blockNumber'') ''2'']) (replicate n (Some (Some i)) @ [None])"
    using c remote_text [OF id_2] by (simp add: list_all2_appendI)
  from mock_batch [OF this _, of "[]"] show ?mixed
    using ne by (simp add: array_text_def join_snoc)
  have "ends_number ''x''" "skip_ws ''x'' \<noteq> []"
    by (simp_all add: ends_number_def json_digit_def skip_ws_def json_space_def)
  from batch_garbage [OF c ne this] show ?garbage by (simp add: array_text_def)
qed

lemma growth_test: batch_reply_growth_preserves_raw_ids_and_late_forwarding
  unfolding batch_reply_growth_preserves_raw_ids_and_late_forwarding_def Let_def list_all_iff
proof (intro ballI)
  fix i n assume "i \<in> set growth_ids" and "n \<in> set [1, 2, 64 :: nat]"
  then have "id_text i" "0 < n" using growth_ids_texts by auto
  from growth [OF this] show "mock_syncing serde (''['' @ join '','' (replicate n (request_text (quoted ''eth_syncing'') i)) @ '']'') =
      Reply (''['' @ join '','' (replicate n (reply_text i)) @ '']'')
    \<and> mock_syncing serde (''['' @ join '','' (replicate n (request_text (quoted ''eth_syncing'') i)) @ '','' @
      request_text (quoted ''eth_blockNumber'') ''2'' @ '']'') = Forward
    \<and> mock_syncing serde ((''['' @ join '','' (replicate n (request_text (quoted ''eth_syncing'') i)) @ '']'') @ ''x'') =
      Forward" by blast
qed

definition invalid_requests :: "string list" where
  \<open>invalid_requests = [''["2.0","eth_syncing",[],1]'', ''["2.0","eth_syncing"]'', ''["2.0","eth_syncing",{},null]'',
     ''[]'', ''null'', ''true'', ''1'', ''"eth_syncing"'']\<close>

definition batch_requests_must_be_objects :: bool where
  \<open>batch_requests_must_be_objects \<longleftrightarrow>
     (let local = request_text (quoted ''eth_syncing'') ''2'' in
      list_all (\<lambda>invalid.
        list_all (\<lambda>batch.
          list_all (\<lambda>padding. mock_syncing serde (batch @ replicate padding CHR '' '') = Forward) [0, 512])
          [''['' @ invalid @ '']'', ''['' @ local @ '','' @ invalid @ '']'', ''['' @ invalid @ '','' @ local @ '']'',
           ''['' @ local @ '','' @ invalid @ '','' @ local @ '']''])
        invalid_requests)\<close>

lemma invalid_requests_read: "list_all (\<lambda>t. map_option request_of (one_value t) = Some None) invalid_requests"
  by code_simp

lemma objects_test: batch_requests_must_be_objects
proof -
  have "mock_syncing serde (array_text ts @ replicate n CHR '' '') = Forward"
    if "t \<in> set invalid_requests" "ts = [t] \<or> ts = [request_text (quoted ''eth_syncing'') ''2'', t]
      \<or> ts = [t, request_text (quoted ''eth_syncing'') ''2'']
      \<or> ts = [request_text (quoted ''eth_syncing'') ''2'', t, request_text (quoted ''eth_syncing'') ''2'']" for t ts n
  proof -
    let ?l = "request_text (quoted ''eth_syncing'') ''2''"
    from that(1) invalid_requests_read obtain v where "one_value t = Some v" "request_of v = None"
      by (auto simp: list_all_iff)
    then have t: "calls_as t None" using one_value_reads unfolding calls_as_def by blast
    have l: "calls_as ?l (Some (Some ''2''))" by (rule local_text [OF id_2])
    have "\<exists>qs. list_all2 calls_as ts qs \<and> None \<in> set qs"
    proof -
      have "list_all2 calls_as [t] [None]" "list_all2 calls_as [?l, t] [Some (Some ''2''), None]"
        "list_all2 calls_as [t, ?l] [None, Some (Some ''2'')]"
        "list_all2 calls_as [?l, t, ?l] [Some (Some ''2''), None, Some (Some ''2'')]"
        using t l by simp_all
      then show ?thesis using that(2) by (metis list.set_intros)
    qed
    moreover have "ts \<noteq> []" using that(2) by auto
    ultimately show ?thesis using mock_batch [OF _ _ spaces] by (metis (full_types))
  qed
  note all = this
  let ?l = "request_text (quoted ''eth_syncing'') ''2''"
  have "mock_syncing serde ((''['' @ t @ '']'') @ replicate n CHR '' '') = Forward
      \<and> mock_syncing serde ((''['' @ ?l @ '','' @ t @ '']'') @ replicate n CHR '' '') = Forward
      \<and> mock_syncing serde ((''['' @ t @ '','' @ ?l @ '']'') @ replicate n CHR '' '') = Forward
      \<and> mock_syncing serde ((''['' @ ?l @ '','' @ t @ '','' @ ?l @ '']'') @ replicate n CHR '' '') = Forward"
    if "t \<in> set invalid_requests" for t n
    using all [OF that, of "[t]" n] all [OF that, of "[?l, t]" n] all [OF that, of "[t, ?l]" n]
      all [OF that, of "[?l, t, ?l]" n] by (simp add: array_text_def)
  then show ?thesis
    unfolding batch_requests_must_be_objects_def Let_def list_all_iff by (simp only: list.set ball_simps) blast
qed

section \<open>Whole documents only\<close>

definition local_requests :: "string list" where
  \<open>local_requests = [''{"jsonrpc":"2.0","method":"eth_syncing","id":null}'', ''{"jsonrpc":"2.0","method":"eth_syncing"}'']\<close>

definition local_batches_require_complete_validation :: bool where
  \<open>local_batches_require_complete_validation \<longleftrightarrow>
     list_all (\<lambda>local.
       list_all (\<lambda>input. mock_syncing serde input = Forward)
         [''['' @ local, ''['' @ local @ '',]'', ''['' @ local @ '']x'', ''['' @ local @ ''] []'',
          ''['' @ local @ '',{"jsonrpc":"2.0","method":"eth_syncing","id":true}]'',
          (''['' @ local @ '']'') @ [CHR 0xFF]]) local_requests\<close>

lemma complete_test: local_batches_require_complete_validation
  by code_simp

section \<open>Mixed batches\<close>

definition batches_forward_at_any_nonlocal_position_and_preserve_reply_ids :: bool where
  \<open>batches_forward_at_any_nonlocal_position_and_preserve_reply_ids \<longleftrightarrow>
     (let local = request_text (quoted ''eth_syncing'') ''1''; remote = request_text (quoted ''eth_blockNumber'') ''2'' in
      list_all (\<lambda>position.
        let requests = (replicate 100 local)[position := remote];
            input = ''['' @ join '','' requests @ '']''
        in mock_syncing serde input = Forward) [0, 1, 99]
      \<and> mock_syncing serde (''[{"jsonrpc":"2.0","method":"eth_syncing"},{"id":900719925474099312345,"method":"eth_'' @ CHR 0x5C
           # ''u0073yncing","jsonrpc":"2.0"},{"jsonrpc":"2.0","method":"eth_syncing","id":null},{"jsonrpc":"2.0","method":"eth_syncing"}]'')
         = Reply ''[{"jsonrpc":"2.0","id":900719925474099312345,"result":false},{"jsonrpc":"2.0","id":null,"result":false}]'')\<close>

lemma id_1: "id_text ''1''"
  by (rule id_text_eval) code_simp

lemma reply_ids:
  \<open>mock_syncing serde (''[{"jsonrpc":"2.0","method":"eth_syncing"},{"id":900719925474099312345,"method":"eth_'' @ CHR 0x5C
     # ''u0073yncing","jsonrpc":"2.0"},{"jsonrpc":"2.0","method":"eth_syncing","id":null},{"jsonrpc":"2.0","method":"eth_syncing"}]'')
   = Reply ''[{"jsonrpc":"2.0","id":900719925474099312345,"result":false},{"jsonrpc":"2.0","id":null,"result":false}]''\<close>
  by code_simp

lemma positions_test: batches_forward_at_any_nonlocal_position_and_preserve_reply_ids
proof -
  have "mock_syncing serde (''['' @ join '','' ((replicate 100 (request_text (quoted ''eth_syncing'') ''1''))
      [k := request_text (quoted ''eth_blockNumber'') ''2'']) @ '']'') = Forward" if "k < 100" for k
  proof -
    let ?qs = "(replicate 100 (Some (Some ''1'')))[k := None]"
    have "list_all2 calls_as ((replicate 100 (request_text (quoted ''eth_syncing'') ''1''))
        [k := request_text (quoted ''eth_blockNumber'') ''2'']) ?qs"
      using local_text [OF id_1] remote_text [OF id_2] by (intro list_all2_update_cong) (simp_all add: list_all2_conv_all_nth)
    moreover have "None \<in> set ?qs" using that by (simp add: set_update_memI)
    ultimately show ?thesis using mock_batch [of _ ?qs "[]"] by (fastforce simp: array_text_def)
  qed
  then show ?thesis
    unfolding batches_forward_at_any_nonlocal_position_and_preserve_reply_ids_def Let_def list_all_iff
    using reply_ids by (simp only: list.set ball_simps)
qed


section \<open>The prefilter\<close>

text \<open>The random numbers of the stress test (xorshift), a \<open>u64\<close> state.\<close>

definition next_random :: "u64 \<Rightarrow> u64" where
  "next_random s =
     (let s = s XOR push_bit 13 s; s = s XOR drop_bit 7 s in s XOR push_bit 17 s)"

definition as_u8 :: "u64 \<Rightarrow> char" where
  "as_u8 s = char_of (unat s mod 256)"

fun random_bytes :: "nat \<Rightarrow> u64 \<Rightarrow> bytes \<times> u64" where
  "random_bytes 0 s = ([], s)"
| "random_bytes (Suc n) s =
     (let s = next_random s; (bs, s') = random_bytes n s in (as_u8 s # bs, s'))"

definition resize :: "bytes \<Rightarrow> nat \<Rightarrow> bytes" where
  "resize b n = take n b @ replicate (n - length b) CHR '' ''"

text \<open>A step draws the index, the kind of the mutation and, where one is written, the byte.\<close>

definition mutation :: "bytes \<Rightarrow> u64 \<Rightarrow> bytes \<times> u64" where
  "mutation b s =
     (let s = next_random s; index = unat s mod (length b + 1);
          s = next_random s; k = unat s mod 4
      in if k = 0 \<and> index < length b then (let s = next_random s in (b[index := as_u8 s], s))
         else if k = 1 then (let s = next_random s in (take index b @ as_u8 s # drop index b, s))
         else if k = 2 \<and> index < length b then (take index b @ drop (Suc index) b, s)
         else (take index b, s))"

fun mutations :: "nat \<Rightarrow> bytes \<Rightarrow> u64 \<Rightarrow> bytes \<times> u64" where
  "mutations 0 b s = (b, s)"
| "mutations (Suc n) b s = (let (b, s) = mutation b s in mutations n b s)"

definition stress_seeds :: "bytes list" where
  \<open>stress_seeds =
    [''{"jsonrpc":"2.0","method":"eth_syncing","params":[],"id":null}'',
     ''{"jsonrpc":"2.0","meth'' @ CHR 0x5C # ''u006fd":"eth_'' @ CHR 0x5C # ''u0073yncing","id":"x'' @ [CHR 0x5C, CHR 0x5C] @ ''y"}'',
     ''{"jsonrpc":"2.0","method":"eth_blockNumber","params":[],"id":900719925474099312345}'',
     ''[{"jsonrpc":"2.0","method":"eth_syncing"},{"jsonrpc":"2.0","method":"eth_call","id":2}]'',
     ''{"jsonrpc":"2.0","method":"eth_call","params":{"method":"eth_syncing"},"id":1}'',
     ''{"jsonrpc":"2.0","method":"eth_syncing","metho'' @ CHR 0x5C # ''u0064":"eth_call","id":1}'']\<close>

definition stress_input :: "nat \<Rightarrow> u64 \<Rightarrow> bytes \<times> u64" where
  "stress_input c s =
     (let (input, s) =
            (if c mod 4 = 0 then (let s = next_random s in random_bytes (unat s mod 513) s)
             else (let s = next_random s in (stress_seeds ! (unat s mod length stress_seeds), s)));
          (input, s) =
            (if c mod 8 = 1
             then (let s = next_random s in (resize input ([255, 256, 257, 1024] ! (unat s mod 4)), s))
             else (input, s));
          s = next_random s
      in mutations (unat s mod 8) input s)"

fun stress_loop :: "nat \<Rightarrow> nat \<Rightarrow> u64 \<Rightarrow> bool" where
  "stress_loop 0 c s = True"
| "stress_loop (Suc n) c s =
     (let (input, s) = stress_input c s
      in mock_syncing serde input = parse_mock_syncing serde input \<and> stress_loop n (Suc c) s)"

definition prefilter_seeded_stress_matches_full_parser :: bool where
  "prefilter_seeded_stress_matches_full_parser \<longleftrightarrow> stress_loop 1000000 0 0x6a09e667f3bcc909"

lemma stress_test: prefilter_seeded_stress_matches_full_parser
proof -
  have "stress_loop n c s" for n c s by (induction n arbitrary: c s) (simp_all add: mock_eq split: prod.split)
  then show ?thesis by (simp only: prefilter_seeded_stress_matches_full_parser_def)
qed

definition prefilter_preserves_escaped_keys_nested_matches_and_invalid_requests :: bool where
  \<open>prefilter_preserves_escaped_keys_nested_matches_and_invalid_requests \<longleftrightarrow>
     list_all (\<lambda>input. mock_syncing serde input = parse_mock_syncing serde input)
       [''{"jsonrpc":"2.0","meth'' @ CHR 0x5C # ''u006fd":"eth_syncing","id":1}'',
        ''{"jsonrpc":"2.0","method":"'' @ CHR 0x5C # ''u0065th_syncing","id":null}'',
        ''{"jsonrpc":"2.0","method":"eth_call","params":["eth_syncing"],"id":1}'',
        ''{"jsonrpc":"2.0","params":{"method":"eth_syncing"},"method":"eth_call","id":1}'',
        ''{"method":"eth_blockNumber","id":"eth_syncing","jsonrpc":"2.0"}'',
        ''{"jsonrpc":"2.0","method":"eth_syncing","metho'' @ CHR 0x5C # ''u0064":"eth_call","id":1}'',
        ''[{"jsonrpc":"2.0","method":"eth_'' @ CHR 0x5C # ''u0073yncing"}]'',
        ''[{"jsonrpc":"2.0","method":"eth_call"},{"jsonrpc":"2.0","method":"eth_'' @ CHR 0x5C # ''u0073yncing","id":1}]'',
        ''{"jsonrpc":"2.0","method":"eth_syncing","id":1} garbage'',
        ''{"jsonrpc":"2.0","method":"eth_call","params":"unterminated'']
     \<and> (case mock_syncing serde (''{"jsonrpc":"2.0","meth'' @ CHR 0x5C # ''u006fd":"eth_'' @ CHR 0x5C
             # ''u0073yncing","id":1}'') of Reply _ \<Rightarrow> True | _ \<Rightarrow> False)\<close>

lemma escaped_reply:
  \<open>mock_syncing serde (''{"jsonrpc":"2.0","meth'' @ CHR 0x5C # ''u006fd":"eth_'' @ CHR 0x5C # ''u0073yncing","id":1}'') =
     Reply ''{"jsonrpc":"2.0","id":1,"result":false}''\<close>
  by code_simp

lemma preserves_test: prefilter_preserves_escaped_keys_nested_matches_and_invalid_requests
  unfolding prefilter_preserves_escaped_keys_nested_matches_and_invalid_requests_def escaped_reply
  by (simp only: mock_eq list_all_iff MockResult.case simp_thms ball_triv)

definition prefilter_length_boundary_and_whitespace_do_not_change_results :: bool where
  \<open>prefilter_length_boundary_and_whitespace_do_not_change_results \<longleftrightarrow>
     list_all (\<lambda>input.
       list_all (\<lambda>len.
         list_all (\<lambda>leading.
           let padding = concat (replicate (len div 4 + 1) ('' '' @ [CHR 0x09, CHR 0x0D, CHR 0x0A]));
               padding = take (len - length input) padding;
               padded = (if leading then padding @ input else input @ padding)
           in mock_syncing serde padded = parse_mock_syncing serde padded) [False, True])
         [255, 256, 257, 512, 16384])
       [''{"jsonrpc":"2.0","method":"eth_syncing","id":1}'', ''{"jsonrpc":"2.0","method":"eth_call","id":1}'',
        ''{"jsonrpc":"2.0","method":"eth_'' @ CHR 0x5C # ''u0073yncing","id":null}'',
        ''[{"jsonrpc":"2.0","method":"eth_syncing"}]'']\<close>

lemma boundary_test: prefilter_length_boundary_and_whitespace_do_not_change_results
  unfolding prefilter_length_boundary_and_whitespace_do_not_change_results_def
  by (simp only: mock_eq Let_def list_all_iff simp_thms ball_triv)

definition prefilter_matches_full_parser_under_byte_mutations :: bool where
  \<open>prefilter_matches_full_parser_under_byte_mutations \<longleftrightarrow>
     list_all (\<lambda>seed.
       list_all (\<lambda>index.
         mock_syncing serde (take index seed) = parse_mock_syncing serde (take index seed)
         \<and> list_all (\<lambda>byte. let mutated = seed[index := byte]
              in mock_syncing serde mutated = parse_mock_syncing serde mutated) (map char_of [0..<256 :: nat]))
         [0..<length seed])
       [''{"jsonrpc":"2.0","method":"eth_syncing","params":[],"id":1}'',
        ''{"jsonrpc":"2.'' @ CHR 0x5C # ''u0030","meth'' @ CHR 0x5C # ''u006fd":"eth_'' @ CHR 0x5C # ''u0073yncing","id":"x''
          @ [CHR 0x5C, CHR 0x5C] @ ''y"}'',
        ''{"jsonrpc":"2.0","method":"eth_blockNumber","params":[],"id":1}'',
        ''[{"jsonrpc":"2.0","method":"eth_syncing"},{"jsonrpc":"2.0","method":"eth_call","id":2}]'']\<close>

lemma mutations_test: prefilter_matches_full_parser_under_byte_mutations
  by (simp only: prefilter_matches_full_parser_under_byte_mutations_def mock_eq Let_def list_all_iff simp_thms ball_triv)

section \<open>Ids, notifications and refusals\<close>

text \<open>\<open>serde_json::from_str::<Value>\<close> and the index operator.\<close>

definition field_value :: "string \<Rightarrow> node \<Rightarrow> json option" where
  "field_value k n = (case val n of JObj kvs \<Rightarrow> map_option val (map_of kvs (Some k)) | _ \<Rightarrow> None)"

definition preserves_ids_and_decodes_escaped_methods :: bool where
  \<open>preserves_ids_and_decodes_escaped_methods \<longleftrightarrow>
     list_all (\<lambda>i.
       case mock_syncing serde (''{"jsonrpc":"2.0","method":"eth_'' @ CHR 0x5C # ''u0073yncing","id":'' @ i @ ''}'') of
         Reply reply \<Rightarrow>
           contains_str reply (''"id":'' @ i)
           \<and> Option.bind (read_document reply) (field_value ''result'') = Some (JBool False)
       | _ \<Rightarrow> False)
       [''null'', ''900719925474099312345'', ''"a'' @ [CHR 0x5C, CHR 0x5C] @ ''b'' @ [CHR 0x5C, CHR 0x22] @ ''c"'', ''-1'']
     \<and> (case mock_syncing serde (''{"jsonrpc":"2.'' @ CHR 0x5C # ''u0030","method":"eth_syncing","params":[ ''
             @ [CHR 0x09, CHR 0x0A] @ '' ],"id":0}'') of Reply _ \<Rightarrow> True | _ \<Rightarrow> False)\<close>

lemma ids_test: preserves_ids_and_decodes_escaped_methods
  by code_simp

definition notifications_are_silent_and_batches_omit_them :: bool where
  \<open>notifications_are_silent_and_batches_omit_them \<longleftrightarrow>
     (let notification = ''{"jsonrpc":"2.0","method":"eth_syncing"}'' in
      mock_syncing serde notification = Silent
      \<and> mock_syncing serde (''['' @ notification @ '']'') = Silent
      \<and> (case mock_syncing serde (''['' @ notification @ '',{"jsonrpc":"2.0","method":"eth_syncing","id":null}]'') of
           Reply reply \<Rightarrow>
             (case map_option val (read_document reply) of
                Some (JArr [n]) \<Rightarrow> field_value ''id'' n = Some JNull
              | _ \<Rightarrow> False)
         | _ \<Rightarrow> False))\<close>

lemma notifications_test: notifications_are_silent_and_batches_omit_them
  by code_simp

definition forwards_mixed_invalid_and_unknown_requests_without_rewriting :: bool where
  \<open>forwards_mixed_invalid_and_unknown_requests_without_rewriting \<longleftrightarrow>
     list_all (\<lambda>input. mock_syncing serde input = Forward)
       [''[]'', ''null'', ''{}'', ''['', ''[1]'',
        ''{"jsonrpc":"1.0","method":"eth_syncing","id":1}'',
        ''{"jsonrpc":"2.0","method":"eth_syncing","id":true}'',
        ''{"jsonrpc":"2.0","method":"eth_syncing","params":null,"id":1}'',
        ''{"jsonrpc":"2.0","method":"eth_syncing","params":1,"id":1}'',
        ''{"jsonrpc":"2.0","method":"eth_syncing","params":{},"id":1}'',
        ''{"jsonrpc":"2.0","method":"eth_syncing","params":{"unexpected":1},"id":1}'',
        ''{"jsonrpc":"2.0","method":"eth_syncing","params":[1,2,3],"id":1}'',
        ''{"jsonrpc":"2.0","method":"eth_syncing","params":[false],"id":1}'',
        ''{"method":"eth_syncing","id":1}'',
        ''{"jsonrpc":"2.0","method":"eth_syncing","method":"eth_call","id":1}'',
        ''[{"jsonrpc":"2.0","method":"eth_syncing","id":1},{"jsonrpc":"2.0","method":"eth_call","id":2}]'',
        ''[{"jsonrpc":"2.0","method":"eth_syncing","id":1},{"jsonrpc":"2.0","method":"eth_syncing","params":[1],"id":2}]'']\<close>

lemma forwards_test: forwards_mixed_invalid_and_unknown_requests_without_rewriting
  by code_simp

end
