(* ===== verification/Health_Tests.thy ===== *)
theory Health_Tests
  imports Serde Unit_Tests Poll
begin

text \<open>
  The unit tests of \<open>src/health.rs\<close> that decode answers, with the JSON reader of \<open>Serde\<close>, the test of
  the choice between HTTP/1.1 and h2c against a modelled server, and the mock's test of
  \<open>src/proxy.rs\<close>. \<open>Unit_Tests\<close> has the tests of these files that read no JSON.
\<close>

text \<open>What a test makes of a \<open>Result\<close>: the value it unwraps, and \<open>is_err\<close>.\<close>

definition is_ok_and :: "'e + 'a \<Rightarrow> ('a \<Rightarrow> bool) \<Rightarrow> bool" where
  "is_ok_and r P = (case r of Inl _ \<Rightarrow> False | Inr x \<Rightarrow> P x)"

definition is_err :: "'e + 'a \<Rightarrow> bool" where
  "is_err r = (case r of Inl _ \<Rightarrow> True | Inr _ \<Rightarrow> False)"

lemma is_ok_and_simps [simp]: "is_ok_and (Inl e) P \<longleftrightarrow> False" "is_ok_and (Inr x) P \<longleftrightarrow> P x"
  by (simp_all add: is_ok_and_def)

section \<open>The batch of the execution client\<close>

definition batch_replies :: "string list" where
  \<open>batch_replies = [''{"id":1,"result":false}'', ''{"id":2,"result":"0x40"}'',
     ''{"id":3,"result":{"number":"0x1","timestamp":"0x2"}}'']\<close>

definition replies_in :: "nat list \<Rightarrow> bytes" where
  "replies_in order = ''['' @ join '','' (map (nth batch_replies) order) @ '']''"

definition el_batch_requires_three_object_responses_and_object_blocks :: bool where
  \<open>el_batch_requires_three_object_responses_and_object_blocks \<longleftrightarrow>
     list_all (\<lambda>order.
       is_ok_and (parse_el_batch serde (replies_in order)) (\<lambda>parsed.
         b_syncing parsed = Inr (Synced False) \<and> b_peers parsed = Inr 0x40
         \<and> is_ok_and (b_block parsed) (\<lambda>b. blk_timestamp b = 2)))
       [[0, 1, 2], [0, 2, 1], [1, 0, 2], [1, 2, 0], [2, 0, 1], [2, 1, 0]]
     \<and> list_all (\<lambda>input. is_err (parse_el_batch serde input))
         [replies_in [0, 1], replies_in [0, 1, 2, 0],
          ''[[1,false,null],{"id":2,"result":"0x40"},{"id":3,"result":{}}]'',
          ''[[1,false,null],[2,"0x40",null],[3,{"number":"0x1","timestamp":"0x2"},null]]'']
     \<and> is_ok_and (parse_el_batch serde
         ''[{"id":1,"result":false},{"id":2,"result":"0x40"},{"id":3,"result":["0x1","0x2"]}]'') (\<lambda>parsed.
         \<not> is_err (b_syncing parsed) \<and> \<not> is_err (b_peers parsed) \<and> is_err (b_block parsed))
     \<and> Option.bind (read_document ''["0x1","0x2"]'') el_syncing_of = None\<close>

definition el_batch_matches_ids_in_any_order_and_keeps_partial_results :: bool where
  \<open>el_batch_matches_ids_in_any_order_and_keeps_partial_results \<longleftrightarrow>
     is_ok_and (parse_el_batch serde
       ''[{"id":3,"result":{"number":"0x42","timestamp":"0x43"}},{"id":1,"result":false},{"id":2,"error":{"code":-32000,"message":"unavailable"}}]'')
       (\<lambda>parsed.
         b_syncing parsed = Inr (Synced False) \<and> is_ok_and (b_block parsed) (\<lambda>b. blk_number b = 0x42)
         \<and> (case b_peers parsed of Inl (Rpc _) \<Rightarrow> True | _ \<Rightarrow> False))\<close>

definition el_batch_rejects_ambiguous_ids_and_invalid_results :: bool where
  \<open>el_batch_rejects_ambiguous_ids_and_invalid_results \<longleftrightarrow>
     list_all (\<lambda>input. case parse_el_batch serde input of Inl (Decode _) \<Rightarrow> True | _ \<Rightarrow> False)
       [''[]'',
        ''[{"id":1,"result":false},{"id":1,"result":false},{"id":3,"result":null}]'',
        ''[{"id":1,"result":false},{"id":2,"result":"0x1"},{"id":4,"result":null}]'',
        ''[{"id":"1","result":false},{"id":2,"result":"0x1"},{"id":3,"result":null}]'']
     \<and> is_ok_and (parse_el_batch serde ''[{"id":1,"result":null},{"id":2},{"id":3,"result":{}}]'') (\<lambda>parsed.
         is_err (b_syncing parsed) \<and> is_err (b_peers parsed) \<and> is_err (b_block parsed))\<close>

text \<open>The lists of inputs are split before they are evaluated.\<close>


lemma three_objects_test: el_batch_requires_three_object_responses_and_object_blocks
  unfolding el_batch_requires_three_object_responses_and_object_blocks_def list.pred_inject
  by (intro conjI TrueI; code_simp)

lemma any_order_test: el_batch_matches_ids_in_any_order_and_keeps_partial_results
  by code_simp

lemma ambiguous_ids_test: el_batch_rejects_ambiguous_ids_and_invalid_results
  by code_simp

section \<open>Beacon answers\<close>

definition beacon_envelope_and_data_require_objects :: bool where
  \<open>beacon_envelope_and_data_require_objects \<longleftrightarrow>
     list_all (\<lambda>input. is_err (parse_cl_response serde ''ClStatus'' cl_status_of input))
       [''[["123","0",false]]'',
        ''{"data":["123","0",false]}'',
        ''[{"head_slot":"123","sync_distance":"0","is_syncing":false}]'',
        ''{"data":null}'',
        ''{"data":{"head_slot":"123","sync_distance":"0","is_syncing":false},"data":{}}'',
        ''{"data":{"head_slot":"123","head_slot":"123","sync_distance":"0","is_syncing":false}}'',
        ''{"data":{"head_slot":"123","sync_distance":"0","is_syncing":false}}x'']
     \<and> \<not> is_err (parse_cl_response serde ''ClStatus'' cl_status_of
         ''{"extra":[],"data":{"head_slot":"123","sync_distance":"0","is_syncing":false,"ignored":true}}'')\<close>

definition beacon_text :: "string \<Rightarrow> bytes" where
  \<open>beacon_text head_slot =
     ''{"data":{"head_slot":'' @ head_slot @ '',"sync_distance":"0","is_syncing":false}}''\<close>

definition typed_beacon_response_preserves_decimal_semantics :: bool where
  \<open>typed_beacon_response_preserves_decimal_semantics \<longleftrightarrow>
     is_ok_and (parse_cl_response serde ''ClStatus'' cl_status_of
       ''{"data":{"head_slot":"9412341","sync_distance":"0","is_syncing":false,"extra":{"ignored":true}}}'')
       (\<lambda>data. cl_head_slot data = 9412341 \<and> cl_sync_distance data = 0)
     \<and> list_all (\<lambda>head_slot. is_err (parse_cl_response serde ''ClStatus'' cl_status_of (beacon_text head_slot)))
         [''42'', ''null'', ''"invalid"'', ''"-1"'', ''"18446744073709551616"'']
     \<and> is_err (parse_cl_response serde ''ClStatus'' cl_status_of ''{"data":{"sync_distance":"0","is_syncing":false}}'')\<close>

lemma beacon_objects_test: beacon_envelope_and_data_require_objects
  by code_simp

lemma beacon_decimal_test: typed_beacon_response_preserves_decimal_semantics
  by code_simp

section \<open>Answers of the mock\<close>

definition test_try_mock_eth_syncing :: bool where
  \<open>test_try_mock_eth_syncing \<longleftrightarrow>
     (case try_mock_eth_syncing serde ''{"jsonrpc":"2.0","method":"eth_syncing","params":[],"id":100}'' of
        None \<Rightarrow> False
      | Some res \<Rightarrow> res_status res = OK_200 \<and> res_body res = Full ''{"jsonrpc":"2.0","id":100,"result":false}'')
     \<and> try_mock_eth_syncing serde ''{"jsonrpc":"2.0","method":"eth_blockNumber","params":[],"id":101}'' = None
     \<and> (case try_mock_eth_syncing serde ''[{"jsonrpc":"2.0","method":"eth_syncing","params":[],"id":1}]'' of
          None \<Rightarrow> False
        | Some res \<Rightarrow> res_body res = Full ''[{"jsonrpc":"2.0","id":1,"result":false}]'')\<close>

lemma mock_answer_test: test_try_mock_eth_syncing
  by code_simp

section \<open>The fallback between HTTP/1.1 and h2c\<close>

text \<open>
  The server of the test: it serves the protocols of \<open>accepted\<close> (HTTP/1.1, h2c) and drops a
  connection of another, after the time limit of the client when it is h2c and nothing is accepted.
\<close>

definition served :: "bool \<times> bool \<Rightarrow> bool \<Rightarrow> bool" where
  "served accepted h2 = (if h2 then snd accepted else fst accepted)"

definition test_server :: "bool \<times> bool \<Rightarrow> StatusCode \<Rightarrow> bytes \<Rightarrow> net_api" where
  "test_server accepted status body = \<lparr>net_api.build_request = Inr,
     exchange = (\<lambda>cl req.
       if served accepted (http2_only cl) then Exchange.Answer status (Inr body)
       else if http2_only cl \<and> \<not> fst accepted \<and> \<not> snd accepted then NotInTime
       else ConnError ''connection closed'')\<rparr>"

definition valid_batch :: bytes where
  \<open>valid_batch = ''[{"id":1,"result":false},{"id":2,"result":"0x40"},{"id":3,"result":{"number":"0x1","timestamp":"0x2"}}]''\<close>

text \<open>Preferred transport, accepted ones, status, body, expected transport.\<close>

definition fallback_cases :: "(bool \<times> (bool \<times> bool) \<times> StatusCode \<times> bytes \<times> bool) list" where
  "fallback_cases =
     [(True, (True, True), 200, valid_batch, True),
      (True, (True, True), 503, ''unavailable'', True),
      (True, (True, True), 200, ''invalid JSON'', True),
      (False, (True, True), 503, ''unavailable'', False),
      (True, (True, False), 200, valid_batch, False),
      (True, (True, False), 503, ''unavailable'', False),
      (True, (True, False), 200, ''invalid JSON'', False),
      (False, (False, True), 200, valid_batch, True),
      (False, (False, True), 503, ''unavailable'', True),
      (False, (False, True), 200, ''invalid JSON'', True),
      (True, (False, False), 200, valid_batch, True),
      (False, (False, False), 200, valid_batch, False)]"

definition fallback_state :: "Config \<Rightarrow> string \<Rightarrow> bool \<Rightarrow> AppState" where
  "fallback_state c url prefer_h2 =
     \<lparr>cfg = c, client = build_client False, el_h2_client = build_client True, el_use_h2 = prefer_h2,
      el_http_uri = literal_uri url, el_ws_uri = literal_uri ''ws://127.0.0.1:8546'',
      cl_beacon_uri = literal_uri url, cl_mev_relay_uri = None, cl_syncing_uri = literal_uri url,
      cl_peer_count_uri = literal_uri url, cl_genesis_time = 0, cl_seconds_per_slot = 12,
      otel_enabled = False, probe = pending\<rparr>"

text \<open>How often a transport was attempted is how often its client was used.\<close>

definition fallback_outcome ::
  "AppState \<Rightarrow> bool \<Rightarrow> bool \<times> bool \<Rightarrow> StatusCode \<Rightarrow> bytes \<Rightarrow> bool \<Rightarrow> bool"
where
  "fallback_outcome state prefer_h2 accepted status body expected_h2 \<longleftrightarrow>
     (let (result, state', tried, _) = el_batch_detect serde (test_server accepted status body) state;
          attempts = (\<lambda>h2. length (filter (\<lambda>cl. http2_only cl = h2) tried))
      in el_use_h2 state' = expected_h2 \<and> attempts prefer_h2 = 1
         \<and> attempts (\<not> prefer_h2) = (if served accepted prefer_h2 then 0 else 1)
         \<and> (if \<not> fst accepted \<and> \<not> snd accepted then
              (case b_syncing result of
                 Inr _ \<Rightarrow> False
               | Inl error \<Rightarrow>
                   (if prefer_h2 then error = Timeout else (case error of Transport _ \<Rightarrow> True | _ \<Rightarrow> False))
                   \<and> b_peers result = Inl error \<and> b_block result = Inl error)
            else if status = 503 then b_syncing result = Inl (HttpStatus 503)
            else if body = valid_batch then b_syncing result = Inr (Synced False) \<and> b_peers result = Inr 0x40
            else (case b_syncing result of Inl (Decode _) \<Rightarrow> True | _ \<Rightarrow> False)))"

definition el_transport_fallback_preserves_verdict_and_error_policy :: bool where
  "el_transport_fallback_preserves_verdict_and_error_policy \<longleftrightarrow>
     list_all (\<lambda>(prefer_h2, accepted, status, body, expected_h2).
       let url = ''http://127.0.0.1:43210'' in
       parses [''--el-http-url'', url] (\<lambda>c.
         fallback_outcome (fallback_state c url prefer_h2) prefer_h2 accepted status body expected_h2))
       fallback_cases"

lemma fallback_bodies:
  "is_ok_and (parse_el_batch serde valid_batch) (\<lambda>r. b_syncing r = Inr (Synced False) \<and> b_peers r = Inr 0x40)"
  "parse_el_batch serde ''invalid JSON'' = Inl (Decode (de_error serde ''[RpcResponse; 3]'' ''invalid JSON''))"
  "valid_batch \<noteq> ''invalid JSON''"
  by code_simp+

lemma fallback_attempt:
  "attempt serde (test_server accepted status body) (fallback_state c url prefer_h2) h2 =
     (if served accepted h2 then (if is_success status then parse_el_batch serde body else Inl (HttpStatus status))
      else if h2 \<and> \<not> fst accepted \<and> \<not> snd accepted then Inl Timeout
      else Inl (Transport ''connection closed''))"
  by (simp add: attempt_def el_batch_rpc_def fetch_bytes_def test_server_def fallback_state_def el_client_def
      build_client_def Let_def)

lemma fallback_plain: "\<not> tls_upstream (fallback_state c ''http://127.0.0.1:43210'' prefer_h2)"
proof -
  have "scheme_str (literal_uri ''http://127.0.0.1:43210'') = Some ''http''" by code_simp
  then show ?thesis by (simp add: tls_upstream_def fallback_state_def)
qed

text \<open>Both transports of a test state, the preferred one first.\<close>

lemma fallback_detect:
  assumes "state = fallback_state c ''http://127.0.0.1:43210'' prefer_h2"
  shows "el_batch_detect J N state =
     (if \<not> transport_failed (attempt J N state prefer_h2)
      then (el_result (attempt J N state prefer_h2), state, [build_client prefer_h2], [])
      else if transport_failed (attempt J N state (\<not> prefer_h2))
      then (el_result (attempt J N state prefer_h2), state, [build_client prefer_h2, build_client (\<not> prefer_h2)], [])
      else (el_result (attempt J N state (\<not> prefer_h2)), state\<lparr>el_use_h2 := \<not> prefer_h2\<rparr>,
            [build_client prefer_h2, build_client (\<not> prefer_h2)], [if prefer_h2 then StoppedSpeakingH2c else SpeaksH2c]))"
proof -
  have "el_use_h2 state = prefer_h2" "el_client state h2 = build_client h2" for h2
    using assms by (simp_all add: fallback_state_def el_client_def)
  moreover have "\<not> tls_upstream state" using assms fallback_plain by simp
  ultimately show ?thesis using detect_primary detect_both_failed detect_switch by simp
qed

lemma build_client_http2 [simp]: "http2_only (build_client h2) = h2"
  by (simp add: build_client_def Let_def)

lemma fallback_outcome_eq:
  assumes "state = fallback_state c ''http://127.0.0.1:43210'' prefer_h2"
    and "attempt serde (test_server accepted status body) state prefer_h2 = r"
    and "attempt serde (test_server accepted status body) state (\<not> prefer_h2) = r'"
  shows "fallback_outcome state prefer_h2 accepted status body expected_h2 \<longleftrightarrow>
    (let switch = transport_failed r \<and> \<not> transport_failed r'; result = el_result (if switch then r' else r)
     in (prefer_h2 \<noteq> switch) = expected_h2 \<and> transport_failed r = (\<not> served accepted prefer_h2)
        \<and> (if \<not> fst accepted \<and> \<not> snd accepted then
             (case b_syncing result of
                Inr _ \<Rightarrow> False
              | Inl error \<Rightarrow>
                  (if prefer_h2 then error = Timeout else (case error of Transport _ \<Rightarrow> True | _ \<Rightarrow> False))
                  \<and> b_peers result = Inl error \<and> b_block result = Inl error)
           else if status = 503 then b_syncing result = Inl (HttpStatus 503)
           else if body = valid_batch then b_syncing result = Inr (Synced False) \<and> b_peers result = Inr 0x40
           else (case b_syncing result of Inl (Decode _) \<Rightarrow> True | _ \<Rightarrow> False)))"
proof -
  have "el_use_h2 state = prefer_h2" using assms(1) by (simp add: fallback_state_def)
  then show ?thesis
    unfolding fallback_outcome_def fallback_detect [OF assms(1)] assms(2,3)
    by (auto simp: Let_def split: sum.splits HealthError.splits)
qed

lemma fallback_row:
  assumes "(prefer_h2, accepted, status, body, expected_h2) \<in> set fallback_cases"
  shows "fallback_outcome (fallback_state c ''http://127.0.0.1:43210'' prefer_h2) prefer_h2 accepted status body expected_h2"
proof -
  obtain r where valid: "parse_el_batch serde valid_batch = Inr r" "b_syncing r = Inr (Synced False)" "b_peers r = Inr 0x40"
    using fallback_bodies(1) by (auto simp: is_ok_and_def split: sum.splits)
  note eval = fallback_outcome_eq [OF refl fallback_attempt fallback_attempt] valid fallback_bodies(2)
    fallback_bodies(3) [symmetric] served_def is_success_def is_transport_def from_error_def Let_def
  from assms show ?thesis
    unfolding fallback_cases_def list.set insert_iff empty_iff prod.inject
    by (elim disjE conjE FalseE; hypsubst; simp only: eval prod.sel; simp add: valid is_transport_def from_error_def)
qed

lemma transport_fallback_test: el_transport_fallback_preserves_verdict_and_error_policy
proof -
  have "parses [''--el-http-url'', ''http://127.0.0.1:43210''] (\<lambda>c. True)" by code_simp
  then show ?thesis
    using fallback_row
    by (auto simp: el_transport_fallback_preserves_verdict_and_error_policy_def parses_def list_all_iff Let_def
        split: option.splits)
qed

end
