(* ===== verification/Edge_Tests.thy ===== *)
theory Edge_Tests
  imports Unit_Tests Lifecycle
begin

text \<open>
  Two unit tests that are not evaluated: that of \<open>src/websocket.rs\<close> on an offer of 32769 subprotocols,
  whose assertions follow from what \<open>Websocket\<close> shows of offers, and that of \<open>src/lifecycle.rs\<close> on what
  the completion barrier waits for.
\<close>

section \<open>A large subprotocol offer\<close>

text \<open>\<open>format!("p{i:05}")\<close>.\<close>

definition numbered :: "nat \<Rightarrow> string" where
  "numbered i = CHR ''p'' # (let s = show_base 10 i in replicate (5 - length s) CHR ''0'' @ s)"

definition large_tokens :: "string list" where
  "large_tokens = map numbered (rev [0..<32768]) @ [''P00000'']"

fun chunks :: "nat \<Rightarrow> 'a list \<Rightarrow> 'a list list" where
  "chunks n xs = (if n = 0 \<or> xs = [] then [] else take n xs # chunks n (drop n xs))"

declare chunks.simps [simp del]

definition large_offer :: "nat \<Rightarrow> HeaderMap" where
  "large_offer per_line =
     fold (\<lambda>chunk m. append_header m ''sec-websocket-protocol'' (join '','' chunk)) (chunks per_line large_tokens)
       empty_headers"

definition large_subprotocol_offers_preserve_order_and_reject_late_duplicates :: bool where
  "large_subprotocol_offers_preserve_order_and_reject_late_duplicates \<longleftrightarrow>
     list_all (\<lambda>per_line.
       (case normalize_subprotocols rfc_api (large_offer per_line) of
          Inl _ \<Rightarrow> False
        | Inr headers \<Rightarrow>
            get_header headers ''sec-websocket-protocol'' = Some (join '', '' large_tokens)
            \<and> length (get_all headers ''sec-websocket-protocol'') = 1)
       \<and> isl (normalize_subprotocols rfc_api
           (append_header (large_offer per_line) ''sec-websocket-protocol''
             ('' '' @ CHR 0x09 # ''p32767'' @ CHR 0x09 # '' ''))))
     [length large_tokens, 4096]"

subsection \<open>Its tokens\<close>

lemma digits_zeros: "digits_acc 10 0 (replicate k CHR ''0'' @ s) = digits_acc 10 0 s"
  by (induction k) (simp_all add: to_digit_def ascii_defs Let_def)

lemma numbered_inj: "inj_on numbered {..< 32768}"
proof (rule inj_onI)
  fix i j :: nat
  assume ij: "i \<in> {..< 32768}" "j \<in> {..< 32768}" and eq: "numbered i = numbered j"
  have d: "digits_acc 10 0 (tl (numbered k)) = Some k" if "k \<in> {..< 32768}" for k
  proof -
    have "digits_acc 10 0 (show_base 10 k) = Some k" using that by (intro digits_acc_show_base) simp_all
    then show ?thesis by (simp only: numbered_def Let_def list.sel digits_zeros)
  qed
  show "i = j" using d [OF ij(1), unfolded eq] d [OF ij(2)] by (metis option.inject)
qed

lemma large_tokens_distinct: "distinct large_tokens"
proof -
  have "distinct (map numbered (rev [0..<n]) @ [''P00000''])" if "n \<le> 32768" for n
  proof -
    have "inj_on numbered {0..<n}" using that by (intro inj_on_subset [OF numbered_inj]) auto
    moreover have "''P00000'' \<noteq> numbered i" for i by (simp add: numbered_def)
    ultimately show ?thesis by (auto simp: distinct_map)
  qed
  then show ?thesis unfolding large_tokens_def by blast
qed

lemma numbered_valid: "valid_subprotocol (numbered i)"
proof -
  have "token_char (digit_char d)" if "d < 10" for d
    using that code_digit_char [of d] by (auto simp: token_char_def ascii_defs)
  moreover have "token_char CHR ''0''" "token_char CHR ''p''" by code_simp+
  ultimately show ?thesis
    using show_base_digits [of 10 _ i]
    by (auto simp: valid_subprotocol_def numbered_def Let_def list_all_iff)
qed

lemma large_tokens_valid: "list_all valid_subprotocol large_tokens"
proof -
  have "valid_subprotocol ''P00000''" by code_simp
  then have "list_all valid_subprotocol (map numbered (rev [0..<n]) @ [''P00000''])" for n
    by (simp add: list_all_iff numbered_valid)
  then show ?thesis unfolding large_tokens_def by blast
qed

subsection \<open>Its fields\<close>

lemma concat_chunks: "0 < n \<Longrightarrow> concat (chunks n xs) = xs"
proof (induction n xs rule: chunks.induct)
  case (1 n xs)
  then show ?case by (subst chunks.simps) auto
qed

lemma chunks_nonempty: "c \<in> set (chunks n xs) \<Longrightarrow> c \<noteq> [] \<and> set c \<subseteq> set xs"
proof (induction n xs rule: chunks.induct)
  case (1 n xs)
  from 1(2) have ne: "n \<noteq> 0" "xs \<noteq> []" by (subst (asm) chunks.simps, simp split: if_splits)+
  with 1(2) have "c = take n xs \<or> c \<in> set (chunks n (drop n xs))"
    by (subst (asm) chunks.simps) simp
  with 1(1) ne show ?case by (auto dest: in_set_takeD in_set_dropD)
qed

lemma split_offer:
  "list_all valid_subprotocol ts \<Longrightarrow> ts \<noteq> [] \<Longrightarrow> map (trim_by blank) (split CHR '','' (join '','' ts)) = ts"
proof (induction ts)
  case (Cons t ts)
  then have t: "trim_by blank t = t" "CHR '','' \<notin> set t" using valid_subprotocol_trim [of t] by simp_all
  show ?case
  proof (cases "ts = []")
    case True
    then show ?thesis using t split_no_sep [of "CHR '',''" t] by simp
  next
    case False
    then show ?thesis
      using Cons t split_sep [of "CHR '',''" t "join '','' ts"] by (simp add: join_Cons)
  qed
qed simp

lemma offered_chunks:
  assumes "0 < n" and "list_all valid_subprotocol ts"
  shows "offered (map (join '','') (chunks n ts)) = ts"
proof -
  have "map (trim_by blank) (split CHR '','' (join '','' c)) = c" if "c \<in> set (chunks n ts)" for c
    using that chunks_nonempty [OF that] assms(2) by (intro split_offer) (auto simp: list_all_iff)
  then have "offered (map (join '','') (chunks n ts)) = concat (chunks n ts)"
    by (simp add: offered_def map_concat comp_def cong: map_cong)
  with assms(1) show ?thesis by (simp add: concat_chunks)
qed

lemma large_offer_fields: "get_all (large_offer n) ''sec-websocket-protocol'' = map (join '','') (chunks n large_tokens)"
proof -
  have "get_all (fold (\<lambda>chunk m. append_header m ''sec-websocket-protocol'' (join '','' chunk)) cs m) ''sec-websocket-protocol'' =
      get_all m ''sec-websocket-protocol'' @ map (join '','') cs" for cs m
    by (induction cs arbitrary: m) (simp_all add: append_header_def get_all_def)
  then show ?thesis by (simp add: large_offer_def get_all_def empty_headers_def)
qed

lemma visible_fields:
  assumes "list_all valid_subprotocol ts"
  shows "list_all (list_all visible_ascii) (map (join '','') (chunks n ts))"
proof -
  have "visible_ascii x" if c: "c \<in> set (chunks n ts)" and x: "x \<in> set (join '','' c)" for c x
  proof -
    from x set_join [of "'',''" c] consider "x = CHR '',''" | t where "t \<in> set c" "x \<in> set t" by auto
    then show ?thesis
    proof cases
      case 1
      then show ?thesis by (simp add: visible_ascii_def)
    next
      case 2
      with chunks_nonempty [OF c] assms show ?thesis
        by (auto simp: list_all_iff valid_subprotocol_def dest: token_visible)
    qed
  qed
  then show ?thesis by (auto simp: list_all_iff)
qed

lemma large_tokens_Nil: "large_tokens \<noteq> []"
  unfolding large_tokens_def by blast

lemma large_offer_normal:
  assumes "0 < n"
  shows "normalize_subprotocols rfc_api (large_offer n) =
      Inr (insert_header (large_offer n) ''sec-websocket-protocol'' (join '', '' large_tokens))"
proof -
  have "chunks n large_tokens \<noteq> []"
    using concat_chunks [OF assms, of large_tokens] large_tokens_Nil by auto
  then show ?thesis
    using normalize_Inr [OF rfc_to_str_law rfc_header_value_law, of "large_offer n"]
      offered_chunks [OF assms large_tokens_valid] visible_fields [OF large_tokens_valid, of n]
      large_tokens_valid large_tokens_distinct
    by (simp add: large_offer_fields valid_offer_def)
qed

lemma late_duplicate_refused:
  assumes "0 < n"
  shows "isl (normalize_subprotocols rfc_api
    (append_header (large_offer n) ''sec-websocket-protocol'' ('' '' @ CHR 0x09 # ''p32767'' @ CHR 0x09 # '' '')))"
    (is "isl (normalize_subprotocols rfc_api ?h)")
proof -
  have "char_of (51 :: nat) = CHR ''3''" by (simp add: char_of_def bit_iff_odd)
  then have "numbered 32767 = ''p32767''"
    by (simp add: numbered_def show_base.simps digit_char_def Let_def decimal_chars)
  moreover have "numbered i \<in> set (map numbered (rev [0..<n]) @ [''P00000''])" if "i < n" for i n
    using that by simp
  from this [of 32767 32768] have "numbered 32767 \<in> set large_tokens" by (simp only: large_tokens_def)
  ultimately have "''p32767'' \<in> set large_tokens" by simp
  moreover have "offered ['' '' @ CHR 0x09 # ''p32767'' @ CHR 0x09 # '' ''] = [''p32767'']" by code_simp
  moreover have "get_all ?h ''sec-websocket-protocol'' =
      map (join '','') (chunks n large_tokens) @ ['' '' @ CHR 0x09 # ''p32767'' @ CHR 0x09 # '' '']"
    using large_offer_fields [of n] by (simp add: get_all_def append_header_def)
  ultimately have "\<not> distinct (offered (get_all ?h ''sec-websocket-protocol''))"
    using offered_chunks [OF assms large_tokens_valid] by (simp add: offered_def)
  then show ?thesis
    using normalize_Inr [OF rfc_to_str_law rfc_header_value_law, of ?h]
    by (cases "normalize_subprotocols rfc_api ?h") (auto simp: valid_offer_def Let_def)
qed

lemma large_offer_test: large_subprotocol_offers_preserve_order_and_reject_late_duplicates
proof -
  have "0 < length large_tokens" using large_tokens_Nil by blast
  then have "\<forall>n \<in> set [length large_tokens, 4096]. 0 < n" by simp
  then show ?thesis
    unfolding large_subprotocol_offers_preserve_order_and_reject_late_duplicates_def list_all_iff
    using large_offer_normal late_duplicate_refused by (simp add: get_header_def get_all_def insert_header_def)
qed

section \<open>The completion barrier\<close>

text \<open>The locals of \<open>Lifecycle::run\<close> in the order of their declaration; Rust drops them in reverse.\<close>

datatype RunLocal = Receiver | CompletionSender | PinnedTask

definition run_locals :: "RunLocal list" where
  "run_locals = [Receiver, CompletionSender, PinnedTask]"

definition run_drops :: "RunLocal list" where
  "run_drops = rev run_locals"

text \<open>
  The test at time \<open>now\<close>, in milliseconds, with a task that never finishes: within a second the barrier
  opens, what the task holds is dropped before, and there is no value.
\<close>

definition completion_barrier_waits_for_cancelled_future_cleanup :: "nat \<Rightarrow> bool" where
  "completion_barrier_waits_for_cancelled_future_cleanup now \<longleftrightarrow>
     list_all (\<lambda>closing.
       (case lifecycle_run (map_option (Pair now) (deadline closing now)) (None :: (nat \<times> unit) option) of
          None \<Rightarrow> False
        | Some (drained, value_of_task) \<Rightarrow>
            drained \<le> now + 1000 \<and> value_of_task = None
            \<and> PinnedTask \<in> set (takeWhile (\<lambda>l. l \<noteq> CompletionSender) run_drops)))
       [Announced now, SenderDropped]"

lemma barrier_test: "completion_barrier_waits_for_cancelled_future_cleanup now"
  by (simp add: completion_barrier_waits_for_cancelled_future_cleanup_def lifecycle_run_def deadline_def
      run_drops_def run_locals_def)

end
