(* ===== verification/Spec2Isabelle.thy ===== *)
theory Spec2Isabelle
  imports Prelude Evaluation Http_Types Headers Config Cli Upstream Json Rpc Health_Decode State Health Poll Websocket
    Relay Otel Proxy Startup Lifecycle Process Program Runs
    Serde Unit_Tests Rpc_Tests Health_Tests Edge_Tests
begin

text \<open>
  A model of ethryx, the Ethereum EL/CL sidecar of this repository (the Rust crate under \<open>src/src\<close>),
  and of what makes it correct. The program sits between clients and two upstreams, an
  execution-layer node (JSON-RPC over HTTP and WebSocket) and a consensus-layer node (the Beacon
  REST API). It forwards requests, can answer some of them itself (\<open>--mock-...\<close> flags), polls the
  health of both upstreams in the background, and gates traffic with \<open>/readyz\<close>.

  The theories, in the order they build on each other:

  \<^item> \<open>Prelude\<close>: 64-bit saturating arithmetic, ASCII and string operations of Rust's standard library,
    numerals in a base with the overflow check of \<open>from_str_radix\<close>, results as sums, and the
    interfaces (locales) \<open>codec\<close>, \<open>canonical_codec\<close>, \<open>invariant_system\<close> and \<open>refinement\<close>.
  \<^item> \<open>Evaluation\<close>: code equations on bytes and numerals, so that the kernel evaluates witnesses and tests fast.
  \<^item> \<open>Http_Types\<close>, \<open>Json\<close>: the data of the \<open>http\<close> crate and of serde_json. Their parsers are fields of
    the records \<open>http_api\<close> and \<open>json_api\<close>, arguments of the model; documented behaviour that a
    property needs is a named law (\<open>to_str_law\<close>, \<open>parse_pq_law\<close>, \<open>literal_law\<close>, ...), and \<open>rfc_api\<close>,
    \<open>sample_json\<close> are instances on which the laws hold. The \<open>derive(Deserialize)\<close> structs are
    translated with the documented meaning of their attributes (\<open>fields_of\<close>, \<open>object_of\<close>).
  \<^item> \<open>Headers\<close> (\<open>headers.rs\<close>): the hop-by-hop filter; interface \<open>hop_filter\<close>.
  \<^item> \<open>Config\<close> (\<open>config.rs\<close>): networks, the configuration with its defaults, genesis and slot length.
  \<^item> \<open>Cli\<close> (\<open>config.rs\<close>): the \<open>arg\<close> attributes of the configuration as a table, the value parsers, and
    the configuration they build from what clap found (\<open>clap_law\<close>).
  \<^item> \<open>Upstream\<close> (\<open>proxy.rs\<close>: \<open>is_cl_path\<close>, \<open>upstream_uri\<close>): path classification and URI composition, each
    with a reference definition.
  \<^item> \<open>Rpc\<close> (\<open>rpc.rs\<close>): the inspection of JSON-RPC bodies by the \<open>eth_syncing\<close> mock, its prefilter and
    its batches; interfaces \<open>local_responder\<close> and \<open>complete_responder\<close>.
  \<^item> \<open>Health_Decode\<close>, \<open>State\<close>, \<open>Health\<close> (\<open>health.rs\<close>, \<open>state.rs\<close>): quantities, the EL batch response,
    Beacon envelopes; the shared state; readiness checks, snapshot and the health endpoints.
  \<^item> \<open>Poll\<close> (\<open>health.rs\<close>): one poll with its choice between HTTP/1.1 and h2c, the gauges, and the loop
    as a machine over the events it waits for.
  \<^item> \<open>Websocket\<close>, \<open>Relay\<close> (\<open>websocket.rs\<close>): recognising, validating and dialling a WebSocket; the tunnel
    as a step relation \<open>bridge_step\<close> of two directions, with its timers (\<open>timer_step\<close>) and what it does
    while both peers are silent (\<open>silent_step\<close>); interface \<open>per_message\<close>.
  \<^item> \<open>Otel\<close> (\<open>otel.rs\<close>): trace context, exporter endpoints, and the metric registries under
    interleaved registrations; interface \<open>registry\<close>.
  \<^item> \<open>Proxy\<close> (\<open>proxy.rs\<close>, labels of \<open>lib.rs\<close>): classification, local endpoints, the two proxies, dispatch
    with its metrics, access log line and tracing span.
  \<^item> \<open>Startup\<close>, \<open>Lifecycle\<close> (\<open>lib.rs\<close>, \<open>lifecycle.rs\<close>, \<open>metrics.rs\<close>, \<open>main.rs\<close>): recorder, validation and
    state, warm-up poll, binding; then the server as a step relation \<open>server_step\<close> over its tasks,
    with the accept loops and the race of their \<open>select!\<close>, the shutdown deadline, the completion
    barrier and the connection gauges, and the abstract life of a server (\<open>life_step\<close>) that it
    refines. Its steps are the program's own (\<open>own_step\<close>), the environment's (\<open>env_step\<close>) and time.
  \<^item> \<open>Process\<close> (\<open>main.rs\<close>, \<open>lib.rs\<close>, \<open>otel.rs\<close>, \<open>websocket.rs\<close>): signals, subscriber, the composition of
    the start-up up to the accept loops with everything it does in order (\<open>launch_run\<close>, \<open>main_start\<close>,
    \<open>MainEvent\<close>), socket options, the calls of the telemetry shutdown and how far they have come (\<open>Flush\<close>).
  \<^item> \<open>Program\<close>, \<open>Runs\<close>: the whole program as one step relation \<open>prog_step\<close> in which requests, tunnels,
    polls and the shutdown interleave over one shared \<open>AppState\<close>, what it does by itself (\<open>prog_own\<close>)
    and when nobody else moves (\<open>prog_alone\<close>), its invariant \<open>prog_ok\<close>, its refinement of \<open>server_step\<close>
    and of the poll loop, and the properties of whole runs.
  \<^item> \<open>Serde\<close>: a JSON reader, an instance of \<open>json_api\<close>. It shows that the law the properties assume of
    serde_json holds of a whole parser (\<open>serde_literal\<close>), and how the documents it reads compose.
  \<^item> \<open>Unit_Tests\<close>, \<open>Rpc_Tests\<close>, \<open>Health_Tests\<close>, \<open>Edge_Tests\<close>: the assertions of the repository's unit
    tests, proved of the model, with \<open>serde\<close>, \<open>rfc_api\<close> and \<open>reference_clap\<close> for the libraries; they check the definitions, not the
    properties.

  How the parts interact. \<open>Startup.run_setup\<close> builds the \<open>AppState\<close> that \<open>warm_up\<close> gives its first
  probe; the poll loop then changes two fields of it and nothing else, the transport verdict
  \<open>el_use_h2\<close> and the published \<open>probe\<close>. \<open>Proxy.dispatch\<close> reads both: the probe for the local
  endpoints, the verdict when it forwards to the EL. A WebSocket request leaves a \<open>Tunnel\<close> behind,
  whose messages \<open>Relay\<close> moves with the same inspection \<open>mock_syncing\<close> that \<open>el_proxy\<close> uses on POST
  bodies. \<open>Program\<close> puts them together: each of its steps is a step of one part, the poller's two
  halves write what the dispatched requests read, and each tunnel is a task of the server.
  The properties at the end of this theory span these parts: the traffic gate from poll
  to \<open>/readyz\<close>, forwarded requests following the verdict, the two doors of the mock, and a tunnel
  from the dispatched request to its last message.

  What the groups of properties show. Routing and forwarding: who is asked, with which request,
  and what comes back (\<open>Proxy\<close>, \<open>Headers\<close>, \<open>Upstream\<close>); the mock answers exactly what it may and
  its prefilter is sound (\<open>Rpc\<close>); handshakes are dialled once and refused otherwise, subprotocol
  offers are validated exactly (\<open>Websocket\<close>); a tunnel neither loses, reorders nor invents messages,
  waits for idle peers, and ends within two seconds of the first of its directions (\<open>Relay\<close>); polls decode exactly, the verdict converges, readiness has the stated
  meaning and is logged on changes only (\<open>Health_Decode\<close>, \<open>Poll\<close>, \<open>Health\<close>); the
  shutdown is final and no task outlives its deadline (\<open>Lifecycle\<close>); start-up is all or nothing and
  in order (\<open>Process\<close>); and at any moment of any run of the whole program the mock shields the
  execution layer, readiness answers come from the last completed poll, gauges and tasks match the
  open connections and tunnels, time does not pass beyond the deadline before the run has ended,
  which it does by itself, and nothing happens after its end (\<open>Runs\<close>).

  Choices of the model. State is passed explicitly; a handler returns its answer together with
  what it sent upstream (\<open>Outcome\<close>). Errors are the left of a sum. Machine integers are
  \<open>64 word\<close> where the code saturates or checks overflow. The network is an argument: the upstream
  answers of one request are fields of \<open>proxy_env\<close>, those of one poll a \<open>net_api\<close>, a new one for each
  poll. Bodies the program does not look into are opaque (\<open>Incoming\<close>). A stream of WebSocket
  messages is the list of what arrives, errors and its end included; a peer that stays connected
  and silent is a list without an end, on which the direction waits. A sink takes a number of
  messages and fails from then on; a write that blocks is a step that is not taken. A step of a
  tunnel is one iteration of one direction's loop, a timer, or a millisecond. The three requests of a poll are
  made one after the other although the code joins them: they share no state but the verdict,
  which only the batch touches.

  Time. Clocks count milliseconds. The program's own steps are those it takes by itself as soon as
  they are possible: a timer that is due, a select that sees the shutdown, a join, the drop of a
  task at the deadline. A clock advances only when no own step is possible (\<open>tick\<close>, \<open>time_passes\<close>);
  this is the only rule about time, it holds for every step relation with a clock, and it means that
  the program's own work takes no time compared with its timers. Steps of clients, upstreams, the
  operating system and the telemetry providers may happen at any time or never. So a bound on the
  clock is a consequence of which own steps there are: without the drop of tasks at the deadline, or
  without the grace of \<open>drain_pair\<close>, time would pass and the theorems about it would be false. How long the
  telemetry providers take is not bounded, and a provider that hangs keeps \<open>run\<close> from returning, as
  in the code.

  In \<open>prog_step\<close> a dispatched
  request is one step, because it reads the shared state at one moment only (a local answer holds
  the probe's \<open>borrow\<close>, forwarding reads the verdict once); a poll is two, because its batch stores
  the verdict before the probe is published; the first half is undone by nothing, and
  \<open>poll_step_resumed\<close> shows that the two together are one poll of \<open>Poll\<close>. The model is that of the
  \<open>otel\<close> feature switched on. The model uses no fuel: recursion is structural, and the end of a
  tunnel and of a run are proved with the measures \<open>bridge_measure\<close> and \<open>work\<close>, of what is left to do and
  of the time left. Only the reader \<open>serde\<close> has some, twice the length
  of the document and two; \<open>read_enough\<close> shows that more makes no difference.

  Not modelled. hyper, tokio, rustls, tungstenite, clap and the OpenTelemetry SDK are parameters
  or absent: HTTP framing, connection pools, TLS, WebSocket framing and how clap finds flags on a
  command line (\<open>clap_law\<close> is what is assumed of it). Debug and info logs other than the access log, the readiness
  transitions, the verdict changes and the line after the warm-up are output without effect on the
  state. What the operating system makes of a socket option, a signal or an address to bind is an
  argument. The rendering of the Prometheus page and of JSON bodies (\<open>rendered_metrics\<close>,
  \<open>snapshot_vec\<close>, \<open>ready_vec\<close>), the recorder's upkeep task, \<open>build.rs\<close>, scripts, the benches and the
  integration tests are left out.
\<close>

section \<open>Properties that span components\<close>

subsection \<open>The poller and the dispatcher\<close>

text \<open>C19: the traffic gate. Right after a completed poll, a GET or HEAD of \<open>/readyz\<close> is answered by the
  dispatcher itself, from the published probe alone: 200 exactly when the poll found the program
  ready, 503 otherwise, and no upstream is asked. The poll logs a line exactly when this answer
  differs from the poll before (a first poll that is ready is not logged).\<close>

theorem readyz_gate:
  assumes "\<not> ps_done ps" and "req_method req \<in> {GET, HEAD}" and "uri_path (req_uri req) = ''/readyz''"
  shows "let ps' = poll_step A J (Polled N (now_unix E) True) ps;
             d = dispatch E req (ps_app ps'); status = res_status (dis_response d) in
     dis_outcome d = None
     \<and> (status = 200 \<longleftrightarrow> ps_prev ps' = Some True) \<and> (status = 503 \<longleftrightarrow> ps_prev ps' = Some False)
     \<and> ps_log ps' = ps_log ps @
         (if ps_prev ps' = ps_prev ps \<or> ps_prev ps = None \<and> status = 200 then []
          else [if status = 200 then Recovered else BecameNotReady])"
  using gate_matches_log [OF assms(1), of A J N "now_unix E" "ready_vec E" "req_method req = HEAD"]
    dispatch_ready [OF assms(2,3)]
  by (simp only: Let_def simp_thms)

definition sample_readyz :: Request where
  "sample_readyz = sample_get\<lparr>req_uri := sample_uri\<lparr>path_and_query := Some \<lparr>
     pq_path = ''/readyz'', pq_query = None\<rparr>\<rparr>\<rparr>"

theorem readyz_gate_witness:
  "let ps' = poll_step rfc_api no_json (Polled dead_net (now_unix sample_env) True) (poll_start sample_state Map.empty) in
     res_status (dis_response (dispatch sample_env sample_readyz (ps_app ps'))) = 503
       \<longleftrightarrow> ps_prev ps' = Some False"
proof -
  have r: "req_method sample_readyz \<in> {GET, HEAD}" "uri_path (req_uri sample_readyz) = ''/readyz''"
    by (simp_all add: sample_readyz_def sample_get_def uri_path_def)
  show ?thesis
    using readyz_gate [OF _ r, of "poll_start sample_state Map.empty" rfc_api no_json dead_net sample_env]
    by (simp add: Let_def poll_start_def)
qed

text \<open>C18: requests follow the poller. If some HTTP version reaches a cleartext upstream, then after a
  completed poll every request forwarded to the execution layer is sent with the client of a
  version that reached it in this poll.\<close>

theorem requests_follow_verdict:
  assumes "\<not> ps_done ps" and "\<not> trust_upstream (cfg (ps_app ps))" and "\<not> tls_upstream (ps_app ps)"
    and "clients_ok (ps_app ps)" and "\<not> transport_failed (attempt J N (ps_app ps) h2)"
    and "HttpRequest cl r \<in> set (contacts (route E req (ps_app (poll_step A J (Polled N now receivers) ps)) El))"
  shows "cl = build_client (http2_only cl)
     \<and> \<not> transport_failed (attempt J N (ps_app ps) (http2_only cl))"
proof -
  let ?app = "ps_app ps" and ?app' = "ps_app (poll_step A J (Polled N now receivers) ps)"
  obtain pr b where p: "probe_once A J N ?app = (pr, b)" by fastforce
  have b: "b = fst (snd (el_batch_detect J N ?app))"
    using p assms(2) by (auto simp: probe_once_def Let_def split: prod.splits)
  have reached: "\<not> transport_failed (attempt J N ?app (el_use_h2 b))"
    unfolding b using assms(3,5) by (rule detect_reaches)
  obtain h where h: "b = ?app\<lparr>el_use_h2 := h\<rparr>"
    using probe_once_frame [of A J N ?app] p by auto
  have same: "el_use_h2 ?app' = el_use_h2 b" "client ?app' = client ?app" "el_h2_client ?app' = el_h2_client ?app"
    unfolding poll_step_polled [OF assms(1)] p prod.case Let_def by (simp_all add: h)
  have "cl = client_of ?app' El" using route_contact [OF assms(6)] by blast
  then have "cl = build_client (el_use_h2 b)"
    using same assms(4) by (simp add: client_of_def el_client_def clients_ok_def)
  with reached show ?thesis by simp
qed

theorem requests_follow_verdict_witness:
  "\<exists>cl r. HttpRequest cl r \<in> set (contacts (route sample_env sample_get
        (ps_app (poll_step rfc_api no_json (Polled dead_h2_net 1000 True) (poll_start sample_state Map.empty))) El))
     \<and> \<not> transport_failed (attempt no_json dead_h2_net sample_state (http2_only cl))"
proof -
  let ?ps = "poll_start sample_state Map.empty"
  let ?app' = "ps_app (poll_step rfc_api no_json (Polled dead_h2_net 1000 True) ?ps)"
  have ps: "\<not> ps_done ?ps" "ps_app ?ps = sample_state" by (simp_all add: poll_start_def)
  have s: "\<not> trust_upstream (cfg sample_state)" "clients_ok sample_state"
    by (simp_all add: sample_state_def default_config_def clients_ok_def)
  have up: "upstream_uri rfc_api sample_uri sample_inbound None = Inr sample_target"
    by (simp add: upstream_uri_def Let_def sample_uri_def sample_inbound_def sample_target_def
        uri_path_def uri_query_def) (simp add: rfc_api_def rfc_from_parts_def)
  obtain pr h where p: "probe_once rfc_api no_json dead_h2_net sample_state = (pr, sample_state\<lparr>el_use_h2 := h\<rparr>)"
    using probe_once_frame [of rfc_api no_json dead_h2_net sample_state]
    by (metis prod.collapse)
  have "el_http_uri ?app' = sample_uri" "cfg ?app' = default_config"
    unfolding poll_step_polled [OF ps(1)] ps(2) p prod.case Let_def by (simp_all add: sample_state_def)
  moreover have "http sample_env = rfc_api" "req_uri sample_get = sample_inbound" "req_method sample_get = GET"
    by (simp_all add: sample_env_def sample_get_def)
  ultimately have "HttpRequest (client_of ?app' El) (forwarded sample_env ?app' sample_get sample_target)
      \<in> set (contacts (route sample_env sample_get ?app' El))"
    by (simp add: el_proxy_eq body_inspected_def pass_on_def base_of_def up send_http_eq)
  moreover have "\<not> transport_failed (attempt no_json dead_h2_net (ps_app ?ps) False)"
    unfolding ps(2) by (simp add: is_transport_def)
  ultimately show ?thesis
    using requests_follow_verdict [OF ps(1), where ?h2.0 = False, unfolded ps(2)] s sample_not_tls
    unfolding ps(2) by blast
qed

subsection \<open>The mock over HTTP and over a WebSocket\<close>

text \<open>C38: one mock, two doors. A body POSTed over HTTP and the same text sent over a WebSocket meet the
  same fate under \<open>--mock-eth-syncing\<close>: both are passed to the upstream unchanged, or both are
  answered here with the same bytes, or both are swallowed (204 over HTTP).\<close>

theorem http_ws_mock_agree:
  assumes "body_inspected state req" and "collect_body E (req_body req) = CollectedBytes b"
    and "room c > 0" and "room u > 0"
  shows "let out = el_proxy E req state; (ctl, c', u') = c2u_item (json E) True (Text b) c u in
     ctl = Continue
     \<and> (case mock_syncing (json E) b of
          Forward \<Rightarrow> out = el_http_proxy E (req\<lparr>req_body := Full b\<rparr>) state
            \<and> delivered u' = delivered u @ [Text b] \<and> c' = c
        | Reply r \<Rightarrow> contacts out = []
            \<and> map_sum id res_body (answer_of out) = Inr (Full r)
            \<and> delivered c' = delivered c @ [Text r] \<and> u' = u
        | MockResult.Silent \<Rightarrow> contacts out = []
            \<and> map_sum id res_status (answer_of out) = Inr 204 \<and> c' = c \<and> u' = u)"
proof (cases "mock_syncing (json E) b")
  case Forward
  with assms show ?thesis
    by (cases rule: forward_item_cases [of u "Text b"])
      (auto simp: el_proxy_eq el_http_proxy_eq c2u_item_inspected inspected_def is_close_def Let_def)
next
  case (Reply r)
  with assms show ?thesis
    by (cases rule: send_cases [of c "Text r"])
      (auto simp: el_proxy_eq c2u_item_inspected inspected_def Let_def)
qed (use assms in \<open>simp add: el_proxy_eq c2u_item_inspected inspected_def Let_def\<close>)

theorem http_ws_mock_agree_witness:
  "contacts (el_proxy (sample_env\<lparr>collect_body := \<lambda>_. CollectedBytes sample_batch\<rparr>) sample_post sample_mocked) = []"
proof -
  let ?E = "sample_env\<lparr>collect_body := \<lambda>_. CollectedBytes sample_batch\<rparr>"
  let ?w = "\<lparr>delivered = [], room = 1\<rparr>"
  have "body_inspected sample_mocked sample_post" "collect_body ?E (req_body sample_post) = CollectedBytes sample_batch"
    "room ?w > 0" "mock_syncing (json ?E) sample_batch \<noteq> Forward"
    using sample_batch_local by (simp_all add: body_inspected_def sample_mocked_def sample_post_def sample_env_def)
  with http_ws_mock_agree [of sample_mocked sample_post ?E sample_batch ?w ?w] show ?thesis
    by (cases "mock_syncing (json ?E) sample_batch") (auto simp: Let_def)
qed

text \<open>C16: the whole path of a WebSocket. In whatever order its two directions run, the tunnel that a
  dispatched request opens passes upstream only messages of the client, unchanged and in order, and
  with \<open>--mock-eth-syncing\<close> none of the texts the mock handles. Nothing else is held back: while the
  client's direction runs, everything it has read so far has been passed on, what it reads next can
  be passed on as long as the sinks take messages, and once it has ended with sinks that do, so has
  everything the client sent.\<close>

theorem tunnel_end_to_end:
  assumes "dis_outcome (dispatch E req state) = Some out" and "spawned out = Some t"
    and "(bridge_step (json E) (tunnel_mock t))\<^sup>*\<^sup>* (bridge_start cs us c_room u_room) b"
  shows "let passed = filter (\<lambda>m. \<not> (mock_eth_syncing (cfg state)
              \<and> (\<exists>text. m = Text text \<and> mock_syncing (json E) text \<noteq> Forward)));
             open_sinks = (room (u_tx b) > 0 \<and> (mock_eth_syncing (cfg state) \<longrightarrow> room (c_tx b) > 0)) in
     prefix (delivered (u_tx b)) (passed (messages cs))
     \<and> (c2u b = Running \<longrightarrow>
          (\<exists>read. messages cs = read @ messages (c_rx b) \<and> delivered (u_tx b) = passed read))
     \<and> (\<forall>m rest. c2u b = Running \<and> c_rx b = Inr m # rest \<and> open_sinks \<longrightarrow>
          (\<exists>b'. bridge_step (json E) (tunnel_mock t) b b' \<and> c_rx b' = rest
             \<and> delivered (u_tx b') = delivered (u_tx b) @ passed [m]))
     \<and> (c2u b \<notin> {Running, Dropped} \<and> open_sinks \<longrightarrow> delivered (u_tx b) = passed (messages cs))"
proof -
  have t: "tunnel_mock t = mock_eth_syncing (cfg state)"
    using dispatch_route [OF assms(1)] assms(2) route_tunnel by blast
  let ?passed = "filter (\<lambda>m. \<not> (mock_eth_syncing (cfg state)
      \<and> (\<exists>text. m = Text text \<and> mock_syncing (json E) text \<noteq> Forward)))"
  have out: "outgoing (json E) (tunnel_mock t) = ?passed"
    unfolding outgoing_def t
    by (rule ext, rule filter_cong) (auto simp: inspected_def split: Message.splits)
  have sinks: "takes_all (tunnel_mock t) b \<longleftrightarrow>
      room (u_tx b) > 0 \<and> (mock_eth_syncing (cfg state) \<longrightarrow> room (c_tx b) > 0)"
    by (simp add: takes_all_def t)
  show ?thesis
    unfolding Let_def
  proof (intro conjI impI allI)
    show "prefix (delivered (u_tx b)) (?passed (messages cs))"
      using bridge_prefix [OF assms(3)] unfolding out .
    show "\<exists>read. messages cs = read @ messages (c_rx b) \<and> delivered (u_tx b) = ?passed read"
      if "c2u b = Running"
      using bridge_upstream(1) [OF assms(3) that] unfolding out .
    show "\<exists>b'. bridge_step (json E) (tunnel_mock t) b b' \<and> c_rx b' = rest
        \<and> delivered (u_tx b') = delivered (u_tx b) @ ?passed [m]"
      if "c2u b = Running \<and> c_rx b = Inr m # rest
        \<and> room (u_tx b) > 0 \<and> (mock_eth_syncing (cfg state) \<longrightarrow> room (c_tx b) > 0)" for m rest
      using bridge_handles_next [of b m rest "tunnel_mock t" "json E"] that unfolding out sinks by blast
    show "delivered (u_tx b) = ?passed (messages cs)"
      if "c2u b \<notin> {Running, Dropped} \<and> room (u_tx b) > 0 \<and> (mock_eth_syncing (cfg state) \<longrightarrow> room (c_tx b) > 0)"
      using bridge_upstream(2) [OF assms(3)] that unfolding out sinks by blast
  qed
qed

definition sample_ws_state :: AppState where
  "sample_ws_state = sample_mocked\<lparr>el_ws_uri := sample_base\<rparr>"

lemma sample_tunnel:
  "\<exists>out t. dis_outcome (dispatch sample_env sample_upgrade sample_ws_state) = Some out \<and> spawned out = Some t
     \<and> tunnel_mock t"
proof -
  have "classify rfc_api sample_upgrade = Some Upgrade" "\<not> is_cl_path (uri_path sample_inbound)"
    "probe_of_path (uri_path sample_inbound) = None"
    by code_simp+
  then have "classify_request rfc_api sample_upgrade = ProxyRoute (WebSocket Upgrade)"
    by (simp add: classify_request_def sample_upgrade_def)
  moreover have "http sample_env = rfc_api" "ws sample_env = sample_ws" "el_ws_uri sample_ws_state = sample_base"
    "mock_eth_syncing (cfg sample_ws_state)"
    by (simp_all add: sample_env_def sample_ws_state_def sample_mocked_def)
  ultimately show ?thesis
    using sample_upgrade_succeeds sample_up_tunnel
    by (simp add: dispatch_def ws_proxy_def Let_def)
qed

theorem tunnel_end_to_end_witness:
  "\<exists>b. bridge_step sample_json True (bridge_start [Inr (Text sample_batch)] [] 1 1) b
     \<and> c_rx b = [] \<and> delivered (u_tx b) = []"
proof -
  let ?b = "bridge_start [Inr (Text sample_batch)] [] 1 1"
  obtain out t where d: "dis_outcome (dispatch sample_env sample_upgrade sample_ws_state) = Some out"
      "spawned out = Some t" and m: "tunnel_mock t = True"
    using sample_tunnel by blast
  have J: "json sample_env = sample_json" "mock_eth_syncing (cfg sample_ws_state)"
    by (simp_all add: sample_env_def sample_ws_state_def sample_mocked_def)
  have "\<exists>b. bridge_step sample_json True ?b b \<and> c_rx b = []
      \<and> delivered (u_tx b) = delivered (u_tx ?b) @ filter (\<lambda>m. \<not> (\<exists>text. m = Text text
          \<and> mock_syncing sample_json text \<noteq> Forward)) [Text sample_batch]"
    using tunnel_end_to_end [OF d, of "[Inr (Text sample_batch)]" "[]" 1 1 ?b]
    unfolding m J(1) Let_def by (simp add: bridge_start_def J(2))
  then show ?thesis using sample_batch_local by (simp add: bridge_start_def)
qed

end
